(* ===== verification/Prelude.thy ===== *)
theory Prelude
  imports Main "HOL-Library.Word"
begin

text \<open>
  Shared vocabulary of the development: the machine integers of the Rust code, the three
  outcomes of a Rust call (a value, an error value, a panic), checked, saturating and
  panicking arithmetic, and the little lemmas with which every component reasons about them.

  \<^item> Unsigned integers are words of their width.  Every fact about them is stated through
    \<open>unat\<close>, so that proofs are about natural numbers.
  \<^item> Signed integers (\<open>i32\<close>, \<open>i64\<close>, \<open>i128\<close>) are \<open>int\<close> with the range check or the saturation
    written out at every operation.
  \<^item> \<open>usize\<close> is \<open>nat\<close>; the program runs on a 64-bit target, so a checked \<open>usize\<close> operation fails
    at \<open>2 ^ 64\<close>.
  \<^item> The release profile sets \<open>overflow-checks = true\<close>: a plain \<open>+\<close>, \<open>-\<close> or \<open>*\<close> that overflows
    panics, as do division by zero and an index out of range.  Those are the \<open>_or_panic\<close>
    operations.
\<close>

section \<open>Machine integers\<close>

type_synonym u8 = "8 word"
type_synonym u16 = "16 word"
type_synonym u32 = "32 word"
type_synonym u64 = "64 word"
type_synonym u128 = "128 word"
type_synonym i32 = int
type_synonym i64 = int
type_synonym i128 = int
type_synonym usize = nat

named_theorems arith_iff \<open>when a checked or panicking operation succeeds, over \<open>unat\<close>\<close>
named_theorems eval_defs \<open>definitions that evaluate a closed run of the model by \<open>simp\<close>\<close>
named_theorems result_iff \<open>when a composed computation gives a value, an error or a panic\<close>

section \<open>Outcomes of a Rust call\<close>

datatype ('e, 'a) result = Ok 'a | Err 'e | Panic

text \<open>A Rust function that returns \<open>Option\<close> and may panic has the error type \<open>unit\<close>.\<close>

type_synonym 'a maybe = "(unit, 'a) result"

fun and_then :: "('e, 'a) result \<Rightarrow> ('a \<Rightarrow> ('e, 'b) result) \<Rightarrow> ('e, 'b) result" where
  "and_then (Ok x) f = f x"
| "and_then (Err e) f = Err e"
| "and_then Panic f = Panic"

fun map_err :: "('e \<Rightarrow> 'f) \<Rightarrow> ('e, 'a) result \<Rightarrow> ('f, 'a) result" where
  "map_err f (Ok x) = Ok x"
| "map_err f (Err e) = Err (f e)"
| "map_err f Panic = Panic"

fun map_ok :: "('a \<Rightarrow> 'b) \<Rightarrow> ('e, 'a) result \<Rightarrow> ('e, 'b) result" where
  "map_ok f (Ok x) = Ok (f x)"
| "map_ok f (Err e) = Err e"
| "map_ok f Panic = Panic"

fun ok_or :: "'e \<Rightarrow> 'a option \<Rightarrow> ('e, 'a) result" where
  "ok_or e (Some x) = Ok x"
| "ok_or e None = Err e"

text \<open>\<open>.ok()\<close>, and matching on the outcome of a call that may fail (a panic still propagates).\<close>

fun ok :: "('e, 'a) result \<Rightarrow> ('f, 'a option) result" where
  "ok (Ok x) = Ok (Some x)"
| "ok (Err e) = Ok None"
| "ok Panic = Panic"

definition require :: "bool \<Rightarrow> 'e \<Rightarrow> ('e, unit) result" where
  "require b e = (if b then Ok () else Err e)"

definition or_panic :: "'a option \<Rightarrow> ('e, 'a) result" where
  "or_panic x = (case x of Some y \<Rightarrow> Ok y | None \<Rightarrow> Panic)"

text \<open>A loop that pushes one value per element, and stops at the first error.\<close>

fun collect :: "('a \<Rightarrow> ('e, 'b) result) \<Rightarrow> 'a list \<Rightarrow> ('e, 'b list) result" where
  "collect f [] = Ok []"
| "collect f (x # xs) = and_then (f x) (\<lambda>y. map_ok ((#) y) (collect f xs))"

lemma and_then_eq_Ok [result_iff]: "and_then r f = Ok y \<longleftrightarrow> (\<exists>x. r = Ok x \<and> f x = Ok y)"
  by (cases r) auto

lemma and_then_eq_Panic [result_iff]:
  "and_then r f = Panic \<longleftrightarrow> r = Panic \<or> (\<exists>x. r = Ok x \<and> f x = Panic)"
  by (cases r) auto

lemma and_then_eq_Err [result_iff]:
  "and_then r f = Err e \<longleftrightarrow> r = Err e \<or> (\<exists>x. r = Ok x \<and> f x = Err e)"
  by (cases r) auto

lemma map_err_eq_Ok [result_iff]: "map_err f r = Ok x \<longleftrightarrow> r = Ok x"
  by (cases r) auto

lemma map_err_eq_Panic [result_iff]: "map_err f r = Panic \<longleftrightarrow> r = Panic"
  by (cases r) auto

lemma map_ok_eq_Ok [result_iff]: "map_ok f r = Ok y \<longleftrightarrow> (\<exists>x. r = Ok x \<and> y = f x)"
  by (cases r) auto

lemma map_ok_eq_Panic [result_iff]: "map_ok f r = Panic \<longleftrightarrow> r = Panic"
  by (cases r) auto

lemma map_ok_eq_Err [result_iff]: "map_ok f r = Err e \<longleftrightarrow> r = Err e"
  by (cases r) auto

lemma map_err_eq_Err [result_iff]: "map_err f r = Err e \<longleftrightarrow> (\<exists>e'. r = Err e' \<and> e = f e')"
  by (cases r) auto

lemma ok_or_eq_Ok [result_iff]: "ok_or e x = Ok y \<longleftrightarrow> x = Some y"
  by (cases x) auto

lemma ok_or_eq_Err [result_iff]: "ok_or e x = Err e' \<longleftrightarrow> x = None \<and> e' = e"
  by (cases x) auto

lemma ok_or_eq_Panic [result_iff]: "ok_or e x \<noteq> Panic"
  by (cases x) auto

lemma ok_eq_Ok_Some [result_iff]: "ok r = Ok (Some x) \<longleftrightarrow> r = Ok x"
  by (cases r) auto

lemma ok_eq_Ok_None [result_iff]: "ok r = Ok None \<longleftrightarrow> (\<exists>e. r = Err e)"
  by (cases r) auto

lemma ok_eq_Panic [result_iff]: "ok r = Panic \<longleftrightarrow> r = Panic"
  by (cases r) auto

lemma ok_eq_Err [result_iff]: "ok r \<noteq> Err e"
  by (cases r) auto

lemma require_eq_Ok [result_iff]: "require b e = Ok u \<longleftrightarrow> b"
  by (simp add: require_def)

lemma require_eq_Err [result_iff]: "require b e = Err e' \<longleftrightarrow> \<not> b \<and> e' = e"
  by (auto simp: require_def)

lemma require_eq_Panic [result_iff]: "require b e \<noteq> Panic"
  by (simp add: require_def)

lemma or_panic_eq_Ok [result_iff]: "or_panic x = Ok y \<longleftrightarrow> x = Some y"
  by (cases x) (auto simp: or_panic_def)

lemma or_panic_eq_Err [result_iff]: "or_panic x \<noteq> Err e"
  by (cases x) (auto simp: or_panic_def)

lemma or_panic_eq_Panic [result_iff]: "or_panic x = Panic \<longleftrightarrow> x = None"
  by (cases x) (auto simp: or_panic_def)

lemma collect_cong [fundef_cong]:
  "xs = ys \<Longrightarrow> (\<And>x. x \<in> set ys \<Longrightarrow> f x = g x) \<Longrightarrow> collect f xs = collect g ys"
  by (induction ys arbitrary: xs) auto

lemma collect_Ok_iff:
  "collect f xs = Ok ys \<longleftrightarrow> list_all2 (\<lambda>x y. f x = Ok y) xs ys"
  by (induction xs arbitrary: ys) (auto simp: result_iff list_all2_Cons1)

lemma collect_Ok_map: "(\<And>x. x \<in> set xs \<Longrightarrow> f x = Ok (g x)) \<Longrightarrow> collect f xs = Ok (map g xs)"
  by (induction xs) auto

lemma collect_first_Err:
  "x \<in> set xs \<Longrightarrow> f x = Err e \<Longrightarrow> (\<And>y. y \<in> set xs \<Longrightarrow> f y \<in> {Err e} \<union> range Ok) \<Longrightarrow>
    collect f xs = Err e"
proof (induction xs)
  case (Cons a xs)
  have "f a = Err e \<or> (\<exists>y. f a = Ok y \<and> x \<in> set xs)"
    using Cons.prems by (cases "x = a") auto
  then show ?case using Cons.IH Cons.prems by auto
qed simp

lemma and_then_assoc: "and_then (and_then r f) g = and_then r (\<lambda>x. and_then (f x) g)"
  by (cases r) auto

lemma and_then_cong [fundef_cong]:
  "r = r' \<Longrightarrow> (\<And>x. r' = Ok x \<Longrightarrow> f x = g x) \<Longrightarrow> and_then r f = and_then r' g"
  by (cases r') auto

text \<open>Evaluating a closed run: the argument first, the continuation only once its argument is known.\<close>

lemma and_then_weak_cong: "r = r' \<Longrightarrow> and_then r f = and_then r' f"
  by simp

lemma let_weak_cong': "a = b \<Longrightarrow> Let a f = Let b f"
  by simp

lemmas eval_cong = and_then_weak_cong let_weak_cong'

section \<open>Two computations that agree\<close>

text \<open>Both give related values, or both fail, whatever their errors are.\<close>

fun agree :: "('a \<Rightarrow> 'b \<Rightarrow> bool) \<Rightarrow> ('e, 'a) result \<Rightarrow> ('f, 'b) result \<Rightarrow> bool" where
  "agree R (Ok x) (Ok y) = R x y"
| "agree R (Err e) (Err e') = True"
| "agree R Panic Panic = True"
| "agree R _ _ = False"

lemma agree_and_then:
  "agree R r r' \<Longrightarrow> (\<And>x y. r = Ok x \<Longrightarrow> r' = Ok y \<Longrightarrow> R x y \<Longrightarrow> agree S (f x) (g y)) \<Longrightarrow>
    agree S (and_then r f) (and_then r' g)"
  by (cases r; cases r') auto

lemma agree_map_err [simp]: "agree R (map_err f r) r' \<longleftrightarrow> agree R r r'"
  by (cases r; cases r') auto

lemma agree_ok_or [simp]: "agree R (ok_or e x) (ok_or e' y) \<longleftrightarrow> rel_option R x y"
  by (cases x; cases y) auto

lemma agree_refl: "(\<And>x. r = Ok x \<Longrightarrow> R x x) \<Longrightarrow> agree R r r"
  by (cases r) auto

lemma agree_mono: "agree R r r' \<Longrightarrow> (\<And>x y. R x y \<Longrightarrow> S x y) \<Longrightarrow> agree S r r'"
  by (cases r; cases r') auto

lemma agree_ok: "agree (\<lambda>x y. f x = g y) r r' \<Longrightarrow> ok (map_ok f r) = ok (map_ok g r')"
  by (cases r; cases r') auto

section \<open>Checked arithmetic on words\<close>

definition checked_add :: "'a::len word \<Rightarrow> 'a word \<Rightarrow> 'a word option" where
  "checked_add a b = (if unat a + unat b < 2 ^ LENGTH('a) then Some (a + b) else None)"

definition checked_sub :: "'a::len word \<Rightarrow> 'a word \<Rightarrow> 'a word option" where
  "checked_sub a b = (if b \<le> a then Some (a - b) else None)"

definition checked_mul :: "'a::len word \<Rightarrow> 'a word \<Rightarrow> 'a word option" where
  "checked_mul a b = (if unat a * unat b < 2 ^ LENGTH('a) then Some (a * b) else None)"

definition saturating_add :: "'a::len word \<Rightarrow> 'a word \<Rightarrow> 'a word" where
  "saturating_add a b = (if unat a + unat b < 2 ^ LENGTH('a) then a + b else - 1)"

definition saturating_sub :: "'a::len word \<Rightarrow> 'a word \<Rightarrow> 'a word" where
  "saturating_sub a b = (if b \<le> a then a - b else 0)"

definition saturating_mul :: "'a::len word \<Rightarrow> 'a word \<Rightarrow> 'a word" where
  "saturating_mul a b = (if unat a * unat b < 2 ^ LENGTH('a) then a * b else - 1)"

definition add_or_panic :: "'a::len word \<Rightarrow> 'a word \<Rightarrow> ('e, 'a word) result" where
  "add_or_panic a b = or_panic (checked_add a b)"

definition sub_or_panic :: "'a::len word \<Rightarrow> 'a word \<Rightarrow> ('e, 'a word) result" where
  "sub_or_panic a b = or_panic (checked_sub a b)"

definition mul_or_panic :: "'a::len word \<Rightarrow> 'a word \<Rightarrow> ('e, 'a word) result" where
  "mul_or_panic a b = or_panic (checked_mul a b)"

definition div_or_panic :: "'a::len word \<Rightarrow> 'a word \<Rightarrow> ('e, 'a word) result" where
  "div_or_panic a b = (if b = 0 then Panic else Ok (a div b))"

definition nth_or_panic :: "'a list \<Rightarrow> nat \<Rightarrow> ('e, 'a) result" where
  "nth_or_panic xs i = (if i < length xs then Ok (xs ! i) else Panic)"

text \<open>Rust's \<open>checked_pow\<close> squares its base only while exponent bits are left, so it fails exactly
  when the power itself does not fit.\<close>

definition checked_pow :: "'a::len word \<Rightarrow> nat \<Rightarrow> 'a word option" where
  "checked_pow a n = (if unat a ^ n < 2 ^ LENGTH('a) then Some (a ^ n) else None)"

text \<open>\<open>u64::try_from\<close> and friends: a narrowing conversion that fails when the value does not fit.\<close>

definition try_narrow :: "'a::len word \<Rightarrow> 'b::len word option" where
  "try_narrow v = (if unat v < 2 ^ LENGTH('b) then Some (ucast v) else None)"

lemma unat_lt_exp [simp]: "unat (a :: 'a::len word) < 2 ^ LENGTH('a)"
  by (rule unsigned_less)

lemma unat_eq_lt_exp: "unat (a :: 'a::len word) = n \<Longrightarrow> n < 2 ^ LENGTH('a)"
  using unat_lt_exp [of a] by (simp only:)

lemma word_of_nat_unat: "of_nat (unat (w :: 'a::len word)) = w"
  by simp

lemma unat_minus_one_word: "unat (- 1 :: 'a::len word) = 2 ^ LENGTH('a) - 1"
  by (simp add: unsigned_minus_1_eq_mask mask_eq_exp_minus_1)

lemma unat_of_nat_small: "n < 2 ^ LENGTH('a) \<Longrightarrow> unat (of_nat n :: 'a::len word) = n"
  by (simp add: unsigned_of_nat take_bit_nat_eq_self)

lemma unat_add_small:
  "unat a + unat b < 2 ^ LENGTH('a) \<Longrightarrow> unat (a + b :: 'a::len word) = unat a + unat b"
  by (simp add: unat_word_ariths)

lemma unat_mult_small:
  "unat a * unat b < 2 ^ LENGTH('a) \<Longrightarrow> unat (a * b :: 'a::len word) = unat a * unat b"
  by (simp add: unat_word_ariths)

lemma unat_sub_small: "b \<le> a \<Longrightarrow> unat (a - b :: 'a::len word) = unat a - unat b"
  by (rule unat_sub)

lemma checked_add_Some [arith_iff]:
  "checked_add a (b :: 'a::len word) = Some c \<longleftrightarrow> unat c = unat a + unat b"
  by (auto simp: checked_add_def unat_add_small word_unat_eq_iff dest: unat_eq_lt_exp)

lemma checked_add_None [arith_iff]:
  "checked_add a (b :: 'a::len word) = None \<longleftrightarrow> 2 ^ LENGTH('a) \<le> unat a + unat b"
  by (auto simp: checked_add_def)

lemma checked_sub_Some [arith_iff]:
  "checked_sub a (b :: 'a::len word) = Some c \<longleftrightarrow> unat a = unat b + unat c"
  by (auto simp: checked_sub_def unat_sub_small word_le_nat_alt word_unat_eq_iff)

lemma checked_sub_None [arith_iff]:
  "checked_sub a (b :: 'a::len word) = None \<longleftrightarrow> unat a < unat b"
  by (auto simp: checked_sub_def word_le_nat_alt)

lemma checked_mul_Some [arith_iff]:
  "checked_mul a (b :: 'a::len word) = Some c \<longleftrightarrow> unat c = unat a * unat b"
  by (auto simp: checked_mul_def unat_mult_small word_unat_eq_iff dest: unat_eq_lt_exp)

lemma checked_mul_None [arith_iff]:
  "checked_mul a (b :: 'a::len word) = None \<longleftrightarrow> 2 ^ LENGTH('a) \<le> unat a * unat b"
  by (auto simp: checked_mul_def)

lemma try_narrow_Some [arith_iff]:
  "(try_narrow (v :: 'a::len word) :: 'b::len word option) = Some c \<longleftrightarrow> unat c = unat v"
proof -
  have "unat (ucast v :: 'b word) = unat v" if "unat v < 2 ^ LENGTH('b)"
    using that by (simp add: unsigned_ucast_eq take_bit_nat_eq_self)
  then show ?thesis
    by (auto simp: try_narrow_def word_unat_eq_iff dest: unat_eq_lt_exp)
qed

lemma try_narrow_None [arith_iff]:
  "(try_narrow (v :: 'a::len word) :: 'b::len word option) = None \<longleftrightarrow> 2 ^ LENGTH('b) \<le> unat v"
  by (auto simp: try_narrow_def)

lemma add_or_panic_iff [arith_iff]:
  "add_or_panic a (b :: 'a::len word) = Ok c \<longleftrightarrow> unat c = unat a + unat b"
  "add_or_panic a b = Panic \<longleftrightarrow> 2 ^ LENGTH('a) \<le> unat a + unat b"
  "add_or_panic a b \<noteq> Err e"
  by (simp_all add: add_or_panic_def result_iff arith_iff)

lemma sub_or_panic_iff [arith_iff]:
  "sub_or_panic a (b :: 'a::len word) = Ok c \<longleftrightarrow> unat a = unat b + unat c"
  "sub_or_panic a b = Panic \<longleftrightarrow> unat a < unat b"
  "sub_or_panic a b \<noteq> Err e"
  by (simp_all add: sub_or_panic_def result_iff arith_iff)

lemma mul_or_panic_iff [arith_iff]:
  "mul_or_panic a (b :: 'a::len word) = Ok c \<longleftrightarrow> unat c = unat a * unat b"
  "mul_or_panic a b = Panic \<longleftrightarrow> 2 ^ LENGTH('a) \<le> unat a * unat b"
  "mul_or_panic a b \<noteq> Err e"
  by (simp_all add: mul_or_panic_def result_iff arith_iff)

lemma div_or_panic_iff [arith_iff]:
  "div_or_panic a (b :: 'a::len word) = Ok c \<longleftrightarrow> unat b \<noteq> 0 \<and> unat c = unat a div unat b"
  "div_or_panic a b = Panic \<longleftrightarrow> unat b = 0"
  "div_or_panic a b \<noteq> Err e"
  by (auto simp: div_or_panic_def word_unat_eq_iff unat_div)

lemma nth_or_panic_iff [arith_iff]:
  "nth_or_panic xs i = Ok x \<longleftrightarrow> i < length xs \<and> x = xs ! i"
  "nth_or_panic xs i = Panic \<longleftrightarrow> length xs \<le> i"
  "nth_or_panic xs i \<noteq> Err e"
  by (auto simp: nth_or_panic_def)

text \<open>The forward direction: an operation whose exact result fits has that result.\<close>

lemma checked_add_fits:
  "unat a + unat b < 2 ^ LENGTH('a) \<Longrightarrow>
    \<exists>c. checked_add a (b :: 'a::len word) = Some c \<and> unat c = unat a + unat b"
  by (auto simp: checked_add_def unat_add_small)

lemma checked_mul_fits:
  "unat a * unat b < 2 ^ LENGTH('a) \<Longrightarrow>
    \<exists>c. checked_mul a (b :: 'a::len word) = Some c \<and> unat c = unat a * unat b"
  by (auto simp: checked_mul_def unat_mult_small)

lemma checked_sub_fits:
  "unat b \<le> unat a \<Longrightarrow>
    \<exists>c. checked_sub a (b :: 'a::len word) = Some c \<and> unat c = unat a - unat b"
  by (auto simp: checked_sub_def unat_sub_small word_le_nat_alt)

lemma div_or_panic_fits:
  "unat b \<noteq> 0 \<Longrightarrow>
    \<exists>c. div_or_panic a (b :: 'a::len word) = Ok c \<and> unat c = unat a div unat b"
  by (auto simp: div_or_panic_def unat_div)

lemma checked_pow_fits:
  "unat a ^ n < 2 ^ LENGTH('a) \<Longrightarrow>
    \<exists>c. checked_pow (a :: 'a::len word) n = Some c \<and> unat c = unat a ^ n"
  using unat_of_nat_small [of "unat a ^ n", where 'a = 'a] by (auto simp: checked_pow_def)

lemma try_narrow_fits:
  "unat v < 2 ^ LENGTH('b) \<Longrightarrow>
    \<exists>c. (try_narrow (v :: 'a::len word) :: 'b::len word option) = Some c \<and> unat c = unat v"
  by (auto simp: try_narrow_def unsigned_ucast_eq take_bit_nat_eq_self)

lemma checked_add_0: "checked_add (a :: 'a::len word) 0 = Some a"
  by (simp add: checked_add_Some)

lemma checked_add_sum: "checked_add a b = Some c \<Longrightarrow> c = a + b"
  by (simp add: checked_add_def split: if_splits)

lemma sub_or_panic_le: "b \<le> a \<Longrightarrow> sub_or_panic a b = Ok (a - b)"
  by (simp add: sub_or_panic_def or_panic_def checked_sub_def)

lemma sub_or_panic_Ok: "sub_or_panic a (b :: 'a::len word) = Ok c \<Longrightarrow> unat b \<le> unat a \<and> unat c = unat a - unat b"
  by (cases "checked_sub a b") (auto simp: sub_or_panic_def or_panic_def checked_sub_Some)

lemma add_or_panic_Ok: "add_or_panic a (b :: 'a::len word) = Ok c \<Longrightarrow> unat c = unat a + unat b"
  by (cases "checked_add a b") (auto simp: add_or_panic_def or_panic_def checked_add_Some)

lemma unat_saturating_add:
  "unat (saturating_add a (b :: 'a::len word)) = min (unat a + unat b) (2 ^ LENGTH('a) - 1)"
  by (auto simp: saturating_add_def unat_add_small unat_minus_one_word)

lemma unat_saturating_sub: "unat (saturating_sub a (b :: 'a::len word)) = unat a - unat b"
  by (auto simp: saturating_sub_def unat_sub_small word_le_nat_alt)

lemma unat_saturating_mul:
  "unat (saturating_mul a (b :: 'a::len word)) = min (unat a * unat b) (2 ^ LENGTH('a) - 1)"
  by (auto simp: saturating_mul_def unat_mult_small unat_minus_one_word)

lemma unat_ucast_up [simp]:
  assumes "LENGTH('a) \<le> LENGTH('b)"
  shows "unat (ucast (a :: 'a::len word) :: 'b::len word) = unat a"
proof -
  have "unat a < 2 ^ LENGTH('b)"
    by (rule less_le_trans [OF unat_lt_exp]) (simp add: assms)
  then show ?thesis
    by (simp add: unsigned_ucast_eq take_bit_nat_eq_self)
qed

lemma unat_min: "unat (min a b :: 'a::len word) = min (unat a) (unat b)"
  by (simp add: min_def word_le_nat_alt)

lemma unat_max: "unat (max a b :: 'a::len word) = max (unat a) (unat b)"
  by (simp add: max_def word_le_nat_alt)

text \<open>Bounds of the widths, in the form arithmetic wants them.\<close>

lemma unat_u16_bound: "unat (a :: u16) < 65536"
  using unat_lt_exp [of a] by (simp del: unat_lt_exp)

lemma unat_u32_bound: "unat (a :: u32) < 4294967296"
  using unat_lt_exp [of a] by (simp del: unat_lt_exp)

lemma unat_u8_bound: "unat (a :: u8) < 256"
  using unat_lt_exp [of a] by (simp del: unat_lt_exp)

lemma unat_u64_bound: "unat (a :: u64) < 18446744073709551616"
  using unat_lt_exp [of a] by (simp del: unat_lt_exp)

lemma unat_ucast_u128: "unat (ucast (m :: u64) :: u128) = unat m"
  by (simp add: unsigned_ucast_eq take_bit_nat_eq_self less_le_trans [OF unat_u64_bound])

lemma unat_u128_bound: "unat (a :: u128) < 340282366920938463463374607431768211456"
  using unat_lt_exp [of a] by (simp del: unat_lt_exp)

lemmas [eval_defs] =
  checked_add_def checked_sub_def checked_mul_def checked_pow_def saturating_add_def
  saturating_sub_def saturating_mul_def add_or_panic_def sub_or_panic_def mul_or_panic_def
  div_or_panic_def nth_or_panic_def or_panic_def require_def try_narrow_def Let_def

section \<open>Signed integers and sizes\<close>

definition checked_i64 :: "int \<Rightarrow> i64 option" where
  "checked_i64 n = (if - (2 ^ 63) \<le> n \<and> n < 2 ^ 63 then Some n else None)"

definition checked_i32 :: "int \<Rightarrow> i32 option" where
  "checked_i32 n = (if - (2 ^ 31) \<le> n \<and> n < 2 ^ 31 then Some n else None)"

definition saturate_i32 :: "int \<Rightarrow> i32" where
  "saturate_i32 n = max (- (2 ^ 31)) (min (2 ^ 31 - 1) n)"

definition saturate_i64 :: "int \<Rightarrow> i64" where
  "saturate_i64 n = max (- (2 ^ 63)) (min (2 ^ 63 - 1) n)"

definition checked_usize :: "nat \<Rightarrow> usize option" where
  "checked_usize n = (if n < 2 ^ 64 then Some n else None)"

definition in_i32 :: "int \<Rightarrow> bool" where
  "in_i32 n \<longleftrightarrow> - (2 ^ 31) \<le> n \<and> n < 2 ^ 31"

lemma saturate_i32_in_i32 [simp]: "in_i32 (saturate_i32 n)"
  by (auto simp: saturate_i32_def in_i32_def)

lemmas [eval_defs] =
  checked_i64_def checked_i32_def saturate_i32_def saturate_i64_def checked_usize_def

section \<open>Ceiling division on naturals\<close>

definition ceil_nat :: "nat \<Rightarrow> nat \<Rightarrow> nat" where
  "ceil_nat n d = (n + (d - 1)) div d"

lemma ceil_nat_le_iff: "0 < d \<Longrightarrow> ceil_nat n d \<le> k \<longleftrightarrow> n \<le> k * d"
proof -
  assume d: "0 < d"
  have "ceil_nat n d \<le> k \<longleftrightarrow> (n + (d - 1)) div d < Suc k"
    by (simp add: ceil_nat_def less_Suc_eq_le)
  also have "\<dots> \<longleftrightarrow> n + (d - 1) < Suc k * d"
    using d by (simp add: div_less_iff_less_mult)
  also have "\<dots> \<longleftrightarrow> n \<le> k * d"
    using d by (cases d) auto
  finally show ?thesis .
qed

lemma ceil_nat_mult_ge: "0 < d \<Longrightarrow> n \<le> ceil_nat n d * d"
  using ceil_nat_le_iff [of d n "ceil_nat n d"] by simp

lemma ceil_nat_less_iff: "0 < d \<Longrightarrow> k < ceil_nat n d \<longleftrightarrow> k * d < n"
  using ceil_nat_le_iff [of d n k] by (metis not_le)

lemma ceil_nat_mono: "m \<le> n \<Longrightarrow> ceil_nat m d \<le> ceil_nat n d"
  by (simp add: ceil_nat_def div_le_mono)

lemma ceil_nat_0 [simp]: "ceil_nat 0 d = 0"
  by (cases d) (auto simp: ceil_nat_def)

lemma ceil_nat_upper: "0 < d \<Longrightarrow> ceil_nat n d * d < n + d"
  using ceil_nat_less_iff [of d "ceil_nat n d - 1" n]
  by (cases "ceil_nat n d") auto

end
