(* ===== verification/Quote_Math.thy ===== *)
theory Quote_Math
  imports Prelude
begin

text \<open>
  \<^verbatim>\<open>quote/math.rs\<close>: the integer-only quote arithmetic of the Pump constant-product pool and of one
  run over Meteora DLMM bins.  Definitions only; their properties are in the theories
  \<open>Pump_Quote\<close> and \<open>Dlmm_Quote\<close>.
\<close>

definition FEE_PRECISION :: u128 where "FEE_PRECISION = 1000000000"
definition MAX_FEE_RATE :: u128 where "MAX_FEE_RATE = 100000000"
definition Q64 :: nat where "Q64 = 64"

datatype quote_error = InvalidInput | MathOverflow | InsufficientLiquidity

record quote_result =
  quote_amount_in :: u64
  quote_amount_out :: u64
  quote_fee :: u64

record dlmm_fee_parameters =
  fee_bin_step :: u16
  fee_base_factor :: u16
  fee_base_fee_power_factor :: u8
  fee_variable_fee_control :: u32
  fee_volatility_accumulator :: u32

record bin =
  price_q64 :: u128
  amount_x :: u64
  amount_y :: u64
  open_order_amount :: u64
  processed_order_remaining_amount :: u64
  limit_order_ask_side :: bool

definition ceil_div :: "u128 \<Rightarrow> u128 \<Rightarrow> (quote_error, u128) result" where
  "ceil_div numerator denominator =
    (if denominator = 0 then Err InvalidInput
     else and_then (sub_or_panic denominator 1) (\<lambda>addend.
          map_ok (\<lambda>value. value div denominator)
            (ok_or MathOverflow (checked_add numerator addend))))"

definition to_u64 :: "u128 \<Rightarrow> (quote_error, u64) result" where
  "to_u64 value = ok_or MathOverflow (try_narrow value)"

section \<open>The Pump constant-product pool\<close>

text \<open>
  The closure \<open>fee_for\<close> of both Pump quotes, with the amount it captures as an argument, and the
  \<open>.and_then(|value| value.checked_add(fee_for(bps).ok()?))\<close> with which they add a fee to a sum
  that may have overflowed already.
\<close>

definition fee_for :: "u128 \<Rightarrow> u16 \<Rightarrow> (quote_error, u128) result" where
  "fee_for amount bps =
    and_then (ok_or MathOverflow (checked_mul amount (ucast bps))) (\<lambda>numerator.
      ceil_div numerator 10000)"

definition add_fee_for :: "u128 \<Rightarrow> u16 \<Rightarrow> u128 option \<Rightarrow> (quote_error, u128 option) result" where
  "add_fee_for amount bps subtotal =
    (case subtotal of
      None \<Rightarrow> Ok None
    | Some value \<Rightarrow>
        map_ok (\<lambda>fee. Option.bind fee (checked_add value)) (ok (fee_for amount bps)))"

definition pump_buy_exact_quote_in ::
    "u64 \<Rightarrow> u64 \<Rightarrow> u64 \<Rightarrow> u64 \<Rightarrow> u16 \<Rightarrow> u16 \<Rightarrow> u16 \<Rightarrow> (quote_error, quote_result) result" where
  "pump_buy_exact_quote_in quote_in base_reserve quote_reserve virtual_quote_reserves
      lp_fee_bps protocol_fee_bps creator_fee_bps =
    (if quote_in = 0 \<or> base_reserve = 0 \<or> quote_reserve = 0 then Err InvalidInput
     else
      and_then (ok_or MathOverflow
          (Option.bind (checked_add (ucast lp_fee_bps) (ucast protocol_fee_bps))
            (\<lambda>value. checked_add value (ucast creator_fee_bps)))) (\<lambda>total_fee_bps.
      and_then (ok_or MathOverflow (checked_mul (ucast quote_in) 10000)) (\<lambda>scaled.
      and_then (add_or_panic 10000 total_fee_bps) (\<lambda>divisor.
      and_then (div_or_panic scaled divisor) (\<lambda>effective_quote.
      and_then (fee_for effective_quote lp_fee_bps) (\<lambda>lp_fee.
      and_then (add_fee_for effective_quote protocol_fee_bps
          (checked_add effective_quote lp_fee)) (\<lambda>with_protocol.
      and_then (add_fee_for effective_quote creator_fee_bps with_protocol) (\<lambda>with_creator.
      and_then (ok_or MathOverflow with_creator) (\<lambda>total_with_fees.
      and_then
        (if ucast quote_in < total_with_fees
         then and_then (sub_or_panic total_with_fees (ucast quote_in)) (\<lambda>excess.
                ok_or MathOverflow (checked_sub effective_quote excess))
         else Ok effective_quote) (\<lambda>effective_quote.
      and_then (ok_or InvalidInput (checked_sub effective_quote 1)) (\<lambda>curve_input.
      and_then (ok_or MathOverflow
          (checked_add (ucast quote_reserve) (ucast virtual_quote_reserves)))
        (\<lambda>effective_quote_reserve.
      and_then (ok_or MathOverflow (checked_mul (ucast base_reserve) curve_input)) (\<lambda>product.
      and_then (ok_or MathOverflow (checked_add effective_quote_reserve curve_input)) (\<lambda>reserve.
      and_then (div_or_panic product reserve) (\<lambda>amount_out.
      and_then (to_u64 amount_out) (\<lambda>amount_out.
      and_then (sub_or_panic (ucast quote_in) effective_quote) (\<lambda>fee.
      and_then (to_u64 fee) (\<lambda>fee.
      Ok \<lparr>quote_amount_in = quote_in, quote_amount_out = amount_out, quote_fee = fee\<rparr>
      ))))))))))))))))))"

definition pump_sell_base_in ::
    "u64 \<Rightarrow> u64 \<Rightarrow> u64 \<Rightarrow> u64 \<Rightarrow> u16 \<Rightarrow> u16 \<Rightarrow> u16 \<Rightarrow> (quote_error, quote_result) result" where
  "pump_sell_base_in base_in base_reserve quote_reserve virtual_quote_reserves
      lp_fee_bps protocol_fee_bps creator_fee_bps =
    (if base_in = 0 \<or> base_reserve = 0 \<or> quote_reserve = 0 then Err InvalidInput
     else
      and_then (ok_or MathOverflow
          (checked_add (ucast quote_reserve) (ucast virtual_quote_reserves)))
        (\<lambda>effective_quote_reserve.
      and_then (ok_or MathOverflow (checked_mul effective_quote_reserve (ucast base_in)))
        (\<lambda>product.
      and_then (ok_or MathOverflow (checked_add (ucast base_reserve) (ucast base_in)))
        (\<lambda>reserve.
      and_then (div_or_panic product reserve) (\<lambda>raw_quote.
      and_then (fee_for raw_quote lp_fee_bps) (\<lambda>lp_fee.
      and_then (fee_for raw_quote protocol_fee_bps) (\<lambda>protocol_fee.
      and_then (add_fee_for raw_quote creator_fee_bps (checked_add lp_fee protocol_fee))
        (\<lambda>with_creator.
      and_then (ok_or MathOverflow with_creator) (\<lambda>fee.
      and_then (ok_or MathOverflow (checked_sub raw_quote fee)) (\<lambda>amount_out.
      and_then (ok_or MathOverflow (checked_sub raw_quote lp_fee)) (\<lambda>vault_outflow.
      if ucast quote_reserve < vault_outflow then Err InsufficientLiquidity
      else
      and_then (to_u64 amount_out) (\<lambda>amount_out.
      and_then (to_u64 fee) (\<lambda>fee.
      Ok \<lparr>quote_amount_in = base_in, quote_amount_out = amount_out, quote_fee = fee\<rparr>
      )))))))))))))"

section \<open>DLMM fees and prices\<close>

definition dlmm_total_fee_rate :: "dlmm_fee_parameters \<Rightarrow> (quote_error, u128) result" where
  "dlmm_total_fee_rate parameters =
    and_then (ok_or MathOverflow
        (checked_pow 10 (unat (fee_base_fee_power_factor parameters)))) (\<lambda>power.
    and_then (ok_or MathOverflow
        (Option.bind (Option.bind
          (checked_mul (ucast (fee_base_factor parameters)) (ucast (fee_bin_step parameters)))
          (\<lambda>value. checked_mul value 10))
          (\<lambda>value. checked_mul value power))) (\<lambda>base_fee.
    and_then
      (if fee_variable_fee_control parameters = 0 then Ok 0
       else
         and_then (ok_or MathOverflow
             (checked_mul (ucast (fee_volatility_accumulator parameters))
               (ucast (fee_bin_step parameters)))) (\<lambda>volatility_bin.
         and_then (ok_or MathOverflow (checked_mul volatility_bin volatility_bin)) (\<lambda>square.
         map_ok (\<lambda>value. value div 100000000000)
           (ok_or MathOverflow
             (Option.bind (checked_mul (ucast (fee_variable_fee_control parameters)) square)
               (\<lambda>value. checked_add value 99999999999)))))) (\<lambda>variable_fee.
    map_ok (\<lambda>total. min total MAX_FEE_RATE)
      (ok_or MathOverflow (checked_add base_fee variable_fee)))))"

definition excluded_fee_amount :: "u64 \<Rightarrow> u128 \<Rightarrow> (quote_error, u64 \<times> u64) result" where
  "excluded_fee_amount amount fee_rate =
    and_then (ok_or MathOverflow (checked_mul (ucast amount) fee_rate)) (\<lambda>numerator.
    and_then (ceil_div numerator FEE_PRECISION) (\<lambda>fee.
    and_then (ok_or MathOverflow (checked_sub (ucast amount) fee)) (\<lambda>net.
    and_then (to_u64 net) (\<lambda>net.
    and_then (to_u64 fee) (\<lambda>fee.
    Ok (net, fee))))))"

definition included_fee_amount :: "u64 \<Rightarrow> u128 \<Rightarrow> (quote_error, u64 \<times> u64) result" where
  "included_fee_amount amount fee_rate =
    and_then (ok_or InvalidInput (checked_sub FEE_PRECISION fee_rate)) (\<lambda>denominator.
    and_then (ok_or MathOverflow (checked_mul (ucast amount) FEE_PRECISION)) (\<lambda>numerator.
    and_then (ceil_div numerator denominator) (\<lambda>included.
    and_then (to_u64 included) (\<lambda>gross.
    and_then (sub_or_panic included (ucast amount)) (\<lambda>fee.
    and_then (to_u64 fee) (\<lambda>fee.
    Ok (gross, fee)))))))"

definition amount_in_for_out :: "u64 \<Rightarrow> u128 \<Rightarrow> bool \<Rightarrow> (quote_error, u64) result" where
  "amount_in_for_out amount_out price swap_for_y =
    (if price = 0 then Err InvalidInput
     else
      and_then
        (if swap_for_y then ceil_div (push_bit Q64 (ucast amount_out)) price
         else and_then (ok_or MathOverflow (checked_mul (ucast amount_out) price)) (\<lambda>product.
                ceil_div product (push_bit Q64 1)))
        to_u64)"

definition amount_out_for_in :: "u64 \<Rightarrow> u128 \<Rightarrow> bool \<Rightarrow> (quote_error, u64) result" where
  "amount_out_for_in amount_in price swap_for_y =
    (if price = 0 then Err InvalidInput
     else
      and_then
        (if swap_for_y
         then map_ok (drop_bit Q64) (ok_or MathOverflow (checked_mul (ucast amount_in) price))
         else div_or_panic (push_bit Q64 (ucast amount_in)) price)
        to_u64)"

section \<open>Quoting a run of DLMM bins\<close>

text \<open>The mutable locals of \<open>dlmm_quote_exact_in_impl\<close>.\<close>

record fill =
  fill_remaining :: u64
  fill_total_in :: u64
  fill_total_out :: u64
  fill_total_fee :: u64

text \<open>Everything of one bin that can be bought: the pool's own liquidity and the limit orders
  of the side that is sold.\<close>

definition bin_max_out :: "bin \<Rightarrow> bool \<Rightarrow> (quote_error, u64) result" where
  "bin_max_out b swap_for_y =
    (let mm_out = (if swap_for_y then amount_y b else amount_x b) in
     and_then
       (if (swap_for_y \<and> \<not> limit_order_ask_side b) \<or> (\<not> swap_for_y \<and> limit_order_ask_side b)
        then ok_or MathOverflow
          (checked_add (open_order_amount b) (processed_order_remaining_amount b))
        else Ok 0) (\<lambda>limit_order_out.
     ok_or MathOverflow (checked_add mm_out limit_order_out)))"

text \<open>The body of the loop: what one bin takes out of \<open>remaining\<close>.\<close>

definition fill_bin :: "bool \<Rightarrow> bool \<Rightarrow> u128 \<Rightarrow> fill \<Rightarrow> bin \<Rightarrow> (quote_error, fill) result" where
  "fill_bin swap_for_y fee_on_input fee_rate s b =
    and_then
      (if fee_on_input then excluded_fee_amount (fill_remaining s) fee_rate
       else Ok (fill_remaining s, 0)) (\<lambda>(available, fee_for_full_input).
    and_then (bin_max_out b swap_for_y) (\<lambda>max_out.
    if max_out = 0 then Ok s
    else
    and_then (amount_in_for_out max_out (price_q64 b) swap_for_y) (\<lambda>max_input_without_fee.
    let used_without_fee = min available max_input_without_fee in
    and_then
      (if used_without_fee = max_input_without_fee then Ok max_out
       else amount_out_for_in used_without_fee (price_q64 b) swap_for_y) (\<lambda>raw_out.
    and_then
      (if fee_on_input then
         if used_without_fee = available then Ok (fill_remaining s, fee_for_full_input, raw_out)
         else and_then (included_fee_amount used_without_fee fee_rate) (\<lambda>(included, partial_fee).
                Ok (included, partial_fee, raw_out))
       else and_then (excluded_fee_amount raw_out fee_rate) (\<lambda>(output_amount, output_fee).
              Ok (used_without_fee, output_fee, output_amount)))
      (\<lambda>(used_with_fee, fee, output_amount).
    and_then (ok_or MathOverflow (checked_sub (fill_remaining s) used_with_fee)) (\<lambda>remaining.
    and_then (ok_or MathOverflow (checked_add (fill_total_in s) used_with_fee)) (\<lambda>total_in.
    and_then (ok_or MathOverflow (checked_add (fill_total_out s) output_amount)) (\<lambda>total_out.
    and_then (ok_or MathOverflow (checked_add (fill_total_fee s) fee)) (\<lambda>total_fee.
    Ok \<lparr>fill_remaining = remaining, fill_total_in = total_in, fill_total_out = total_out,
        fill_total_fee = total_fee\<rparr>)))))))))"

fun fill_bins :: "bool \<Rightarrow> bool \<Rightarrow> u128 \<Rightarrow> fill \<Rightarrow> bin list \<Rightarrow> (quote_error, fill) result" where
  "fill_bins swap_for_y fee_on_input fee_rate s [] = Ok s"
| "fill_bins swap_for_y fee_on_input fee_rate s (b # bs) =
    (if fill_remaining s = 0 then Ok s
     else and_then (fill_bin swap_for_y fee_on_input fee_rate s b) (\<lambda>s'.
            fill_bins swap_for_y fee_on_input fee_rate s' bs))"

definition dlmm_quote_exact_in_impl ::
    "u64 \<Rightarrow> bin list \<Rightarrow> bool \<Rightarrow> bool \<Rightarrow> dlmm_fee_parameters \<Rightarrow> bool
      \<Rightarrow> (quote_error, quote_result) result" where
  "dlmm_quote_exact_in_impl amount_in bins swap_for_y fee_on_input parameters require_full_fill =
    (if amount_in = 0 \<or> bins = [] then Err InvalidInput
     else
      and_then (dlmm_total_fee_rate parameters) (\<lambda>fee_rate.
      and_then (fill_bins swap_for_y fee_on_input fee_rate
          \<lparr>fill_remaining = amount_in, fill_total_in = 0, fill_total_out = 0, fill_total_fee = 0\<rparr>
          bins) (\<lambda>s.
      if require_full_fill \<and> fill_remaining s \<noteq> 0 then Err InsufficientLiquidity
      else Ok \<lparr>quote_amount_in = fill_total_in s, quote_amount_out = fill_total_out s,
               quote_fee = fill_total_fee s\<rparr>)))"

definition dlmm_quote_exact_in ::
    "u64 \<Rightarrow> bin list \<Rightarrow> bool \<Rightarrow> bool \<Rightarrow> dlmm_fee_parameters \<Rightarrow> (quote_error, quote_result) result" where
  "dlmm_quote_exact_in amount_in bins swap_for_y fee_on_input parameters =
    dlmm_quote_exact_in_impl amount_in bins swap_for_y fee_on_input parameters True"

definition dlmm_quote_exact_in_partial ::
    "u64 \<Rightarrow> bin list \<Rightarrow> bool \<Rightarrow> bool \<Rightarrow> dlmm_fee_parameters \<Rightarrow> (quote_error, quote_result) result" where
  "dlmm_quote_exact_in_partial amount_in bins swap_for_y fee_on_input parameters =
    dlmm_quote_exact_in_impl amount_in bins swap_for_y fee_on_input parameters False"

definition dlmm_bin_quote_capacity ::
    "bin \<Rightarrow> bool \<Rightarrow> bool \<Rightarrow> dlmm_fee_parameters \<Rightarrow> (quote_error, quote_result) result" where
  "dlmm_bin_quote_capacity b swap_for_y fee_on_input parameters =
    and_then (dlmm_quote_exact_in_partial (- 1) [b] swap_for_y fee_on_input parameters) (\<lambda>quote.
      if quote_amount_in quote = 0 \<or> quote_amount_out quote = 0 then Err InsufficientLiquidity
      else Ok quote)"

definition dlmm_bin_output_within_capacity ::
    "u64 \<Rightarrow> u64 \<Rightarrow> u64 \<Rightarrow> u128 \<Rightarrow> bool \<Rightarrow> bool \<Rightarrow> u128 \<Rightarrow> (quote_error, u64) result" where
  "dlmm_bin_output_within_capacity amount_in capacity_in capacity_out price swap_for_y
      fee_on_input fee_rate =
    (if amount_in = 0 \<or> capacity_in < amount_in \<or> capacity_in = 0 \<or> capacity_out = 0
     then Err InvalidInput
     else if amount_in = capacity_in then Ok capacity_out
     else if fee_on_input then
       and_then (excluded_fee_amount amount_in fee_rate) (\<lambda>(net_input, _).
         amount_out_for_in net_input price swap_for_y)
     else
       and_then (amount_out_for_in amount_in price swap_for_y) (\<lambda>raw_output.
         map_ok fst (excluded_fee_amount raw_output fee_rate)))"

lemmas [eval_defs] =
  FEE_PRECISION_def MAX_FEE_RATE_def Q64_def ceil_div_def to_u64_def fee_for_def add_fee_for_def
  pump_buy_exact_quote_in_def pump_sell_base_in_def dlmm_total_fee_rate_def
  excluded_fee_amount_def included_fee_amount_def amount_in_for_out_def amount_out_for_in_def
  bin_max_out_def fill_bin_def dlmm_quote_exact_in_impl_def dlmm_quote_exact_in_def
  dlmm_quote_exact_in_partial_def dlmm_bin_quote_capacity_def dlmm_bin_output_within_capacity_def

section \<open>The helpers over natural numbers\<close>

lemma ceil_div_eq:
  "ceil_div n d =
    (if unat d = 0 then Err InvalidInput
     else if unat n + (unat d - 1) < 2 ^ 128
       then Ok (of_nat (ceil_nat (unat n) (unat d)))
       else Err MathOverflow)"
proof (cases "unat d = 0")
  case True
  then show ?thesis by (simp add: ceil_div_def unat_eq_zero)
next
  case False
  then have d: "d \<noteq> 0" "unat (1 :: u128) \<le> unat d" by auto
  from checked_sub_fits [OF d(2)] obtain m where
    m: "checked_sub d 1 = Some m" "unat m = unat d - 1" by auto
  show ?thesis
  proof (cases "unat n + unat m < 2 ^ LENGTH(128)")
    case True
    from checked_add_fits [OF this] obtain s where
      s: "checked_add n m = Some s" "unat s = unat n + unat m" by auto
    have "s div d = of_nat (ceil_nat (unat n) (unat d))"
      by (simp add: word_arith_nat_div s m ceil_nat_def)
    with True s m d show ?thesis
      by (simp add: ceil_div_def sub_or_panic_def or_panic_def)
  next
    case overflow: False
    then have "checked_add n m = None" by (simp add: arith_iff)
    with overflow m d show ?thesis
      by (simp add: ceil_div_def sub_or_panic_def or_panic_def)
  qed
qed

lemma ceil_div_fits:
  "unat d \<noteq> 0 \<Longrightarrow> unat n + (unat d - 1) < 2 ^ 128 \<Longrightarrow>
    \<exists>v. ceil_div n d = Ok v \<and> unat v = ceil_nat (unat n) (unat d)"
  by (auto simp: ceil_div_eq ceil_nat_def intro!: unat_of_nat_small le_less_trans [OF div_le_dividend])

lemma ceil_div_Ok [arith_iff]:
  "ceil_div n d = Ok v \<longleftrightarrow>
    unat d \<noteq> 0 \<and> unat n + (unat d - 1) < 2 ^ 128 \<and> unat v = ceil_nat (unat n) (unat d)"
  using ceil_div_fits [of d n] by (auto simp: ceil_div_eq word_unat_eq_iff split: if_splits)

lemma ceil_div_no_panic [arith_iff]: "ceil_div n d \<noteq> Panic"
  by (simp add: ceil_div_eq)

lemma ceil_div_Err [arith_iff]:
  "ceil_div n d = Err e \<longleftrightarrow>
    (if unat d = 0 then e = InvalidInput
     else 2 ^ 128 \<le> unat n + (unat d - 1) \<and> e = MathOverflow)"
  by (auto simp: ceil_div_eq)

lemma to_u64_iff [arith_iff]:
  "to_u64 v = Ok w \<longleftrightarrow> unat w = unat v"
  "to_u64 v = Err e \<longleftrightarrow> 2 ^ 64 \<le> unat v \<and> e = MathOverflow"
  "to_u64 v \<noteq> Panic"
  by (auto simp: to_u64_def result_iff arith_iff)

lemma to_u64_fits: "unat v < 2 ^ 64 \<Longrightarrow> \<exists>w. to_u64 v = Ok w \<and> unat w = unat v"
  using try_narrow_fits [where 'b = 64, of v] by (auto simp: to_u64_def)

end
