(* ===== verification/Byte_Codec.thy ===== *)
theory Byte_Codec
  imports Quote_Math
begin

text \<open>
  The byte readers of \<^verbatim>\<open>quote/accounts.rs\<close>: \<open>bytes\<close> and the little-endian \<open>read_*\<close> functions, and
  the encoders of Rust's \<open>to_le_bytes\<close>.  Every width is an instance of one locale, in which the
  field lemmas (reading back what was written into a buffer, failing exactly on a short buffer)
  are proved once.
\<close>

section \<open>Little-endian numbers\<close>

fun le_nat :: "u8 list \<Rightarrow> nat" where
  "le_nat [] = 0"
| "le_nat (b # bs) = unat b + 256 * le_nat bs"

fun le_bytes :: "nat \<Rightarrow> nat \<Rightarrow> u8 list" where
  "le_bytes 0 v = []"
| "le_bytes (Suc n) v = of_nat (v mod 256) # le_bytes n (v div 256)"

lemma length_le_bytes [simp]: "length (le_bytes n v) = n"
  by (induction n arbitrary: v) auto

lemma le_nat_less: "le_nat bs < 256 ^ length bs"
proof (induction bs)
  case (Cons b bs)
  then show ?case using unat_u8_bound [of b] by simp
qed simp

lemma le_nat_le_bytes: "le_nat (le_bytes n v) = v mod 256 ^ n"
proof (induction n arbitrary: v)
  case (Suc n)
  have "unat (of_nat (v mod 256) :: u8) = v mod 256"
    by (rule unat_of_nat_small) simp
  then show ?case
    using mod_mult2_eq [of v 256 "256 ^ n"] by (simp add: Suc.IH)
qed simp

lemma le_bytes_le_nat: "le_bytes (length bs) (le_nat bs) = bs"
proof (induction bs)
  case (Cons b bs)
  have "(unat b + 256 * le_nat bs) mod 256 = unat b" "(unat b + 256 * le_nat bs) div 256 = le_nat bs"
    using unat_u8_bound [of b] by simp_all
  with Cons show ?case by simp
qed simp

lemma bit_le_nat:
  "k < 8 * length bs \<Longrightarrow> bit (le_nat bs) k \<longleftrightarrow> bit (bs ! (k div 8)) (k mod 8)"
proof (induction bs arbitrary: k)
  case (Cons b bs)
  let ?x = "le_nat (b # bs)"
  have low: "take_bit 8 ?x = unat b" and high: "drop_bit 8 ?x = le_nat bs"
    using unat_u8_bound [of b] by (simp_all add: take_bit_eq_mod drop_bit_eq_div)
  show ?case
  proof (cases "k < 8")
    case True
    then have "bit ?x k \<longleftrightarrow> bit (take_bit 8 ?x) k" by (simp add: bit_take_bit_iff)
    then show ?thesis using True by (simp add: low bit_unsigned_iff del: le_nat.simps)
  next
    case False
    then have "bit ?x k \<longleftrightarrow> bit (drop_bit 8 ?x) (k - 8)" by (simp add: bit_drop_bit_eq)
    also have "\<dots> \<longleftrightarrow> bit (bs ! ((k - 8) div 8)) ((k - 8) mod 8)"
      unfolding high using False Cons.prems by (intro Cons.IH) simp
    also have "\<dots> \<longleftrightarrow> bit ((b # bs) ! (k div 8)) (k mod 8)"
      using False by (simp add: le_div_geq le_mod_geq)
    finally show ?thesis .
  qed
qed simp

section \<open>Slices of a buffer\<close>

text \<open>\<open>data.get(offset..offset + N)\<close>; the offsets of the code are far below \<open>2 ^ 64\<close>.\<close>

definition bytes :: "nat \<Rightarrow> u8 list \<Rightarrow> usize \<Rightarrow> (quote_error, u8 list) result" where
  "bytes n data offset =
    (if offset + n \<le> length data then Ok (take n (drop offset data)) else Err InvalidInput)"

definition get_byte :: "u8 list \<Rightarrow> usize \<Rightarrow> (quote_error, u8) result" where
  "get_byte data offset =
    ok_or InvalidInput (if offset < length data then Some (data ! offset) else None)"

lemma bytes_Ok [result_iff]:
  "bytes n data offset = Ok bs \<longleftrightarrow> offset + n \<le> length data \<and> bs = take n (drop offset data)"
  by (auto simp: bytes_def)

lemma bytes_Err [result_iff]:
  "bytes n data offset = Err e \<longleftrightarrow> length data < offset + n \<and> e = InvalidInput"
  by (auto simp: bytes_def)

lemma bytes_no_panic [result_iff]: "bytes n data offset \<noteq> Panic"
  by (simp add: bytes_def)

lemma length_bytes: "bytes n data offset = Ok bs \<Longrightarrow> length bs = n"
  by (auto simp: result_iff)

section \<open>Fields of fixed width\<close>

text \<open>A field type: its width, Rust's \<open>from_le_bytes\<close> and \<open>to_le_bytes\<close>.\<close>

locale le_field =
  fixes width :: nat and decode :: "u8 list \<Rightarrow> 'a" and encode :: "'a \<Rightarrow> u8 list"
    and valid :: "'a \<Rightarrow> bool"
  assumes length_encode [simp]: "length (encode v) = width"
    and decode_encode: "valid v \<Longrightarrow> decode (encode v) = v"
    and encode_decode: "length bs = width \<Longrightarrow> encode (decode bs) = bs"
    and valid_decode: "length bs = width \<Longrightarrow> valid (decode bs)"
begin

lemma read_written:
  assumes "valid v" "offset = length pre"
  shows "map_ok decode (bytes width (pre @ encode v @ post) offset) = Ok v"
  using assms by (simp add: bytes_def decode_encode)

lemma read_Ok_iff:
  "map_ok decode (bytes width data offset) = Ok v \<longleftrightarrow>
    valid v \<and> offset + width \<le> length data \<and> take width (drop offset data) = encode v"
  using encode_decode [of "take width (drop offset data)"]
    valid_decode [of "take width (drop offset data)"] decode_encode [of v]
  by (auto simp: bytes_def)

lemma read_Err_iff:
  "map_ok decode (bytes width data offset) = Err e \<longleftrightarrow>
    length data < offset + width \<and> e = InvalidInput"
  by (auto simp: bytes_def)

lemma encode_inj: "valid v \<Longrightarrow> valid w \<Longrightarrow> encode v = encode w \<Longrightarrow> v = w"
  by (metis decode_encode)

end

definition word_from_le :: "u8 list \<Rightarrow> 'a::len word" where
  "word_from_le bs = of_nat (le_nat bs)"

definition word_to_le :: "'a::len word \<Rightarrow> u8 list" where
  "word_to_le v = le_bytes (LENGTH('a) div 8) (unat v)"

definition int_from_le :: "nat \<Rightarrow> u8 list \<Rightarrow> int" where
  "int_from_le n bs = signed_take_bit (8 * n - 1) (int (le_nat bs))"

definition int_to_le :: "nat \<Rightarrow> int \<Rightarrow> u8 list" where
  "int_to_le n v = le_bytes n (nat (take_bit (8 * n) v))"

lemma length_word_to_le: "length (word_to_le (v :: 'a::len word)) = LENGTH('a) div 8"
  by (simp add: word_to_le_def)

lemma length_int_to_le: "length (int_to_le n v) = n"
  by (simp add: int_to_le_def)

lemma pow_256: "(256 :: nat) ^ n = 2 ^ (8 * n)"
  by (simp add: power_mult)

lemma unat_word_from_le:
  "8 * length bs = LENGTH('a) \<Longrightarrow> unat (word_from_le bs :: 'a::len word) = le_nat bs"
  using le_nat_less [of bs]
  by (simp add: word_from_le_def unat_of_nat_small pow_256)

lemma word_decode_encode:
  assumes "8 * n = LENGTH('a)"
  shows "word_from_le (word_to_le v) = (v :: 'a::len word)"
proof -
  have "unat v < 256 ^ n"
    unfolding pow_256 assms by (rule unat_lt_exp)
  then show ?thesis
    using assms by (simp add: word_from_le_def word_to_le_def le_nat_le_bytes flip: assms)
qed

lemma word_encode_decode:
  assumes "length bs = LENGTH('a) div 8" "8 dvd LENGTH('a)"
  shows "word_to_le (word_from_le bs :: 'a::len word) = bs"
  using assms le_bytes_le_nat [of bs] by (simp add: word_to_le_def unat_word_from_le)

lemma int_decode_encode:
  assumes "0 < n" "- (2 ^ (8 * n - 1)) \<le> v" "v < 2 ^ (8 * n - 1)"
  shows "int_from_le n (int_to_le n v) = v"
proof -
  have "nat (take_bit (8 * n) v) mod 256 ^ n = nat (take_bit (8 * n) v)"
    by (simp add: pow_256 nat_less_iff)
  then have "int (le_nat (int_to_le n v)) = take_bit (8 * n) v"
    by (simp add: int_to_le_def le_nat_le_bytes)
  moreover have "\<not> 8 * n \<le> 8 * n - 1" using assms(1) by simp
  ultimately show ?thesis
    using assms(2,3)
    by (simp add: int_from_le_def signed_take_bit_take_bit signed_take_bit_int_eq_self)
qed

lemma int_encode_decode:
  assumes "length bs = n" "0 < n"
  shows "int_to_le n (int_from_le n bs) = bs"
proof -
  have "take_bit (8 * n) (int (le_nat bs)) = int (le_nat bs)"
    using le_nat_less [of bs] assms(1) by (simp add: pow_256 take_bit_int_eq_self)
  then have "nat (take_bit (8 * n) (int_from_le n bs)) = le_nat bs"
    using assms(2) by (simp add: int_from_le_def take_bit_signed_take_bit)
  then show ?thesis using le_bytes_le_nat [of bs] assms(1) by (simp add: int_to_le_def)
qed

lemma int_from_le_range:
  assumes "0 < n"
  shows "- (2 ^ (8 * n - 1)) \<le> int_from_le n bs" "int_from_le n bs < 2 ^ (8 * n - 1)"
  unfolding int_from_le_def
  by (rule signed_take_bit_int_greater_eq_minus_exp signed_take_bit_int_less_exp)+

section \<open>The readers\<close>

definition read_u16 :: "u8 list \<Rightarrow> usize \<Rightarrow> (quote_error, u16) result" where
  "read_u16 data offset = map_ok word_from_le (bytes 2 data offset)"

definition read_u32 :: "u8 list \<Rightarrow> usize \<Rightarrow> (quote_error, u32) result" where
  "read_u32 data offset = map_ok word_from_le (bytes 4 data offset)"

definition read_i32 :: "u8 list \<Rightarrow> usize \<Rightarrow> (quote_error, i32) result" where
  "read_i32 data offset = map_ok (int_from_le 4) (bytes 4 data offset)"

definition read_u64 :: "u8 list \<Rightarrow> usize \<Rightarrow> (quote_error, u64) result" where
  "read_u64 data offset = map_ok word_from_le (bytes 8 data offset)"

definition read_i64 :: "u8 list \<Rightarrow> usize \<Rightarrow> (quote_error, i64) result" where
  "read_i64 data offset = map_ok (int_from_le 8) (bytes 8 data offset)"

definition read_u128 :: "u8 list \<Rightarrow> usize \<Rightarrow> (quote_error, u128) result" where
  "read_u128 data offset = map_ok word_from_le (bytes 16 data offset)"

lemmas [eval_defs] =
  bytes_def get_byte_def word_from_le_def int_from_le_def read_u16_def read_u32_def read_i32_def
  read_u64_def read_i64_def read_u128_def

interpretation u16_field: le_field 2 "word_from_le :: u8 list \<Rightarrow> u16" word_to_le "\<lambda>_. True"
  by unfold_locales (simp_all add: length_word_to_le word_decode_encode [where n = 2]
      word_encode_decode)

interpretation u32_field: le_field 4 "word_from_le :: u8 list \<Rightarrow> u32" word_to_le "\<lambda>_. True"
  by unfold_locales (simp_all add: length_word_to_le word_decode_encode [where n = 4]
      word_encode_decode)

interpretation u64_field: le_field 8 "word_from_le :: u8 list \<Rightarrow> u64" word_to_le "\<lambda>_. True"
  by unfold_locales (simp_all add: length_word_to_le word_decode_encode [where n = 8]
      word_encode_decode)

interpretation u128_field: le_field 16 "word_from_le :: u8 list \<Rightarrow> u128" word_to_le "\<lambda>_. True"
  by unfold_locales (simp_all add: length_word_to_le word_decode_encode [where n = 16]
      word_encode_decode)

interpretation i32_field: le_field 4 "int_from_le 4" "int_to_le 4"
    "\<lambda>v. - (2 ^ 31) \<le> v \<and> v < 2 ^ 31"
  using int_from_le_range [of 4]
  by unfold_locales (auto simp: length_int_to_le int_decode_encode int_encode_decode)

interpretation i64_field: le_field 8 "int_from_le 8" "int_to_le 8"
    "\<lambda>v. - (2 ^ 63) \<le> v \<and> v < 2 ^ 63"
  using int_from_le_range [of 8]
  by unfold_locales (auto simp: length_int_to_le int_decode_encode int_encode_decode)

interpretation i128_field: le_field 16 "int_from_le 16" "int_to_le 16"
    "\<lambda>v. - (2 ^ 127) \<le> v \<and> v < 2 ^ 127"
  using int_from_le_range [of 16]
  by unfold_locales (auto simp: length_int_to_le int_decode_encode int_encode_decode)

end
