(* ===== verification/Pump_Accounts.thy ===== *)
theory Pump_Accounts
  imports Byte_Codec
begin

text \<open>
  The Pump side of \<^verbatim>\<open>quote/accounts.rs\<close>: pool state, global fees, the tiered fee configuration
  and the two functions that choose the fees of a pool from it, one over the parsed
  configuration and one over the raw account bytes.
\<close>

section \<open>Data\<close>

type_synonym pubkey = "u8 list"

record pump_pool_state =
  pool_creator :: pubkey
  pool_base_mint :: pubkey
  pool_coin_creator :: pubkey
  pool_virtual_quote_reserves :: u64

record pump_fees =
  lp_fee_bps :: u16
  protocol_fee_bps :: u16
  creator_fee_bps :: u16

record pump_fee_tier =
  market_cap_threshold :: u128
  tier_fees :: pump_fees

record pump_fee_config =
  flat_fees :: pump_fees
  fee_tiers :: "pump_fee_tier list"

definition DISCRIMINATOR_LEN :: usize where "DISCRIMINATOR_LEN = 8"

section \<open>Parsing\<close>

definition i128_to_u64 :: "i128 \<Rightarrow> u64 option" where
  "i128_to_u64 v = (if 0 \<le> v \<and> v < 2 ^ 64 then Some (of_int v) else None)"

definition read_bps :: "u8 list \<Rightarrow> usize \<Rightarrow> (quote_error, u16) result" where
  "read_bps data offset =
    and_then (read_u64 data offset) (\<lambda>v. ok_or InvalidInput (try_narrow v))"

definition parse_fees :: "u8 list \<Rightarrow> usize \<Rightarrow> (quote_error, pump_fees) result" where
  "parse_fees data offset =
    and_then (read_bps data offset) (\<lambda>lp.
    and_then (read_bps data (offset + 8)) (\<lambda>protocol.
    and_then (read_bps data (offset + 16)) (\<lambda>creator.
      Ok \<lparr>lp_fee_bps = lp, protocol_fee_bps = protocol, creator_fee_bps = creator\<rparr>)))"

definition parse_pump_pool :: "u8 list \<Rightarrow> (quote_error, pump_pool_state) result" where
  "parse_pump_pool data =
    and_then (map_ok (int_from_le 16) (bytes 16 data 245)) (\<lambda>virtual_reserves.
    and_then (bytes 32 data 11) (\<lambda>creator.
    and_then (bytes 32 data 43) (\<lambda>base_mint.
    and_then (bytes 32 data 211) (\<lambda>coin_creator.
    and_then (ok_or InvalidInput (i128_to_u64 virtual_reserves)) (\<lambda>virtual_quote_reserves.
      Ok \<lparr>pool_creator = creator, pool_base_mint = base_mint, pool_coin_creator = coin_creator,
         pool_virtual_quote_reserves = virtual_quote_reserves\<rparr>)))))"

definition parse_pump_global_fees :: "u8 list \<Rightarrow> (quote_error, pump_fees) result" where
  "parse_pump_global_fees data =
    and_then (read_bps data 40) (\<lambda>lp.
    and_then (read_bps data 48) (\<lambda>protocol.
    and_then (read_bps data 313) (\<lambda>creator.
      Ok \<lparr>lp_fee_bps = lp, protocol_fee_bps = protocol, creator_fee_bps = creator\<rparr>)))"

fun parse_tiers :: "nat \<Rightarrow> u8 list \<Rightarrow> usize \<Rightarrow> (quote_error, pump_fee_tier list) result" where
  "parse_tiers 0 data offset = Ok []"
| "parse_tiers (Suc n) data offset =
    and_then (read_u128 data offset) (\<lambda>threshold.
    and_then (parse_fees data (offset + 16)) (\<lambda>fees.
    and_then (ok_or MathOverflow (checked_usize (offset + 40))) (\<lambda>offset.
    map_ok ((#) \<lparr>market_cap_threshold = threshold, tier_fees = fees\<rparr>)
      (parse_tiers n data offset))))"

definition parse_pump_fee_config :: "u8 list \<Rightarrow> (quote_error, pump_fee_config) result" where
  "parse_pump_fee_config data =
    (let flat_offset = DISCRIMINATOR_LEN + 1 + 32 in
     and_then (read_u32 data (flat_offset + 24)) (\<lambda>count.
     let tier_count = unat count;
         tiers_offset = flat_offset + 28;
         available_tiers = (length data - tiers_offset) div 40 in
     if tier_count = 0 \<or> available_tiers < tier_count \<or> 64 < tier_count then Err InvalidInput
     else
       and_then (parse_tiers tier_count data tiers_offset) (\<lambda>tiers.
       and_then (parse_fees data flat_offset) (\<lambda>flat.
         Ok \<lparr>flat_fees = flat, fee_tiers = tiers\<rparr>))))"

section \<open>Choosing the fees of a pool\<close>

definition market_cap :: "u64 \<Rightarrow> u64 \<Rightarrow> u64 \<Rightarrow> (quote_error, u128) result" where
  "market_cap mint_supply base_reserve effective_quote_reserve =
    and_then (ok_or MathOverflow
        (checked_mul (ucast effective_quote_reserve) (ucast mint_supply))) (\<lambda>product.
      div_or_panic product (ucast base_reserve))"

definition select_tier :: "u128 \<Rightarrow> pump_fee_tier list \<Rightarrow> pump_fees \<Rightarrow> pump_fees" where
  "select_tier cap tiers selected =
    foldl (\<lambda>selected tier. if market_cap_threshold tier \<le> cap then tier_fees tier else selected)
      selected tiers"

definition select_pump_fees ::
    "pump_fee_config option \<Rightarrow> pump_fees \<Rightarrow> bool \<Rightarrow> u64 \<Rightarrow> u64 \<Rightarrow> u64
      \<Rightarrow> (quote_error, pump_fees) result" where
  "select_pump_fees config global is_pump_pool mint_supply base_reserve effective_quote_reserve =
    (case config of
      None \<Rightarrow> Ok global
    | Some config \<Rightarrow>
        if \<not> is_pump_pool then Ok (flat_fees config)
        else if base_reserve = 0 \<or> fee_tiers config = [] then Err InvalidInput
        else
          and_then (market_cap mint_supply base_reserve effective_quote_reserve) (\<lambda>cap.
          and_then (nth_or_panic (fee_tiers config) 0) (\<lambda>first.
            Ok (select_tier cap (fee_tiers config) (tier_fees first)))))"

text \<open>The loop over the raw tiers; \<open>tier_index\<close> counts up to \<open>tier_index + n\<close>.\<close>

fun select_tier_data ::
    "u8 list \<Rightarrow> usize \<Rightarrow> u128 \<Rightarrow> nat \<Rightarrow> nat \<Rightarrow> pump_fees \<Rightarrow> (quote_error, pump_fees) result" where
  "select_tier_data data tiers_offset cap tier_index 0 selected = Ok selected"
| "select_tier_data data tiers_offset cap tier_index (Suc n) selected =
    and_then (ok_or MathOverflow (checked_usize (tier_index * 40))) (\<lambda>relative.
    and_then (ok_or MathOverflow (checked_usize (tiers_offset + relative))) (\<lambda>offset.
    and_then (read_u128 data offset) (\<lambda>threshold.
    and_then
      (if threshold \<le> cap then parse_fees data (offset + 16) else Ok selected) (\<lambda>selected.
    select_tier_data data tiers_offset cap (Suc tier_index) n selected))))"

definition select_pump_fees_from_data ::
    "u8 list \<Rightarrow> pump_fees \<Rightarrow> bool \<Rightarrow> u64 \<Rightarrow> u64 \<Rightarrow> u64 \<Rightarrow> (quote_error, pump_fees) result" where
  "select_pump_fees_from_data data global is_pump_pool mint_supply base_reserve
      effective_quote_reserve =
    (let flat_offset = DISCRIMINATOR_LEN + 1 + 32 in
     and_then (parse_fees data flat_offset) (\<lambda>flat.
     if \<not> is_pump_pool then Ok flat
     else if base_reserve = 0 then Err InvalidInput
     else
       and_then (read_u32 data (flat_offset + 24)) (\<lambda>count.
       let tier_count = unat count;
           tiers_offset = flat_offset + 28;
           available_tiers = (length data - tiers_offset) div 40 in
       if tier_count = 0 \<or> available_tiers < tier_count \<or> 64 < tier_count
       then if tier_count = 0 then Ok global else Err InvalidInput
       else
         and_then (market_cap mint_supply base_reserve effective_quote_reserve) (\<lambda>cap.
         and_then (parse_fees data (tiers_offset + 16)) (\<lambda>selected.
           select_tier_data data tiers_offset cap 0 tier_count selected)))))"

definition token_amount :: "u8 list \<Rightarrow> (quote_error, u64) result" where
  "token_amount data = read_u64 data 64"

definition mint_supply :: "u8 list \<Rightarrow> (quote_error, u64) result" where
  "mint_supply data = read_u64 data 36"

lemmas [eval_defs] =
  DISCRIMINATOR_LEN_def i128_to_u64_def read_bps_def parse_fees_def parse_pump_pool_def
  parse_pump_global_fees_def parse_pump_fee_config_def market_cap_def select_tier_def
  select_pump_fees_def select_pump_fees_from_data_def token_amount_def mint_supply_def

section \<open>The two selections agree\<close>

lemma select_tier_Nil [simp]: "select_tier cap [] selected = selected"
  by (simp add: select_tier_def)

lemma select_tier_Cons [simp]:
  "select_tier cap (t # ts) selected =
    select_tier cap ts (if market_cap_threshold t \<le> cap then tier_fees t else selected)"
  by (simp add: select_tier_def)

lemma parse_tiers_select:
  assumes "parse_tiers n data (tiers_offset + 40 * k) = Ok tiers"
    and "tiers_offset + 40 * (k + n) < 2 ^ 64"
  shows "length tiers = n \<and>
    select_tier_data data tiers_offset cap k n selected = Ok (select_tier cap tiers selected)"
  using assms
proof (induction n arbitrary: k tiers selected)
  case 0
  then show ?case by simp
next
  case (Suc n)
  let ?offset = "tiers_offset + 40 * k"
  from Suc.prems obtain threshold fees rest where parts:
      "read_u128 data ?offset = Ok threshold" "parse_fees data (?offset + 16) = Ok fees"
      "parse_tiers n data (tiers_offset + 40 * Suc k) = Ok rest"
      "tiers = \<lparr>market_cap_threshold = threshold, tier_fees = fees\<rparr> # rest"
    by (auto simp: result_iff checked_usize_def algebra_simps split: if_splits)
  have "tiers_offset + 40 * (Suc k + n) < 2 ^ 64" using Suc.prems(2) by simp
  from Suc.IH [OF parts(3) this]
  show ?case using Suc.prems(2) parts(1,2,4)
    by (simp add: checked_usize_def mult.commute [of k 40])
qed

lemma parse_tiers_first:
  assumes "parse_tiers (Suc n) data offset = Ok tiers"
  shows "\<exists>first. tiers \<noteq> [] \<and> tiers ! 0 = first \<and> parse_fees data (offset + 16) = Ok (tier_fees first)"
  using assms by (auto simp: result_iff)

lemma select_from_data_agrees:
  assumes "parse_pump_fee_config data = Ok config"
  shows "select_pump_fees_from_data data global is_pump_pool minted base quote =
    select_pump_fees (Some config) global is_pump_pool minted base quote"
proof -
  from assms obtain count tiers flat where c: "read_u32 data 65 = Ok count"
      "unat count \<noteq> 0" "unat count \<le> (length data - 69) div 40" "unat count \<le> 64"
      "parse_tiers (unat count) data 69 = Ok tiers" "parse_fees data 41 = Ok flat"
      "config = \<lparr>flat_fees = flat, fee_tiers = tiers\<rparr>"
    by (auto simp: parse_pump_fee_config_def Let_def DISCRIMINATOR_LEN_def result_iff
        split: if_splits)
  then obtain n where n: "unat count = Suc n" by (cases "unat count") auto
  from parse_tiers_first [of n data 69 tiers] c(5) obtain first where
    first: "tiers \<noteq> []" "tiers ! 0 = first" "parse_fees data 85 = Ok (tier_fees first)"
    by (auto simp: n)
  from parse_tiers_select [of "unat count" data 69 0 tiers] c(4,5)
  have "select_tier_data data 69 cap 0 (unat count) s = Ok (select_tier cap tiers s)" for cap s
    by simp
  with c first show ?thesis
    by (simp add: select_pump_fees_from_data_def select_pump_fees_def DISCRIMINATOR_LEN_def Let_def
        nth_or_panic_def n)
qed

text \<open>What the fold chooses: the last tier that the market capitalisation reaches.\<close>

lemma select_tier_spec:
  "select_tier cap tiers selected =
    (let reached = filter (\<lambda>t. market_cap_threshold t \<le> cap) tiers in
     if reached = [] then selected else tier_fees (last reached))"
  by (induction tiers arbitrary: selected) (auto simp: Let_def)

section \<open>Properties\<close>

text \<open>C9. The pool parser accepts exactly the buffers that hold a pool: at least 261 bytes with the
  three keys at their offsets and the virtual reserves as 16 little-endian bytes; every other
  buffer, short ones and negative or too large virtual reserves included, is \<open>InvalidInput\<close>.\<close>

theorem parse_pump_pool_exact:
  "(parse_pump_pool data = Ok pool \<longleftrightarrow>
      261 \<le> length data \<and>
      take 32 (drop 11 data) = pool_creator pool \<and>
      take 32 (drop 43 data) = pool_base_mint pool \<and>
      take 32 (drop 211 data) = pool_coin_creator pool \<and>
      take 16 (drop 245 data) = int_to_le 16 (uint (pool_virtual_quote_reserves pool))) \<and>
   parse_pump_pool data \<in> {Err InvalidInput} \<union> range Ok"
proof -
  have virt: "map_ok (int_from_le 16) (bytes 16 data 245) = Ok v \<longleftrightarrow>
      - (2 ^ 127) \<le> v \<and> v < 2 ^ 127 \<and> 261 \<le> length data \<and>
      take 16 (drop 245 data) = int_to_le 16 v" for v
    using i128_field.read_Ok_iff [of data 245 v] by auto
  have u64: "i128_to_u64 v = Some w \<longleftrightarrow> v = uint w" for v and w :: u64
    using uint_bounded [of w]
    by (auto simp: i128_to_u64_def unsigned_of_int take_bit_int_eq_self)
  have range: "- (2 ^ 127) \<le> uint w \<and> uint w < 2 ^ 127" for w :: u64
    by (rule conjI, rule order_trans [of _ 0], simp, simp,
        rule less_trans [OF uint_bounded], simp)
  have "parse_pump_pool data = Ok pool \<longleftrightarrow>
      261 \<le> length data \<and>
      take 32 (drop 11 data) = pool_creator pool \<and>
      take 32 (drop 43 data) = pool_base_mint pool \<and>
      take 32 (drop 211 data) = pool_coin_creator pool \<and>
      take 16 (drop 245 data) = int_to_le 16 (uint (pool_virtual_quote_reserves pool))"
    using range
    by (auto simp: parse_pump_pool_def and_then_eq_Ok virt ok_or_eq_Ok u64 bytes_Ok
        intro!: exI [of _ "uint (pool_virtual_quote_reserves pool)"]
          exI [of _ "pool_virtual_quote_reserves pool"])
  moreover have "parse_pump_pool data \<in> {Err InvalidInput} \<union> range Ok"
    by (cases "parse_pump_pool data") (auto simp: parse_pump_pool_def result_iff)
  ultimately show ?thesis by blast
qed

text \<open>C10. If the configuration parses, choosing the fees from its raw bytes gives, for every pool and every
  market capitalisation, errors included, what choosing from the parsed configuration gives.  (A
  configuration without tiers does not parse, and gives a canonical pool the global fees here.)\<close>

theorem pump_fee_selections_agree:
  assumes "parse_pump_fee_config data = Ok config"
  shows "select_pump_fees_from_data data global is_pump_pool minted base quote =
    select_pump_fees (Some config) global is_pump_pool minted base quote"
  by (rule select_from_data_agrees [OF assms])

theorem pump_fee_selections_agree_witness:
  "select_pump_fees_from_data
     (replicate 41 0 @ [7, 0, 0, 0, 0, 0, 0, 0, 8, 0, 0, 0, 0, 0, 0, 0, 9, 0, 0, 0, 0, 0, 0, 0] @
      [1, 0, 0, 0] @ [0, 0, 0, 0, 0, 0, 0, 0, 0, 0, 0, 0, 0, 0, 0, 0] @
      [20, 0, 0, 0, 0, 0, 0, 0, 5, 0, 0, 0, 0, 0, 0, 0, 1, 0, 0, 0, 0, 0, 0, 0])
     \<lparr>lp_fee_bps = 1, protocol_fee_bps = 2, creator_fee_bps = 3\<rparr> True 1000 10 50 =
   select_pump_fees
     (Some \<lparr>flat_fees = \<lparr>lp_fee_bps = 7, protocol_fee_bps = 8, creator_fee_bps = 9\<rparr>,
            fee_tiers = [\<lparr>market_cap_threshold = 0,
              tier_fees = \<lparr>lp_fee_bps = 20, protocol_fee_bps = 5, creator_fee_bps = 1\<rparr>\<rparr>]\<rparr>)
     \<lparr>lp_fee_bps = 1, protocol_fee_bps = 2, creator_fee_bps = 3\<rparr> True 1000 10 50"
  by (rule pump_fee_selections_agree) (simp add: eval_defs cong: eval_cong)

text \<open>C3. With a parsed configuration, the fees of a canonical Pump pool are those of the last tier whose threshold its market
  capitalisation (rounded down) reaches, and the first tier's when it reaches none; an empty base
  reserve or tier list is \<open>InvalidInput\<close>, and nothing panics.\<close>

theorem pump_fee_tier_selected:
  "select_pump_fees (Some config) global True minted base quote =
    (if base = 0 \<or> fee_tiers config = [] then Err InvalidInput
     else
       (let cap = unat quote * unat minted div unat base;
            reached = filter (\<lambda>t. unat (market_cap_threshold t) \<le> cap) (fee_tiers config) in
        Ok (tier_fees (if reached = [] then hd (fee_tiers config) else last reached))))"
proof (cases "base = 0 \<or> fee_tiers config = []")
  case True
  then show ?thesis by (auto simp: select_pump_fees_def)
next
  case False
  have "unat quote * unat minted \<le> (2 ^ 64 - 1) * (2 ^ 64 - 1)"
    using unat_u64_bound [of quote] unat_u64_bound [of minted] by (intro mult_mono) auto
  then obtain p :: u128 where p: "checked_mul (ucast quote) (ucast minted) = Some p"
      "unat p = unat quote * unat minted"
    using checked_mul_fits [of "ucast quote :: u128" "ucast minted"] by auto
  obtain cap where cap: "div_or_panic p (ucast base) = (Ok cap :: (quote_error, u128) result)"
      "unat cap = unat quote * unat minted div unat base"
    using div_or_panic_fits [of "ucast base" p] False p(2) by (auto simp: unat_eq_zero)
  have "market_cap minted base quote = Ok cap"
    by (simp add: market_cap_def p(1) cap(1))
  with False show ?thesis
    by (simp add: select_pump_fees_def nth_or_panic_def select_tier_spec Let_def hd_conv_nth
        word_le_nat_alt cap(2))
qed

end
