(* ===== verification/Program_State.thy ===== *)
theory Program_State
  imports Pump_Accounts
begin

text \<open>
  What the instructions of the program work on: the pinned addresses of \<^verbatim>\<open>constants.rs\<close>, the errors
  of \<^verbatim>\<open>errors.rs\<close>, the events of \<^verbatim>\<open>events.rs\<close>, the accounts of a transaction, and the services that
  the Solana runtime, Anchor and the token programs provide.

  Accounts of the same key share their bytes, so the bytes, owner and executable flag of an account
  are in a store indexed by keys; an \<open>AccountInfo\<close> is the key with the flags of this instruction.
  The program never holds a mutable borrow, so \<open>try_borrow_data\<close> always succeeds.  The services are
  not code of the repository: they are the fields of the record \<open>env\<close>, an argument of every
  definition that uses them.
\<close>

section \<open>Constants\<close>

definition PUMP_SWAP_PROGRAM_ID :: pubkey where
  "PUMP_SWAP_PROGRAM_ID =
    [12, 20, 222, 252, 130, 94, 198, 118, 148, 37, 8, 24, 187, 101, 64, 101, 244, 41, 141,
     49, 86, 213, 113, 180, 212, 248, 9, 12, 24, 233, 168, 99]"

definition PUMP_PROGRAM_ID :: pubkey where
  "PUMP_PROGRAM_ID =
    [1, 86, 224, 246, 147, 102, 90, 207, 68, 219, 21, 104, 191, 23, 91, 170, 81, 137, 203,
     151, 245, 210, 255, 59, 101, 93, 43, 182, 253, 109, 24, 176]"

definition PUMP_FEE_PROGRAM_ID :: pubkey where
  "PUMP_FEE_PROGRAM_ID =
    [12, 53, 255, 169, 5, 90, 142, 86, 141, 168, 247, 188, 7, 86, 21, 39, 76, 241, 201, 44,
     164, 31, 64, 0, 156, 81, 106, 164, 20, 194, 124, 112]"

definition METEORA_DLMM_PROGRAM_ID :: pubkey where
  "METEORA_DLMM_PROGRAM_ID =
    [4, 233, 225, 47, 188, 132, 232, 38, 201, 50, 204, 233, 226, 100, 12, 206, 21, 89, 12,
     28, 98, 115, 176, 146, 87, 8, 186, 59, 133, 32, 176, 188]"

definition WSOL_MINT :: pubkey where
  "WSOL_MINT =
    [6, 155, 136, 87, 254, 171, 129, 132, 251, 104, 127, 99, 70, 24, 192, 53, 218, 196, 57,
     220, 26, 235, 59, 85, 152, 160, 240, 0, 0, 0, 0, 1]"

definition MEMO_PROGRAM_ID :: pubkey where
  "MEMO_PROGRAM_ID =
    [5, 74, 83, 90, 153, 41, 33, 6, 77, 36, 232, 113, 96, 218, 56, 124, 124, 53, 181, 221,
     188, 146, 187, 129, 228, 31, 168, 64, 65, 5, 68, 141]"

definition PUMP_POOL_DISCRIMINATOR :: "u8 list" where
  "PUMP_POOL_DISCRIMINATOR = [241, 154, 109, 4, 17, 177, 109, 188]"

definition METEORA_LB_PAIR_DISCRIMINATOR :: "u8 list" where
  "METEORA_LB_PAIR_DISCRIMINATOR = [33, 11, 49, 98, 181, 101, 177, 13]"

definition METEORA_BIN_ARRAY_DISCRIMINATOR :: "u8 list" where
  "METEORA_BIN_ARRAY_DISCRIMINATOR = [92, 142, 92, 220, 5, 148, 70, 181]"

definition PUMP_BUY_EXACT_QUOTE_IN_DISCRIMINATOR :: "u8 list" where
  "PUMP_BUY_EXACT_QUOTE_IN_DISCRIMINATOR = [198, 46, 21, 82, 180, 217, 232, 112]"

definition PUMP_SELL_DISCRIMINATOR :: "u8 list" where
  "PUMP_SELL_DISCRIMINATOR = [51, 230, 133, 164, 1, 127, 131, 173]"

definition METEORA_SWAP2_DISCRIMINATOR :: "u8 list" where
  "METEORA_SWAP2_DISCRIMINATOR = [65, 75, 63, 76, 235, 91, 91, 136]"

definition MAX_METEORA_BIN_ARRAYS :: usize where "MAX_METEORA_BIN_ARRAYS = 8"
definition MAX_BEST_DIRECTION_BIN_ARRAYS :: usize where "MAX_BEST_DIRECTION_BIN_ARRAYS = 4"

section \<open>Errors and events\<close>

datatype arb_error =
    InvalidProgramId
  | InvalidTokenMint
  | InvalidTokenAccountOwner
  | InvalidPool
  | InvalidCashbackAccount
  | InvalidRemainingAccounts
  | InvalidBinArray
  | BalanceDidNotIncreaseAsExpected
  | ArithmeticOverflow
  | InvalidAmount
  | ProfitTooLow
  | TargetBalanceNotRestored
  | UnsupportedTokenProgram
  | UnsupportedTokenExtension
  | InvalidRouteAccounts
  | InvalidAccountData
  | BestDirectionQuoteIncomplete
  | NoProfitableDirection
  | InvalidDynamicAmountRange

text \<open>Errors that are not the program's own: of Anchor's account handling (constraints, reloading a
  token account), of a called program, and of reading the clock.\<close>

datatype program_error =
    Arb arb_error
  | ConstraintMut
  | AccountNotSigner
  | ConstraintAddress
  | AccountDidNotDeserialize
  | CalledProgram nat
  | ClockUnavailable

text \<open>The errors of the crate \<open>solana_program\<close> that the test programs return, with the program's own codes
  and those that the SPL crate passes on.\<close>

datatype solana_error =
    InvalidInstructionData
  | SolanaInvalidAccountData
  | InvalidArgument
  | SolanaArithmeticOverflow
  | NotEnoughAccountKeys
  | IllegalOwner
  | Custom nat
  | OtherProgramError nat

datatype route_direction = PumpToMeteora | MeteoraToPump

record dynamic_selection =
  sel_direction :: route_direction
  sel_min_wsol_amount_in :: u64
  sel_max_wsol_amount_in :: u64
  sel_balance_limited_max :: u64
  sel_largest_complete_amount :: u64
  sel_actual_wsol_amount_in :: u64
  sel_expected_wsol_amount_out :: u64
  sel_expected_profit_lamports :: u64
  sel_visited_bins :: u8
  sel_boundary_candidates :: u8
  sel_interior_candidates :: u8
  sel_early_stop_used :: bool

record route_completed =
  done_direction :: route_direction
  done_trader :: pubkey
  done_target_mint :: pubkey
  done_initial_wsol_balance :: u64
  done_final_wsol_balance :: u64
  done_first_leg_target_delta :: u64
  done_second_leg_wsol_delta :: u64

datatype event =
    RouteStarted route_direction pubkey pubkey u64
  | FirstLegCompleted route_direction u64
  | SecondLegCompleted route_direction u64
  | RouteCompleted route_completed
  | DynamicAmountSelected dynamic_selection

section \<open>Accounts and services\<close>

record account =
  acc_owner :: pubkey
  acc_executable :: bool
  acc_data :: "u8 list"

type_synonym store = "pubkey \<Rightarrow> account"

record account_info =
  info_key :: pubkey
  info_is_signer :: bool
  info_is_writable :: bool

record account_meta =
  meta_key :: pubkey
  meta_is_signer :: bool
  meta_is_writable :: bool

record instr =
  instr_program :: pubkey
  instr_accounts :: "account_meta list"
  instr_data :: "u8 list"

record token_fields =
  token_mint :: pubkey
  token_owner :: pubkey
  token_balance :: u64

datatype mint_extension = MetadataPointer | TokenMetadata | OtherExtension nat

text \<open>
  \<^item> \<open>env_find_program_address\<close>: \<open>Pubkey::find_program_address(seeds, program).0\<close>.
  \<^item> \<open>env_token_program\<close>, \<open>env_token_2022_program\<close>, \<open>env_associated_token_program\<close>: the ids of the
    SPL programs, constants of the crate \<open>anchor_spl\<close>.
  \<^item> \<open>env_mint_extensions\<close>: unpacking a Token-2022 mint and listing its extension types, \<open>None\<close>
    when either fails.
  \<^item> \<open>env_reload\<close>: Anchor's \<open>reload\<close> of a token account from its current bytes.
  \<^item> \<open>env_invoke\<close>: the called program: it changes the store or fails with its own error code.
  \<^item> \<open>env_clock\<close>: the timestamp of the clock sysvar.
\<close>

record env =
  env_find_program_address :: "u8 list list \<Rightarrow> pubkey \<Rightarrow> pubkey"
  env_token_program :: pubkey
  env_token_2022_program :: pubkey
  env_associated_token_program :: pubkey
  env_mint_extensions :: "u8 list \<Rightarrow> mint_extension list option"
  env_reload :: "account \<Rightarrow> token_fields option"
  env_invoke :: "instr \<Rightarrow> account_info list \<Rightarrow> store \<Rightarrow> (nat, store) result"
  env_clock :: "i64 option"

definition ascii :: "string \<Rightarrow> u8 list" where
  "ascii s = map (\<lambda>c. of_nat (of_char c)) s"

definition default_pubkey :: pubkey where
  "default_pubkey = replicate 32 0"

definition info_owner :: "store \<Rightarrow> account_info \<Rightarrow> pubkey" where
  "info_owner st a = acc_owner (st (info_key a))"

definition info_data :: "store \<Rightarrow> account_info \<Rightarrow> u8 list" where
  "info_data st a = acc_data (st (info_key a))"

definition info_executable :: "store \<Rightarrow> account_info \<Rightarrow> bool" where
  "info_executable st a = acc_executable (st (info_key a))"

definition meta_new :: "pubkey \<Rightarrow> bool \<Rightarrow> account_meta" where
  "meta_new k signer = \<lparr>meta_key = k, meta_is_signer = signer, meta_is_writable = True\<rparr>"

definition meta_new_readonly :: "pubkey \<Rightarrow> bool \<Rightarrow> account_meta" where
  "meta_new_readonly k signer = \<lparr>meta_key = k, meta_is_signer = signer, meta_is_writable = False\<rparr>"

text \<open>The checks of the program: \<open>require!(b, ArbError::e)\<close> and \<open>require_keys_eq!\<close>.\<close>

abbreviation ensure :: "bool \<Rightarrow> arb_error \<Rightarrow> (program_error, unit) result" where
  "ensure b e \<equiv> require b (Arb e)"

text \<open>\<open>data.get(offset..offset + n)\<close> as an option.\<close>

definition slice :: "u8 list \<Rightarrow> usize \<Rightarrow> usize \<Rightarrow> u8 list option" where
  "slice data offset n =
    (if offset + n \<le> length data then Some (take n (drop offset data)) else None)"

section \<open>The state of an instruction\<close>

text \<open>The store, the two token accounts as Anchor last deserialised them, and the events so far.\<close>

record exec =
  exec_store :: store
  exec_wsol :: token_fields
  exec_target :: token_fields
  exec_events :: "event list"

definition emit :: "event \<Rightarrow> exec \<Rightarrow> exec" where
  "emit e s = s \<lparr>exec_events := exec_events s @ [e]\<rparr>"

lemma emit_simps [simp]:
  "exec_store (emit e s) = exec_store s" "exec_wsol (emit e s) = exec_wsol s"
  "exec_target (emit e s) = exec_target s" "exec_events (emit e s) = exec_events s @ [e]"
  by (simp_all add: emit_def)

lemma default_pubkey_length [simp]: "length default_pubkey = 32"
  by (simp add: default_pubkey_def)

end
