(* ===== verification/Account_Validation.thy ===== *)
theory Account_Validation
  imports Program_State
begin

text \<open>
  The checks of \<^verbatim>\<open>utils/\<close>: the prefixes of pool, pair and bin-array accounts
  (\<^verbatim>\<open>account_validation.rs\<close>), the token programs and mint extensions (\<^verbatim>\<open>token_extensions.rs\<close>) and the
  balance increase (\<^verbatim>\<open>balance.rs\<close>).  The lemmas show what a passed check guarantees.
\<close>

section \<open>Account prefixes\<close>

record pump_pool_prefix =
  prefix_base_mint :: pubkey
  prefix_quote_mint :: pubkey
  prefix_base_vault :: pubkey
  prefix_quote_vault :: pubkey
  prefix_coin_creator :: pubkey
  prefix_is_cashback_coin :: bool

record meteora_pair_prefix =
  pair_token_x_mint :: pubkey
  pair_token_y_mint :: pubkey
  pair_reserve_x :: pubkey
  pair_reserve_y :: pubkey

definition read_pubkey :: "u8 list \<Rightarrow> usize \<Rightarrow> (program_error, pubkey) result" where
  "read_pubkey data offset = ok_or (Arb InvalidAccountData) (slice data offset 32)"

definition check_discriminator :: "u8 list \<Rightarrow> u8 list \<Rightarrow> (program_error, unit) result" where
  "check_discriminator data expected = ensure (slice data 0 8 = Some expected) InvalidAccountData"

definition parse_pump_pool_prefix :: "u8 list \<Rightarrow> (program_error, pump_pool_prefix) result" where
  "parse_pump_pool_prefix data =
    and_then (ensure (211 + 32 \<le> length data) InvalidAccountData) (\<lambda>_.
    and_then (check_discriminator data PUMP_POOL_DISCRIMINATOR) (\<lambda>_.
    and_then
      (if length data \<le> 244 then Ok False
       else if data ! 244 = 0 then Ok False
       else if data ! 244 = 1 then Ok True
       else Err (Arb InvalidAccountData)) (\<lambda>is_cashback_coin.
    and_then (read_pubkey data 43) (\<lambda>base_mint.
    and_then (read_pubkey data 75) (\<lambda>quote_mint.
    and_then (read_pubkey data 139) (\<lambda>base_vault.
    and_then (read_pubkey data 171) (\<lambda>quote_vault.
    and_then (read_pubkey data 211) (\<lambda>coin_creator.
    Ok \<lparr>prefix_base_mint = base_mint, prefix_quote_mint = quote_mint,
       prefix_base_vault = base_vault, prefix_quote_vault = quote_vault,
       prefix_coin_creator = coin_creator, prefix_is_cashback_coin = is_cashback_coin\<rparr>))))))))"

definition parse_meteora_pair :: "u8 list \<Rightarrow> (program_error, meteora_pair_prefix) result" where
  "parse_meteora_pair data =
    and_then (ensure (184 + 32 \<le> length data) InvalidAccountData) (\<lambda>_.
    and_then (check_discriminator data METEORA_LB_PAIR_DISCRIMINATOR) (\<lambda>_.
    and_then (read_pubkey data 88) (\<lambda>token_x_mint.
    and_then (read_pubkey data 120) (\<lambda>token_y_mint.
    and_then (read_pubkey data 152) (\<lambda>reserve_x.
    and_then (read_pubkey data 184) (\<lambda>reserve_y.
    Ok \<lparr>pair_token_x_mint = token_x_mint, pair_token_y_mint = token_y_mint,
       pair_reserve_x = reserve_x, pair_reserve_y = reserve_y\<rparr>))))))"

definition validate_bin_array_data :: "u8 list \<Rightarrow> pubkey \<Rightarrow> (program_error, unit) result" where
  "validate_bin_array_data data expected_lb_pair =
    and_then (ensure (24 + 32 \<le> length data) InvalidBinArray) (\<lambda>_.
    and_then (ensure (slice data 0 8 = Some METEORA_BIN_ARRAY_DISCRIMINATOR) InvalidBinArray) (\<lambda>_.
    and_then (read_pubkey data 24) (\<lambda>lb_pair.
    ensure (lb_pair = expected_lb_pair) InvalidBinArray)))"

definition validate_bin_array_count :: "usize \<Rightarrow> (program_error, unit) result" where
  "validate_bin_array_count count =
    and_then (ensure (0 < count) InvalidRemainingAccounts) (\<lambda>_.
    ensure (count \<le> MAX_METEORA_BIN_ARRAYS) InvalidRemainingAccounts)"

text \<open>The index field of a bin array, bytes 8 to 16.\<close>

definition raw_array_index :: "u8 list \<Rightarrow> (program_error, i64) result" where
  "raw_array_index data =
    ok_or (Arb InvalidBinArray) (map_option (int_from_le 8) (slice data 8 8))"

fun validate_distinct ::
    "store \<Rightarrow> i64 \<Rightarrow> account_info list \<Rightarrow> (program_error, unit) result" where
  "validate_distinct st index [] = Ok ()"
| "validate_distinct st index (previous # rest) =
    and_then (raw_array_index (info_data st previous)) (\<lambda>previous_index.
    and_then (ensure (index \<noteq> previous_index) InvalidBinArray) (\<lambda>_.
    validate_distinct st index rest))"

text \<open>The loop over the arrays; \<open>seen\<close> is \<open>accounts[..position]\<close>.\<close>

fun validate_bin_arrays_from ::
    "store \<Rightarrow> pubkey \<Rightarrow> account_info list \<Rightarrow> account_info list \<Rightarrow> (program_error, unit) result" where
  "validate_bin_arrays_from st lb_pair seen [] = Ok ()"
| "validate_bin_arrays_from st lb_pair seen (a # rest) =
    and_then (ensure (info_owner st a = METEORA_DLMM_PROGRAM_ID) InvalidBinArray) (\<lambda>_.
    and_then (ensure (info_is_writable a \<and> \<not> info_is_signer a) InvalidBinArray) (\<lambda>_.
    and_then (validate_bin_array_data (info_data st a) lb_pair) (\<lambda>_.
    and_then (raw_array_index (info_data st a)) (\<lambda>index.
    and_then (validate_distinct st index seen) (\<lambda>_.
    validate_bin_arrays_from st lb_pair (seen @ [a]) rest)))))"

definition validate_bin_arrays ::
    "store \<Rightarrow> account_info list \<Rightarrow> pubkey \<Rightarrow> (program_error, unit) result" where
  "validate_bin_arrays st accounts lb_pair =
    and_then (validate_bin_array_count (length accounts)) (\<lambda>_.
    validate_bin_arrays_from st lb_pair [] accounts)"

definition validate_user_token_fields ::
    "pubkey \<Rightarrow> pubkey \<Rightarrow> pubkey \<Rightarrow> pubkey \<Rightarrow> (program_error, unit) result" where
  "validate_user_token_fields actual_owner actual_mint expected_owner expected_mint =
    and_then (ensure (actual_owner = expected_owner) InvalidTokenAccountOwner) (\<lambda>_.
    ensure (actual_mint = expected_mint) InvalidTokenMint)"

section \<open>Token programs and extensions\<close>

definition is_supported_token_program :: "env \<Rightarrow> pubkey \<Rightarrow> bool" where
  "is_supported_token_program env program \<longleftrightarrow>
    program = env_token_program env \<or> program = env_token_2022_program env"

definition validate_route_token_programs ::
    "env \<Rightarrow> store \<Rightarrow> account_info \<Rightarrow> account_info \<Rightarrow> account_info \<Rightarrow> account_info
      \<Rightarrow> pubkey \<Rightarrow> pubkey \<Rightarrow> (program_error, unit) result" where
  "validate_route_token_programs env st wsol_mint target_mint user_wsol user_target
      wsol_token_program target_token_program =
    and_then (ensure (wsol_token_program = env_token_program env) UnsupportedTokenProgram) (\<lambda>_.
    and_then (ensure (is_supported_token_program env target_token_program)
      UnsupportedTokenProgram) (\<lambda>_.
    and_then (ensure (info_owner st wsol_mint = wsol_token_program) UnsupportedTokenProgram) (\<lambda>_.
    and_then (ensure (info_owner st user_wsol = wsol_token_program) UnsupportedTokenProgram) (\<lambda>_.
    and_then (ensure (info_owner st target_mint = target_token_program)
      UnsupportedTokenProgram) (\<lambda>_.
    ensure (info_owner st user_target = target_token_program) UnsupportedTokenProgram)))))"

fun validate_extensions :: "mint_extension list \<Rightarrow> (program_error, unit) result" where
  "validate_extensions [] = Ok ()"
| "validate_extensions (extension # rest) =
    and_then (ensure (extension = MetadataPointer \<or> extension = TokenMetadata)
      UnsupportedTokenExtension) (\<lambda>_. validate_extensions rest)"

definition validate_supported_target_mint ::
    "env \<Rightarrow> store \<Rightarrow> account_info \<Rightarrow> (program_error, unit) result" where
  "validate_supported_target_mint env st target_mint =
    (if info_owner st target_mint = env_token_program env then Ok ()
     else
       and_then (ensure (info_owner st target_mint = env_token_2022_program env)
         UnsupportedTokenProgram) (\<lambda>_.
       and_then (ok_or (Arb InvalidAccountData)
         (env_mint_extensions env (info_data st target_mint))) validate_extensions))"

section \<open>Balances\<close>

definition checked_increase :: "u64 \<Rightarrow> u64 \<Rightarrow> (program_error, u64) result" where
  "checked_increase before after =
    and_then (ok_or (Arb BalanceDidNotIncreaseAsExpected) (checked_sub after before)) (\<lambda>delta.
    and_then (ensure (0 < delta) BalanceDidNotIncreaseAsExpected) (\<lambda>_. Ok delta))"

lemmas [eval_defs] =
  read_pubkey_def check_discriminator_def parse_pump_pool_prefix_def parse_meteora_pair_def
  validate_bin_array_data_def validate_bin_array_count_def raw_array_index_def
  validate_bin_arrays_def validate_user_token_fields_def is_supported_token_program_def
  validate_route_token_programs_def validate_supported_target_mint_def checked_increase_def

section \<open>What the checks guarantee\<close>

lemma slice_Some: "slice data off n = Some bs \<longleftrightarrow> off + n \<le> length data \<and> bs = take n (drop off data)"
  by (auto simp: slice_def)

lemma read_pubkey_eq:
  "read_pubkey data off =
    (if off + 32 \<le> length data then Ok (take 32 (drop off data)) else Err (Arb InvalidAccountData))"
  by (simp add: read_pubkey_def slice_def)

lemma checked_increase_Ok:
  "checked_increase before after = Ok delta \<longleftrightarrow> before < after \<and> delta = after - before"
proof -
  have "unat after = unat before + unat delta \<and> 0 < unat delta \<longleftrightarrow>
    unat before < unat after \<and> delta = after - before"
    by (auto simp: unat_sub_small word_le_nat_alt word_unat_eq_iff)
  then show ?thesis
    by (simp add: checked_increase_def result_iff checked_sub_Some word_less_nat_alt)
qed

lemma checked_increase_unat:
  "checked_increase before after = Ok delta \<Longrightarrow>
    unat after = unat before + unat delta \<and> 0 < unat delta"
  by (auto simp: checked_increase_def result_iff checked_sub_Some word_less_nat_alt)

lemma parse_pump_pool_prefix_Ok:
  "parse_pump_pool_prefix data = Ok p \<Longrightarrow>
    243 \<le> length data \<and> take 8 data = PUMP_POOL_DISCRIMINATOR \<and>
    prefix_base_mint p = take 32 (drop 43 data) \<and> prefix_quote_mint p = take 32 (drop 75 data) \<and>
    prefix_base_vault p = take 32 (drop 139 data) \<and> prefix_quote_vault p = take 32 (drop 171 data) \<and>
    prefix_coin_creator p = take 32 (drop 211 data) \<and>
    (prefix_is_cashback_coin p \<longleftrightarrow> 244 < length data \<and> data ! 244 = 1)"
  by (auto simp: parse_pump_pool_prefix_def check_discriminator_def read_pubkey_eq result_iff
      slice_Some split: if_splits)

lemma parse_meteora_pair_Ok:
  "parse_meteora_pair data = Ok p \<longleftrightarrow>
    216 \<le> length data \<and> take 8 data = METEORA_LB_PAIR_DISCRIMINATOR \<and>
    p = \<lparr>pair_token_x_mint = take 32 (drop 88 data), pair_token_y_mint = take 32 (drop 120 data),
         pair_reserve_x = take 32 (drop 152 data), pair_reserve_y = take 32 (drop 184 data)\<rparr>"
  by (auto simp: parse_meteora_pair_def check_discriminator_def read_pubkey_eq result_iff slice_Some)

text \<open>What makes an account a bin array of the pair.\<close>

definition bin_array_of :: "store \<Rightarrow> pubkey \<Rightarrow> account_info \<Rightarrow> bool" where
  "bin_array_of st lb_pair a \<longleftrightarrow>
    info_owner st a = METEORA_DLMM_PROGRAM_ID \<and> info_is_writable a \<and> \<not> info_is_signer a \<and>
    56 \<le> length (info_data st a) \<and>
    take 8 (info_data st a) = METEORA_BIN_ARRAY_DISCRIMINATOR \<and>
    take 32 (drop 24 (info_data st a)) = lb_pair"

definition array_index_of :: "store \<Rightarrow> account_info \<Rightarrow> i64" where
  "array_index_of st a = int_from_le 8 (take 8 (drop 8 (info_data st a)))"

lemma validate_bin_array_data_Ok:
  "validate_bin_array_data data lb_pair = Ok () \<longleftrightarrow>
    56 \<le> length data \<and> take 8 data = METEORA_BIN_ARRAY_DISCRIMINATOR \<and>
    take 32 (drop 24 data) = lb_pair"
  by (auto simp: validate_bin_array_data_def read_pubkey_eq result_iff slice_Some)

lemma raw_array_index_Ok:
  "16 \<le> length (info_data st a) \<Longrightarrow>
    raw_array_index (info_data st a) = Ok (array_index_of st a)"
  by (simp add: raw_array_index_def slice_def array_index_of_def)

lemma validate_distinct_Ok:
  "\<forall>a \<in> set seen. 16 \<le> length (info_data st a) \<Longrightarrow>
    validate_distinct st index seen = Ok () \<longleftrightarrow> index \<notin> array_index_of st ` set seen"
  by (induction seen) (auto simp: result_iff raw_array_index_Ok)

lemma validate_bin_arrays_from_step:
  assumes "\<forall>b \<in> set seen. 16 \<le> length (info_data st b)"
  shows "validate_bin_arrays_from st lb_pair seen (a # rest) = Ok () \<longleftrightarrow>
    bin_array_of st lb_pair a \<and> array_index_of st a \<notin> array_index_of st ` set seen \<and>
    validate_bin_arrays_from st lb_pair (seen @ [a]) rest = Ok ()"
proof (cases "56 \<le> length (info_data st a)")
  case True
  then have "raw_array_index (info_data st a) = Ok (array_index_of st a)"
    by (intro raw_array_index_Ok) simp
  with True assms show ?thesis
    by (simp add: result_iff validate_bin_array_data_Ok validate_distinct_Ok bin_array_of_def)
qed (simp add: result_iff validate_bin_array_data_Ok bin_array_of_def)

lemma validate_bin_arrays_from_Ok:
  assumes "\<forall>a \<in> set seen. 16 \<le> length (info_data st a)"
    and "distinct (map (array_index_of st) seen)"
  shows "validate_bin_arrays_from st lb_pair seen accounts = Ok () \<longleftrightarrow>
    (\<forall>a \<in> set accounts. bin_array_of st lb_pair a) \<and>
    distinct (map (array_index_of st) (seen @ accounts))"
  using assms
proof (induction accounts arbitrary: seen)
  case Nil
  then show ?case by simp
next
  case (Cons a rest)
  show ?case
  proof (cases "bin_array_of st lb_pair a \<and> array_index_of st a \<notin> array_index_of st ` set seen")
    case True
    then have "\<forall>b \<in> set (seen @ [a]). 16 \<le> length (info_data st b)"
        "distinct (map (array_index_of st) (seen @ [a]))"
      using Cons.prems by (auto simp: bin_array_of_def)
    note IH = Cons.IH [OF this]
    show ?thesis
      unfolding validate_bin_arrays_from_step [OF Cons.prems(1)] IH using True by simp
  next
    case False
    then show ?thesis
      unfolding validate_bin_arrays_from_step [OF Cons.prems(1)] by auto
  qed
qed

lemma validate_bin_arrays_Ok:
  "validate_bin_arrays st accounts lb_pair = Ok () \<longleftrightarrow>
    0 < length accounts \<and> length accounts \<le> 8 \<and>
    (\<forall>a \<in> set accounts. bin_array_of st lb_pair a) \<and>
    distinct (map (array_index_of st) accounts)"
  using validate_bin_arrays_from_Ok [of "[]" st lb_pair accounts]
  by (auto simp: validate_bin_arrays_def validate_bin_array_count_def result_iff
      MAX_METEORA_BIN_ARRAYS_def)

lemma validate_extensions_Ok:
  "validate_extensions es = Ok () \<longleftrightarrow> set es \<subseteq> {MetadataPointer, TokenMetadata}"
  by (induction es) (auto simp: result_iff)

lemma checks_no_panic:
  "read_pubkey data off \<noteq> Panic" "check_discriminator data d \<noteq> Panic"
  "parse_pump_pool_prefix data \<noteq> Panic" "parse_meteora_pair data \<noteq> Panic"
  "validate_bin_array_data data k \<noteq> Panic" "raw_array_index data \<noteq> Panic"
  by (auto simp: read_pubkey_def check_discriminator_def parse_pump_pool_prefix_def
      parse_meteora_pair_def validate_bin_array_data_def raw_array_index_def result_iff)

end
