(* ===== verification/Swap_Interface.thy ===== *)
theory Swap_Interface
  imports Account_Validation
begin

text \<open>
  What the routes rely on in a DEX adapter: a swap that goes through is one call of the DEX program,
  with the two amounts in its data and with account metas that name the infos in order; the
  adapter itself never panics; and the data determines the amounts.
\<close>

locale swap_adapter =
  fixes swap :: "env \<Rightarrow> store \<Rightarrow> 'a \<Rightarrow> u64 \<Rightarrow> u64 \<Rightarrow> (program_error, store) result"
    and program :: pubkey and payload :: "u64 \<Rightarrow> u64 \<Rightarrow> u8 list"
  assumes swap_calls: "swap env st a x y = Ok st' \<Longrightarrow>
      \<exists>metas infos. map meta_key metas = map info_key infos \<and>
        env_invoke env \<lparr>instr_program = program, instr_accounts = metas,
          instr_data = payload x y\<rparr> infos st = Ok st'"
    and swap_panics: "swap env st a x y = Panic \<Longrightarrow> \<exists>i infos. env_invoke env i infos st = Panic"
    and payload_amounts: "payload x y = payload x' y' \<Longrightarrow> x = x' \<and> y = y'"
begin

lemma swap_no_panic: "(\<And>i infos. env_invoke env i infos st \<noteq> Panic) \<Longrightarrow> swap env st a x y \<noteq> Panic"
  using swap_panics by blast

text \<open>A program that only looks at amounts it did not get cannot have been called by the swap.\<close>

lemma swap_refused:
  assumes "\<And>metas infos. env_invoke env \<lparr>instr_program = program, instr_accounts = metas,
    instr_data = payload x y\<rparr> infos st \<noteq> Ok st'"
  shows "swap env st a x y \<noteq> Ok st'"
  using swap_calls [of env st a x y st'] assms by blast

text \<open>A law that every successful call of the program establishes holds after a swap.\<close>

lemma swap_establishes:
  assumes "swap env st a x y = Ok st'"
    and "\<And>metas infos. env_invoke env \<lparr>instr_program = program, instr_accounts = metas,
      instr_data = payload x y\<rparr> infos st = Ok st' \<Longrightarrow> P x y st st'"
  shows "P x y st st'"
  using swap_calls [OF assms(1)] assms(2) by blast

end

lemma word_to_le_inj:
  assumes "8 dvd LENGTH('a)"
  shows "word_to_le v = word_to_le (w :: 'a::len word) \<longleftrightarrow> v = w"
proof -
  have "8 * (LENGTH('a) div 8) = LENGTH('a)" using assms by simp
  note decoded = word_decode_encode [OF this]
  have "v = w" if "word_to_le v = word_to_le w"
    using arg_cong [OF that, of "word_from_le :: u8 list \<Rightarrow> 'a word"] by (simp add: decoded)
  then show ?thesis by blast
qed

lemma two_u64_inj:
  "pre @ word_to_le (x :: u64) @ word_to_le (y :: u64) @ post =
    pre @ word_to_le x' @ word_to_le y' @ post \<longleftrightarrow> x = x' \<and> y = y'"
  by (simp add: append_eq_append_conv length_word_to_le word_to_le_inj)

end
