(* ===== verification/Pump_Adapter.thy ===== *)
theory Pump_Adapter
  imports Swap_Interface
begin

text \<open>
  \<^verbatim>\<open>adapters/pump_swap.rs\<close>: the checks before a PumpSwap call, the bytes and account metas of
  \<open>buy_exact_quote_in\<close> and \<open>sell\<close>, and the call itself.  The lemmas show that metas and infos of a
  call name the same accounts in the same order, and what a call that went through guarantees.
\<close>

section \<open>Accounts and checks\<close>

record pump_swap_accounts =
  ps_pool :: account_info
  ps_user :: account_info
  ps_global_config :: account_info
  ps_base_mint :: account_info
  ps_quote_mint :: account_info
  ps_user_base_token_account :: account_info
  ps_user_quote_token_account :: account_info
  ps_pool_base_token_account :: account_info
  ps_pool_quote_token_account :: account_info
  ps_protocol_fee_recipient :: account_info
  ps_protocol_fee_recipient_token_account :: account_info
  ps_base_token_program :: account_info
  ps_quote_token_program :: account_info
  ps_system_program :: account_info
  ps_associated_token_program :: account_info
  ps_event_authority :: account_info
  ps_program :: account_info
  ps_coin_creator_vault_ata :: account_info
  ps_coin_creator_vault_authority :: account_info
  ps_global_volume_accumulator :: account_info
  ps_user_volume_accumulator :: account_info
  ps_user_volume_accumulator_wsol_ata :: account_info
  ps_fee_config :: account_info
  ps_fee_program :: account_info
  ps_pool_v2 :: account_info
  ps_buyback_fee_recipient :: account_info
  ps_buyback_fee_recipient_token_account :: account_info

definition USER_VOLUME_ACCUMULATOR_DISCRIMINATOR :: "u8 list" where
  "USER_VOLUME_ACCUMULATOR_DISCRIMINATOR = [86, 255, 112, 14, 102, 53, 154, 250]"

definition USER_VOLUME_ACCUMULATOR_CURRENT_LEN :: usize where
  "USER_VOLUME_ACCUMULATOR_CURRENT_LEN = 137"

definition TOKEN_ACCOUNT_LEN :: usize where "TOKEN_ACCOUNT_LEN = 165"

definition pump_validate :: "env \<Rightarrow> store \<Rightarrow> pump_swap_accounts \<Rightarrow> (program_error, unit) result" where
  "pump_validate env st accounts =
    and_then (ensure (info_key (ps_program accounts) = PUMP_SWAP_PROGRAM_ID) InvalidProgramId) (\<lambda>_.
    and_then (ensure (info_executable st (ps_program accounts)) InvalidProgramId) (\<lambda>_.
    and_then (ensure (info_key (ps_fee_program accounts) = PUMP_FEE_PROGRAM_ID)
      InvalidProgramId) (\<lambda>_.
    and_then (ensure (info_executable st (ps_fee_program accounts)) InvalidProgramId) (\<lambda>_.
    and_then (ensure (info_owner st (ps_pool accounts) = PUMP_SWAP_PROGRAM_ID) InvalidPool) (\<lambda>_.
    and_then (parse_pump_pool_prefix (info_data st (ps_pool accounts))) (\<lambda>pool.
    and_then (ensure (prefix_base_mint pool = info_key (ps_base_mint accounts))
      InvalidTokenMint) (\<lambda>_.
    and_then (ensure (prefix_quote_mint pool = info_key (ps_quote_mint accounts))
      InvalidTokenMint) (\<lambda>_.
    and_then (ensure (prefix_base_vault pool = info_key (ps_pool_base_token_account accounts))
      InvalidPool) (\<lambda>_.
    and_then (ensure (prefix_quote_vault pool = info_key (ps_pool_quote_token_account accounts))
      InvalidPool) (\<lambda>_.
    and_then
      (if prefix_coin_creator pool \<noteq> default_pubkey
       then
         ensure (env_find_program_address env
             [ascii ''pool-v2'', info_key (ps_base_mint accounts)] PUMP_SWAP_PROGRAM_ID =
           info_key (ps_pool_v2 accounts)) InvalidPool
       else Ok ()) (\<lambda>_.
    if prefix_is_cashback_coin pool
    then
      let expected_user_volume_accumulator = env_find_program_address env
        [ascii ''user_volume_accumulator'', info_key (ps_user accounts)] PUMP_SWAP_PROGRAM_ID in
      and_then (ensure (expected_user_volume_accumulator =
          info_key (ps_user_volume_accumulator accounts)) InvalidCashbackAccount) (\<lambda>_.
      let expected_cashback_ata = env_find_program_address env
        [expected_user_volume_accumulator, info_key (ps_quote_token_program accounts),
         info_key (ps_quote_mint accounts)] (env_associated_token_program env) in
      ensure (expected_cashback_ata = info_key (ps_user_volume_accumulator_wsol_ata accounts))
        InvalidCashbackAccount)
    else Ok ())))))))))))"

definition cashback_sell_is_ready :: "store \<Rightarrow> pump_swap_accounts \<Rightarrow> (program_error, bool) result" where
  "cashback_sell_is_ready st accounts =
    and_then (parse_pump_pool_prefix (info_data st (ps_pool accounts))) (\<lambda>pool.
    if \<not> prefix_is_cashback_coin pool then Ok True
    else
      let accumulator = info_data st (ps_user_volume_accumulator accounts);
          accumulator_is_valid =
            info_owner st (ps_user_volume_accumulator accounts) = PUMP_SWAP_PROGRAM_ID \<and>
            USER_VOLUME_ACCUMULATOR_CURRENT_LEN \<le> length accumulator \<and>
            slice accumulator 0 8 = Some USER_VOLUME_ACCUMULATOR_DISCRIMINATOR \<and>
            slice accumulator 8 32 = Some (info_key (ps_user accounts));
          cashback_ata = info_data st (ps_user_volume_accumulator_wsol_ata accounts);
          cashback_ata_is_valid =
            info_owner st (ps_user_volume_accumulator_wsol_ata accounts) =
              info_key (ps_quote_token_program accounts) \<and>
            TOKEN_ACCOUNT_LEN \<le> length cashback_ata \<and>
            slice cashback_ata 0 32 = Some (info_key (ps_quote_mint accounts)) \<and>
            slice cashback_ata 32 32 = Some (info_key (ps_user_volume_accumulator accounts)) in
      Ok (accumulator_is_valid \<and> cashback_ata_is_valid))"

section \<open>Calls\<close>

definition append_current_remaining_accounts ::
    "store \<Rightarrow> pump_swap_accounts \<Rightarrow> account_meta list \<Rightarrow> bool
      \<Rightarrow> (program_error, account_meta list) result" where
  "append_current_remaining_accounts st accounts metas is_buy =
    and_then (parse_pump_pool_prefix (info_data st (ps_pool accounts))) (\<lambda>pool.
    Ok (metas @
      (if prefix_is_cashback_coin pool
       then [meta_new (info_key (ps_user_volume_accumulator_wsol_ata accounts)) False] @
         (if \<not> is_buy then [meta_new (info_key (ps_user_volume_accumulator accounts)) False] else [])
       else []) @
      (if prefix_coin_creator pool \<noteq> default_pubkey
       then [meta_new_readonly (info_key (ps_pool_v2 accounts)) False] else []) @
      [meta_new_readonly (info_key (ps_buyback_fee_recipient accounts)) False,
       meta_new (info_key (ps_buyback_fee_recipient_token_account accounts)) False]))"

text \<open>The account infos that \<open>invoke\<close> hands to the runtime.\<close>

definition pump_infos ::
    "store \<Rightarrow> pump_swap_accounts \<Rightarrow> bool \<Rightarrow> (program_error, account_info list) result" where
  "pump_infos st accounts include_volume_accounts =
    and_then (parse_pump_pool_prefix (info_data st (ps_pool accounts))) (\<lambda>pool.
    Ok (
     [ps_pool accounts,
      ps_user accounts,
      ps_global_config accounts,
      ps_base_mint accounts,
      ps_quote_mint accounts,
      ps_user_base_token_account accounts,
      ps_user_quote_token_account accounts,
      ps_pool_base_token_account accounts,
      ps_pool_quote_token_account accounts,
      ps_protocol_fee_recipient accounts,
      ps_protocol_fee_recipient_token_account accounts,
      ps_base_token_program accounts,
      ps_quote_token_program accounts,
      ps_system_program accounts,
      ps_associated_token_program accounts,
      ps_event_authority accounts,
      ps_program accounts,
      ps_coin_creator_vault_ata accounts,
      ps_coin_creator_vault_authority accounts] @
     (if include_volume_accounts
      then [ps_global_volume_accumulator accounts, ps_user_volume_accumulator accounts] else []) @
     [ps_fee_config accounts, ps_fee_program accounts] @
     (if prefix_is_cashback_coin pool
      then [ps_user_volume_accumulator_wsol_ata accounts] @
        (if \<not> include_volume_accounts then [ps_user_volume_accumulator accounts] else [])
      else []) @
     (if prefix_coin_creator pool \<noteq> default_pubkey then [ps_pool_v2 accounts] else []) @
     [ps_buyback_fee_recipient accounts, ps_buyback_fee_recipient_token_account accounts]))"

definition pump_invoke ::
    "env \<Rightarrow> store \<Rightarrow> pump_swap_accounts \<Rightarrow> account_meta list \<Rightarrow> u8 list \<Rightarrow> bool
      \<Rightarrow> (program_error, store) result" where
  "pump_invoke env st accounts metas data include_volume_accounts =
    (let instruction = \<lparr>instr_program = PUMP_SWAP_PROGRAM_ID, instr_accounts = metas,
       instr_data = data\<rparr> in
     and_then (pump_infos st accounts include_volume_accounts) (\<lambda>infos.
     map_err CalledProgram (env_invoke env instruction infos st)))"

definition pump_buy_data :: "u64 \<Rightarrow> u64 \<Rightarrow> u8 list" where
  "pump_buy_data spendable_quote_in min_base_amount_out =
    PUMP_BUY_EXACT_QUOTE_IN_DISCRIMINATOR @ word_to_le spendable_quote_in
      @ word_to_le min_base_amount_out @ [0]"

definition pump_buy_metas :: "pump_swap_accounts \<Rightarrow> account_meta list" where
  "pump_buy_metas accounts =
    [
      meta_new (info_key (ps_pool accounts)) False,
      meta_new (info_key (ps_user accounts)) True,
      meta_new_readonly (info_key (ps_global_config accounts)) False,
      meta_new_readonly (info_key (ps_base_mint accounts)) False,
      meta_new_readonly (info_key (ps_quote_mint accounts)) False,
      meta_new (info_key (ps_user_base_token_account accounts)) False,
      meta_new (info_key (ps_user_quote_token_account accounts)) False,
      meta_new (info_key (ps_pool_base_token_account accounts)) False,
      meta_new (info_key (ps_pool_quote_token_account accounts)) False,
      meta_new_readonly (info_key (ps_protocol_fee_recipient accounts)) False,
      meta_new (info_key (ps_protocol_fee_recipient_token_account accounts)) False,
      meta_new_readonly (info_key (ps_base_token_program accounts)) False,
      meta_new_readonly (info_key (ps_quote_token_program accounts)) False,
      meta_new_readonly (info_key (ps_system_program accounts)) False,
      meta_new_readonly (info_key (ps_associated_token_program accounts)) False,
      meta_new_readonly (info_key (ps_event_authority accounts)) False,
      meta_new_readonly (info_key (ps_program accounts)) False,
      meta_new (info_key (ps_coin_creator_vault_ata accounts)) False,
      meta_new_readonly (info_key (ps_coin_creator_vault_authority accounts)) False,
      meta_new_readonly (info_key (ps_global_volume_accumulator accounts)) False,
      meta_new (info_key (ps_user_volume_accumulator accounts)) False,
      meta_new_readonly (info_key (ps_fee_config accounts)) False,
      meta_new_readonly (info_key (ps_fee_program accounts)) False
    ]"

definition pump_buy_exact_quote_in_call ::
    "env \<Rightarrow> store \<Rightarrow> pump_swap_accounts \<Rightarrow> u64 \<Rightarrow> u64 \<Rightarrow> (program_error, store) result" where
  "pump_buy_exact_quote_in_call env st accounts spendable_quote_in min_base_amount_out =
    and_then (pump_validate env st accounts) (\<lambda>_.
    and_then (append_current_remaining_accounts st accounts (pump_buy_metas accounts) True) (\<lambda>metas.
    pump_invoke env st accounts metas
      (pump_buy_data spendable_quote_in min_base_amount_out) True))"

definition pump_sell_data :: "u64 \<Rightarrow> u64 \<Rightarrow> u8 list" where
  "pump_sell_data base_amount_in min_quote_amount_out =
    PUMP_SELL_DISCRIMINATOR @ word_to_le base_amount_in @ word_to_le min_quote_amount_out"

definition pump_sell_metas :: "pump_swap_accounts \<Rightarrow> account_meta list" where
  "pump_sell_metas accounts =
    [
      meta_new (info_key (ps_pool accounts)) False,
      meta_new (info_key (ps_user accounts)) True,
      meta_new_readonly (info_key (ps_global_config accounts)) False,
      meta_new_readonly (info_key (ps_base_mint accounts)) False,
      meta_new_readonly (info_key (ps_quote_mint accounts)) False,
      meta_new (info_key (ps_user_base_token_account accounts)) False,
      meta_new (info_key (ps_user_quote_token_account accounts)) False,
      meta_new (info_key (ps_pool_base_token_account accounts)) False,
      meta_new (info_key (ps_pool_quote_token_account accounts)) False,
      meta_new_readonly (info_key (ps_protocol_fee_recipient accounts)) False,
      meta_new (info_key (ps_protocol_fee_recipient_token_account accounts)) False,
      meta_new_readonly (info_key (ps_base_token_program accounts)) False,
      meta_new_readonly (info_key (ps_quote_token_program accounts)) False,
      meta_new_readonly (info_key (ps_system_program accounts)) False,
      meta_new_readonly (info_key (ps_associated_token_program accounts)) False,
      meta_new_readonly (info_key (ps_event_authority accounts)) False,
      meta_new_readonly (info_key (ps_program accounts)) False,
      meta_new (info_key (ps_coin_creator_vault_ata accounts)) False,
      meta_new_readonly (info_key (ps_coin_creator_vault_authority accounts)) False,
      meta_new_readonly (info_key (ps_fee_config accounts)) False,
      meta_new_readonly (info_key (ps_fee_program accounts)) False
    ]"

definition pump_sell_call ::
    "env \<Rightarrow> store \<Rightarrow> pump_swap_accounts \<Rightarrow> u64 \<Rightarrow> u64 \<Rightarrow> (program_error, store) result" where
  "pump_sell_call env st accounts base_amount_in min_quote_amount_out =
    and_then (pump_validate env st accounts) (\<lambda>_.
    and_then (cashback_sell_is_ready st accounts) (\<lambda>ready.
    and_then (ensure ready InvalidCashbackAccount) (\<lambda>_.
    and_then (append_current_remaining_accounts st accounts (pump_sell_metas accounts) False)
      (\<lambda>metas.
    pump_invoke env st accounts metas
      (pump_sell_data base_amount_in min_quote_amount_out) False))))"

lemmas [eval_defs] =
  pump_validate_def cashback_sell_is_ready_def append_current_remaining_accounts_def
  pump_infos_def pump_invoke_def pump_buy_data_def pump_buy_metas_def
  pump_buy_exact_quote_in_call_def pump_sell_data_def pump_sell_metas_def pump_sell_call_def

section \<open>What a call names and guarantees\<close>

lemma metas_match_infos:
  assumes "append_current_remaining_accounts st accounts
      (if is_buy then pump_buy_metas accounts else pump_sell_metas accounts) is_buy = Ok metas"
    and "pump_infos st accounts is_buy = Ok infos"
  shows "map meta_key metas = map info_key infos"
  using assms
  by (cases is_buy)
    (auto simp: append_current_remaining_accounts_def pump_infos_def result_iff pump_buy_metas_def
      pump_sell_metas_def meta_new_def meta_new_readonly_def)

definition pump_pool_matches :: "store \<Rightarrow> pump_swap_accounts \<Rightarrow> pump_pool_prefix \<Rightarrow> bool" where
  "pump_pool_matches st accounts pool \<longleftrightarrow>
    info_key (ps_program accounts) = PUMP_SWAP_PROGRAM_ID \<and>
    info_executable st (ps_program accounts) \<and>
    info_key (ps_fee_program accounts) = PUMP_FEE_PROGRAM_ID \<and>
    info_executable st (ps_fee_program accounts) \<and>
    info_owner st (ps_pool accounts) = PUMP_SWAP_PROGRAM_ID \<and>
    parse_pump_pool_prefix (info_data st (ps_pool accounts)) = Ok pool \<and>
    prefix_base_mint pool = info_key (ps_base_mint accounts) \<and>
    prefix_quote_mint pool = info_key (ps_quote_mint accounts) \<and>
    prefix_base_vault pool = info_key (ps_pool_base_token_account accounts) \<and>
    prefix_quote_vault pool = info_key (ps_pool_quote_token_account accounts)"

definition derived_accounts_match :: "env \<Rightarrow> pump_swap_accounts \<Rightarrow> pump_pool_prefix \<Rightarrow> bool" where
  "derived_accounts_match env accounts pool \<longleftrightarrow>
    (prefix_coin_creator pool \<noteq> default_pubkey \<longrightarrow>
      env_find_program_address env [ascii ''pool-v2'', info_key (ps_base_mint accounts)]
        PUMP_SWAP_PROGRAM_ID = info_key (ps_pool_v2 accounts)) \<and>
    (prefix_is_cashback_coin pool \<longrightarrow>
      (let volume = env_find_program_address env
         [ascii ''user_volume_accumulator'', info_key (ps_user accounts)] PUMP_SWAP_PROGRAM_ID in
       volume = info_key (ps_user_volume_accumulator accounts) \<and>
       env_find_program_address env
         [volume, info_key (ps_quote_token_program accounts), info_key (ps_quote_mint accounts)]
         (env_associated_token_program env) =
         info_key (ps_user_volume_accumulator_wsol_ata accounts)))"

lemma pump_validate_Ok:
  "pump_validate env st accounts = Ok () \<longleftrightarrow>
    (\<exists>pool. pump_pool_matches st accounts pool \<and> derived_accounts_match env accounts pool)"
proof (cases "parse_pump_pool_prefix (info_data st (ps_pool accounts))")
  case (Ok pool)
  show ?thesis
    by (cases "prefix_coin_creator pool = default_pubkey"; cases "prefix_is_cashback_coin pool")
      (simp_all add: pump_validate_def pump_pool_matches_def derived_accounts_match_def Ok
        and_then_eq_Ok require_eq_Ok Let_def conj_assoc)
qed (simp_all add: pump_validate_def pump_pool_matches_def and_then_eq_Ok require_eq_Ok)

lemma pump_parts_no_panic:
  "pump_validate env st accounts \<noteq> Panic" "cashback_sell_is_ready st accounts \<noteq> Panic"
  "append_current_remaining_accounts st accounts metas is_buy \<noteq> Panic"
  "pump_infos st accounts is_buy \<noteq> Panic"
  by (auto simp: pump_validate_def cashback_sell_is_ready_def pump_infos_def Let_def
      append_current_remaining_accounts_def result_iff checks_no_panic)

interpretation pump_buy: swap_adapter pump_buy_exact_quote_in_call PUMP_SWAP_PROGRAM_ID pump_buy_data
proof
  show "\<exists>metas infos. map meta_key metas = map info_key infos \<and>
      env_invoke env \<lparr>instr_program = PUMP_SWAP_PROGRAM_ID, instr_accounts = metas,
        instr_data = pump_buy_data x y\<rparr> infos st = Ok st'"
    if "pump_buy_exact_quote_in_call env st a x y = Ok st'" for env st a x y st'
    using that metas_match_infos [of st a True]
    by (auto simp: pump_buy_exact_quote_in_call_def pump_invoke_def Let_def result_iff)
  show "\<exists>i infos. env_invoke env i infos st = Panic"
    if "pump_buy_exact_quote_in_call env st a x y = Panic" for env st a x y
    using that
    by (auto simp: pump_buy_exact_quote_in_call_def pump_invoke_def Let_def result_iff
        pump_parts_no_panic)
  show "x = x' \<and> y = y'" if "pump_buy_data x y = pump_buy_data x' y'" for x y x' y'
    using that by (simp only: pump_buy_data_def two_u64_inj)
qed

interpretation pump_sell: swap_adapter pump_sell_call PUMP_SWAP_PROGRAM_ID pump_sell_data
proof
  show "\<exists>metas infos. map meta_key metas = map info_key infos \<and>
      env_invoke env \<lparr>instr_program = PUMP_SWAP_PROGRAM_ID, instr_accounts = metas,
        instr_data = pump_sell_data x y\<rparr> infos st = Ok st'"
    if "pump_sell_call env st a x y = Ok st'" for env st a x y st'
    using that metas_match_infos [of st a False]
    by (auto simp: pump_sell_call_def pump_invoke_def Let_def result_iff)
  show "\<exists>i infos. env_invoke env i infos st = Panic"
    if "pump_sell_call env st a x y = Panic" for env st a x y
    using that
    by (auto simp: pump_sell_call_def pump_invoke_def Let_def result_iff pump_parts_no_panic)
  show "x = x' \<and> y = y'" if "pump_sell_data x y = pump_sell_data x' y'" for x y x' y'
    using that two_u64_inj [of PUMP_SELL_DISCRIMINATOR x y "[]" x' y'] by (simp add: pump_sell_data_def)
qed

end
