(* ===== verification/Meteora_Adapter.thy ===== *)
theory Meteora_Adapter
  imports Swap_Interface
begin

text \<open>
  \<^verbatim>\<open>adapters/meteora_dlmm.rs\<close>: the checks before a Meteora call, and the bytes, account metas and
  infos of \<open>swap2\<close>.
\<close>

record meteora_accounts =
  md_lb_pair :: account_info
  md_bin_array_bitmap_extension :: account_info
  md_reserve_x :: account_info
  md_reserve_y :: account_info
  md_user_token_in :: account_info
  md_user_token_out :: account_info
  md_token_x_mint :: account_info
  md_token_y_mint :: account_info
  md_oracle :: account_info
  md_host_fee_in :: account_info
  md_user :: account_info
  md_token_x_program :: account_info
  md_token_y_program :: account_info
  md_memo_program :: account_info
  md_event_authority :: account_info
  md_program :: account_info

fun validate_optional :: "store \<Rightarrow> account_info list \<Rightarrow> (program_error, unit) result" where
  "validate_optional st [] = Ok ()"
| "validate_optional st (optional # rest) =
    and_then
      (if info_key optional \<noteq> METEORA_DLMM_PROGRAM_ID
       then ensure (info_owner st optional = METEORA_DLMM_PROGRAM_ID) InvalidPool
       else Ok ()) (\<lambda>_. validate_optional st rest)"

definition meteora_validate ::
    "store \<Rightarrow> meteora_accounts \<Rightarrow> account_info list \<Rightarrow> (program_error, unit) result" where
  "meteora_validate st accounts bin_arrays =
    and_then (ensure (info_key (md_program accounts) = METEORA_DLMM_PROGRAM_ID)
      InvalidProgramId) (\<lambda>_.
    and_then (ensure (info_executable st (md_program accounts)) InvalidProgramId) (\<lambda>_.
    and_then (ensure (info_owner st (md_lb_pair accounts) = METEORA_DLMM_PROGRAM_ID)
      InvalidPool) (\<lambda>_.
    and_then (parse_meteora_pair (info_data st (md_lb_pair accounts))) (\<lambda>pair.
    and_then (ensure (pair_token_x_mint pair = info_key (md_token_x_mint accounts))
      InvalidTokenMint) (\<lambda>_.
    and_then (ensure (pair_token_y_mint pair = info_key (md_token_y_mint accounts))
      InvalidTokenMint) (\<lambda>_.
    and_then (ensure (pair_reserve_x pair = info_key (md_reserve_x accounts)) InvalidPool) (\<lambda>_.
    and_then (ensure (pair_reserve_y pair = info_key (md_reserve_y accounts)) InvalidPool) (\<lambda>_.
    and_then (validate_optional st
      [md_bin_array_bitmap_extension accounts, md_host_fee_in accounts]) (\<lambda>_.
    validate_bin_arrays st bin_arrays (info_key (md_lb_pair accounts)))))))))))"

definition swap2_data :: "u64 \<Rightarrow> u64 \<Rightarrow> u8 list" where
  "swap2_data amount_in min_amount_out =
    METEORA_SWAP2_DISCRIMINATOR @ word_to_le amount_in @ word_to_le min_amount_out
      @ word_to_le (2 :: u32) @ [0, 0, 1, 0]"

definition optional_meta :: "account_info \<Rightarrow> account_meta" where
  "optional_meta a =
    (if info_key a = METEORA_DLMM_PROGRAM_ID then meta_new_readonly (info_key a) False
     else meta_new (info_key a) False)"

definition swap2_metas :: "meteora_accounts \<Rightarrow> account_info list \<Rightarrow> account_meta list" where
  "swap2_metas accounts bin_arrays =
    [meta_new (info_key (md_lb_pair accounts)) False,
     optional_meta (md_bin_array_bitmap_extension accounts),
     meta_new (info_key (md_reserve_x accounts)) False,
     meta_new (info_key (md_reserve_y accounts)) False,
     meta_new (info_key (md_user_token_in accounts)) False,
     meta_new (info_key (md_user_token_out accounts)) False,
     meta_new_readonly (info_key (md_token_x_mint accounts)) False,
     meta_new_readonly (info_key (md_token_y_mint accounts)) False,
     meta_new (info_key (md_oracle accounts)) False,
     optional_meta (md_host_fee_in accounts),
     meta_new_readonly (info_key (md_user accounts)) True,
     meta_new_readonly (info_key (md_token_x_program accounts)) False,
     meta_new_readonly (info_key (md_token_y_program accounts)) False,
     meta_new_readonly (info_key (md_memo_program accounts)) False,
     meta_new_readonly (info_key (md_event_authority accounts)) False,
     meta_new_readonly (info_key (md_program accounts)) False] @
    map (\<lambda>a. meta_new (info_key a) False) bin_arrays"

definition swap2_infos :: "meteora_accounts \<Rightarrow> account_info list \<Rightarrow> account_info list" where
  "swap2_infos accounts bin_arrays =
    [md_lb_pair accounts, md_bin_array_bitmap_extension accounts, md_reserve_x accounts,
     md_reserve_y accounts, md_user_token_in accounts, md_user_token_out accounts,
     md_token_x_mint accounts, md_token_y_mint accounts, md_oracle accounts,
     md_host_fee_in accounts, md_user accounts, md_token_x_program accounts,
     md_token_y_program accounts, md_memo_program accounts, md_event_authority accounts,
     md_program accounts] @ bin_arrays"

definition swap2 ::
    "env \<Rightarrow> store \<Rightarrow> meteora_accounts \<times> account_info list \<Rightarrow> u64 \<Rightarrow> u64
      \<Rightarrow> (program_error, store) result" where
  "swap2 env st = (\<lambda>(accounts, bin_arrays) amount_in min_amount_out.
    and_then (meteora_validate st accounts bin_arrays) (\<lambda>_.
    let instruction = \<lparr>instr_program = METEORA_DLMM_PROGRAM_ID,
      instr_accounts = swap2_metas accounts bin_arrays,
      instr_data = swap2_data amount_in min_amount_out\<rparr> in
    map_err CalledProgram (env_invoke env instruction (swap2_infos accounts bin_arrays) st)))"

lemmas [eval_defs] =
  meteora_validate_def swap2_data_def optional_meta_def swap2_metas_def swap2_infos_def swap2_def

section \<open>What a call names and guarantees\<close>

lemma swap2_metas_match_infos:
  "map meta_key (swap2_metas accounts bin_arrays) = map info_key (swap2_infos accounts bin_arrays)"
  by (simp add: swap2_metas_def swap2_infos_def meta_new_def meta_new_readonly_def optional_meta_def)

lemma validate_no_panic:
  "validate_optional st as \<noteq> Panic" "validate_bin_arrays st bin_arrays k \<noteq> Panic"
proof -
  show "validate_optional st as \<noteq> Panic" by (induction as) (auto simp: result_iff)
  have seen: "validate_distinct st index seen \<noteq> Panic" for index seen
    by (induction seen) (auto simp: result_iff checks_no_panic)
  have "validate_bin_arrays_from st k seen arrays \<noteq> Panic" for seen arrays
    by (induction arrays arbitrary: seen) (auto simp: result_iff checks_no_panic seen)
  then show "validate_bin_arrays st bin_arrays k \<noteq> Panic"
    by (auto simp: validate_bin_arrays_def validate_bin_array_count_def result_iff)
qed

lemma meteora_validate_no_panic: "meteora_validate st accounts bin_arrays \<noteq> Panic"
  by (auto simp: meteora_validate_def result_iff checks_no_panic validate_no_panic)

definition meteora_pair_matches :: "store \<Rightarrow> meteora_accounts \<Rightarrow> bool" where
  "meteora_pair_matches st accounts \<longleftrightarrow>
    info_key (md_program accounts) = METEORA_DLMM_PROGRAM_ID \<and>
    info_executable st (md_program accounts) \<and>
    info_owner st (md_lb_pair accounts) = METEORA_DLMM_PROGRAM_ID \<and>
    parse_meteora_pair (info_data st (md_lb_pair accounts)) =
      Ok \<lparr>pair_token_x_mint = info_key (md_token_x_mint accounts),
         pair_token_y_mint = info_key (md_token_y_mint accounts),
         pair_reserve_x = info_key (md_reserve_x accounts),
         pair_reserve_y = info_key (md_reserve_y accounts)\<rparr>"

definition owned_or_sentinel :: "store \<Rightarrow> account_info \<Rightarrow> bool" where
  "owned_or_sentinel st a \<longleftrightarrow>
    info_key a = METEORA_DLMM_PROGRAM_ID \<or> info_owner st a = METEORA_DLMM_PROGRAM_ID"

lemma meteora_validate_Ok:
  "meteora_validate st accounts bin_arrays = Ok () \<longleftrightarrow>
    meteora_pair_matches st accounts \<and>
    owned_or_sentinel st (md_bin_array_bitmap_extension accounts) \<and>
    owned_or_sentinel st (md_host_fee_in accounts) \<and>
    validate_bin_arrays st bin_arrays (info_key (md_lb_pair accounts)) = Ok ()"
  by (auto simp: meteora_validate_def meteora_pair_matches_def owned_or_sentinel_def result_iff)

interpretation meteora_swap: swap_adapter swap2 METEORA_DLMM_PROGRAM_ID swap2_data
proof
  show "\<exists>metas infos. map meta_key metas = map info_key infos \<and>
      env_invoke env \<lparr>instr_program = METEORA_DLMM_PROGRAM_ID, instr_accounts = metas,
        instr_data = swap2_data x y\<rparr> infos st = Ok st'"
    if "swap2 env st a x y = Ok st'" for env st a x y st'
    using that swap2_metas_match_infos
    by (fastforce simp: swap2_def Let_def result_iff split: prod.splits)
  show "\<exists>i infos. env_invoke env i infos st = Panic"
    if "swap2 env st a x y = Panic" for env st a x y
    using that
    by (auto simp: swap2_def Let_def result_iff meteora_validate_no_panic split: prod.splits)
  show "x = x' \<and> y = y'" if "swap2_data x y = swap2_data x' y'" for x y x' y'
    using that by (simp only: swap2_data_def two_u64_inj)
qed

end
