(* ===== verification/Route.thy ===== *)
theory Route
  imports Pump_Adapter Meteora_Adapter
begin

text \<open>
  The instructions with a fixed direction: the accounts of \<^verbatim>\<open>ExecuteRoute\<close> with their Anchor constraints
  (\<^verbatim>\<open>instructions/mod.rs\<close>), the argument and profit checks (\<^verbatim>\<open>post_trade_checks.rs\<close>), and the two
  handlers (\<^verbatim>\<open>pump_to_meteora.rs\<close>, \<^verbatim>\<open>meteora_to_pump.rs\<close>), which are one sequence of two legs in the
  two orders.  The theorems say what a completed route guarantees whatever the DEX programs do.
\<close>

section \<open>The accounts of a route\<close>

record execute_route =
  er_trader :: account_info
  er_wsol_mint :: account_info
  er_target_mint :: account_info
  er_user_wsol :: account_info
  er_user_target :: account_info
  er_wsol_token_program :: account_info
  er_target_token_program :: account_info
  er_system_program :: account_info
  er_associated_token_program :: account_info
  er_pump_program :: account_info
  er_pump_pool :: account_info
  er_pump_global_config :: account_info
  er_pump_pool_base_token_account :: account_info
  er_pump_pool_quote_token_account :: account_info
  er_pump_protocol_fee_recipient :: account_info
  er_pump_protocol_fee_recipient_token_account :: account_info
  er_pump_event_authority :: account_info
  er_pump_coin_creator_vault_ata :: account_info
  er_pump_coin_creator_vault_authority :: account_info
  er_pump_global_volume_accumulator :: account_info
  er_pump_user_volume_accumulator :: account_info
  er_pump_user_volume_accumulator_wsol_ata :: account_info
  er_pump_fee_config :: account_info
  er_pump_fee_program :: account_info
  er_pump_pool_v2 :: account_info
  er_pump_buyback_fee_recipient :: account_info
  er_pump_buyback_fee_recipient_token_account :: account_info
  er_meteora_program :: account_info
  er_meteora_lb_pair :: account_info
  er_meteora_bin_array_bitmap_extension :: account_info
  er_meteora_reserve_x :: account_info
  er_meteora_reserve_y :: account_info
  er_meteora_oracle :: account_info
  er_meteora_host_fee_in :: account_info
  er_memo_program :: account_info
  er_meteora_event_authority :: account_info
  er_target_mint_supply :: u64

text \<open>The constraints of \<^verbatim>\<open>#[derive(Accounts)]\<close> that are written in the source, in field order; Anchor
  checks the signer while it reads the accounts, before the constraints.\<close>

definition writable :: "account_info \<Rightarrow> (program_error, unit) result" where
  "writable a = require (info_is_writable a) ConstraintMut"

fun all_writable :: "account_info list \<Rightarrow> (program_error, unit) result" where
  "all_writable [] = Ok ()"
| "all_writable (a # rest) = and_then (writable a) (\<lambda>_. all_writable rest)"

definition execute_route_constraints ::
    "env \<Rightarrow> execute_route \<Rightarrow> exec \<Rightarrow> (program_error, unit) result" where
  "execute_route_constraints env r s =
    and_then (require (info_is_signer (er_trader r)) AccountNotSigner) (\<lambda>_.
    and_then (writable (er_trader r)) (\<lambda>_.
    and_then (require (info_key (er_wsol_mint r) = WSOL_MINT) ConstraintAddress) (\<lambda>_.
    and_then (ensure (info_key (er_target_mint r) \<noteq> WSOL_MINT) InvalidTokenMint) (\<lambda>_.
    and_then (writable (er_user_wsol r)) (\<lambda>_.
    and_then (ensure (token_owner (exec_wsol s) = info_key (er_trader r))
      InvalidTokenAccountOwner) (\<lambda>_.
    and_then (ensure (token_mint (exec_wsol s) = info_key (er_wsol_mint r)) InvalidTokenMint) (\<lambda>_.
    and_then (writable (er_user_target r)) (\<lambda>_.
    and_then (ensure (token_owner (exec_target s) = info_key (er_trader r))
      InvalidTokenAccountOwner) (\<lambda>_.
    and_then (ensure (token_mint (exec_target s) = info_key (er_target_mint r))
      InvalidTokenMint) (\<lambda>_.
    and_then (ensure (info_key (er_wsol_token_program r) = env_token_program env)
      UnsupportedTokenProgram) (\<lambda>_.
    and_then (ensure (info_key (er_pump_program r) = PUMP_SWAP_PROGRAM_ID) InvalidProgramId) (\<lambda>_.
    and_then (all_writable
      [er_pump_pool r, er_pump_pool_base_token_account r, er_pump_pool_quote_token_account r,
       er_pump_protocol_fee_recipient_token_account r, er_pump_coin_creator_vault_ata r,
       er_pump_user_volume_accumulator r, er_pump_user_volume_accumulator_wsol_ata r]) (\<lambda>_.
    and_then (ensure (info_key (er_pump_fee_program r) = PUMP_FEE_PROGRAM_ID)
      InvalidProgramId) (\<lambda>_.
    and_then (writable (er_pump_buyback_fee_recipient_token_account r)) (\<lambda>_.
    and_then (ensure (info_key (er_meteora_program r) = METEORA_DLMM_PROGRAM_ID)
      InvalidProgramId) (\<lambda>_.
    and_then (all_writable
      [er_meteora_lb_pair r, er_meteora_bin_array_bitmap_extension r, er_meteora_reserve_x r,
       er_meteora_reserve_y r, er_meteora_oracle r, er_meteora_host_fee_in r]) (\<lambda>_.
    ensure (info_key (er_memo_program r) = MEMO_PROGRAM_ID) InvalidProgramId)))))))))))))))))"

definition pump_accounts :: "execute_route \<Rightarrow> pump_swap_accounts" where
  "pump_accounts r =
    \<lparr>ps_pool = er_pump_pool r,
     ps_user = er_trader r,
     ps_global_config = er_pump_global_config r,
     ps_base_mint = er_target_mint r,
     ps_quote_mint = er_wsol_mint r,
     ps_user_base_token_account = er_user_target r,
     ps_user_quote_token_account = er_user_wsol r,
     ps_pool_base_token_account = er_pump_pool_base_token_account r,
     ps_pool_quote_token_account = er_pump_pool_quote_token_account r,
     ps_protocol_fee_recipient = er_pump_protocol_fee_recipient r,
     ps_protocol_fee_recipient_token_account = er_pump_protocol_fee_recipient_token_account r,
     ps_base_token_program = er_target_token_program r,
     ps_quote_token_program = er_wsol_token_program r,
     ps_system_program = er_system_program r,
     ps_associated_token_program = er_associated_token_program r,
     ps_event_authority = er_pump_event_authority r,
     ps_program = er_pump_program r,
     ps_coin_creator_vault_ata = er_pump_coin_creator_vault_ata r,
     ps_coin_creator_vault_authority = er_pump_coin_creator_vault_authority r,
     ps_global_volume_accumulator = er_pump_global_volume_accumulator r,
     ps_user_volume_accumulator = er_pump_user_volume_accumulator r,
     ps_user_volume_accumulator_wsol_ata = er_pump_user_volume_accumulator_wsol_ata r,
     ps_fee_config = er_pump_fee_config r,
     ps_fee_program = er_pump_fee_program r,
     ps_pool_v2 = er_pump_pool_v2 r,
     ps_buyback_fee_recipient = er_pump_buyback_fee_recipient r,
     ps_buyback_fee_recipient_token_account = er_pump_buyback_fee_recipient_token_account r\<rparr>"

definition meteora_accounts_of ::
    "store \<Rightarrow> execute_route \<Rightarrow> account_info \<Rightarrow> account_info \<Rightarrow> meteora_accounts" where
  "meteora_accounts_of st r input output =
    (let target_is_x =
       (case parse_meteora_pair (info_data st (er_meteora_lb_pair r)) of
         Ok pair \<Rightarrow> pair_token_x_mint pair = info_key (er_target_mint r)
       | _ \<Rightarrow> False);
      (token_x, token_y, token_x_program, token_y_program) =
        (if target_is_x
         then (er_target_mint r, er_wsol_mint r, er_target_token_program r, er_wsol_token_program r)
         else (er_wsol_mint r, er_target_mint r, er_wsol_token_program r, er_target_token_program r))
     in
    \<lparr>md_lb_pair = er_meteora_lb_pair r,
     md_bin_array_bitmap_extension = er_meteora_bin_array_bitmap_extension r,
     md_reserve_x = er_meteora_reserve_x r,
     md_reserve_y = er_meteora_reserve_y r,
     md_user_token_in = input,
     md_user_token_out = output,
     md_token_x_mint = token_x,
     md_token_y_mint = token_y,
     md_oracle = er_meteora_oracle r,
     md_host_fee_in = er_meteora_host_fee_in r,
     md_user = er_trader r,
     md_token_x_program = token_x_program,
     md_token_y_program = token_y_program,
     md_memo_program = er_memo_program r,
     md_event_authority = er_meteora_event_authority r,
     md_program = er_meteora_program r\<rparr>)"

definition validate_route_mints :: "env \<Rightarrow> execute_route \<Rightarrow> exec \<Rightarrow> (program_error, unit) result" where
  "validate_route_mints env r s =
    (let st = exec_store s in
     and_then (validate_route_token_programs env st (er_wsol_mint r) (er_target_mint r)
       (er_user_wsol r) (er_user_target r) (info_key (er_wsol_token_program r))
       (info_key (er_target_token_program r))) (\<lambda>_.
     and_then (validate_supported_target_mint env st (er_target_mint r)) (\<lambda>_.
     and_then (validate_user_token_fields (token_owner (exec_wsol s)) (token_mint (exec_wsol s))
       (info_key (er_trader r)) WSOL_MINT) (\<lambda>_.
     and_then (validate_user_token_fields (token_owner (exec_target s)) (token_mint (exec_target s))
       (info_key (er_trader r)) (info_key (er_target_mint r))) (\<lambda>_.
     and_then (parse_meteora_pair (info_data st (er_meteora_lb_pair r))) (\<lambda>pair.
     ensure
       (pair_token_x_mint pair = info_key (er_target_mint r) \<and> pair_token_y_mint pair = WSOL_MINT \<or>
        pair_token_y_mint pair = info_key (er_target_mint r) \<and> pair_token_x_mint pair = WSOL_MINT)
       InvalidRouteAccounts))))))"

section \<open>Arguments and profit\<close>

record route_args =
  wsol_amount_in :: u64
  min_profit_lamports :: u64

definition validate_args :: "u64 \<Rightarrow> u64 \<Rightarrow> (program_error, unit) result" where
  "validate_args amount min_profit =
    and_then (ensure (0 < amount) InvalidAmount) (\<lambda>_. ensure (0 < min_profit) InvalidAmount)"

definition required_second_leg_out :: "u64 \<Rightarrow> u64 \<Rightarrow> u64 \<Rightarrow> (program_error, u64) result" where
  "required_second_leg_out initial_wsol wsol_before_second_leg min_profit =
    map_ok (\<lambda>required_final_wsol.
        max (saturating_sub required_final_wsol wsol_before_second_leg) 1)
      (ok_or (Arb ArithmeticOverflow) (checked_add initial_wsol min_profit))"

definition enforce :: "u64 \<Rightarrow> u64 \<Rightarrow> u64 \<Rightarrow> u64 \<Rightarrow> u64 \<Rightarrow> (program_error, unit) result" where
  "enforce initial_wsol final_wsol min_profit initial_target final_target =
    and_then (ok_or (Arb ArithmeticOverflow) (checked_add initial_wsol min_profit))
      (\<lambda>required_final_wsol.
    and_then (ensure (required_final_wsol \<le> final_wsol) ProfitTooLow) (\<lambda>_.
    ensure (final_target = initial_target) TargetBalanceNotRestored))"

section \<open>The two legs\<close>

definition reload_wsol :: "env \<Rightarrow> execute_route \<Rightarrow> exec \<Rightarrow> (program_error, exec) result" where
  "reload_wsol env r s =
    map_ok (\<lambda>fields. s \<lparr>exec_wsol := fields\<rparr>)
      (ok_or AccountDidNotDeserialize (env_reload env (exec_store s (info_key (er_user_wsol r)))))"

definition reload_target :: "env \<Rightarrow> execute_route \<Rightarrow> exec \<Rightarrow> (program_error, exec) result" where
  "reload_target env r s =
    map_ok (\<lambda>fields. s \<lparr>exec_target := fields\<rparr>)
      (ok_or AccountDidNotDeserialize (env_reload env (exec_store s (info_key (er_user_target r)))))"

text \<open>The common body of the two \<open>execute\<close> functions.\<close>

definition execute_legs ::
    "env \<Rightarrow> execute_route \<Rightarrow> route_direction \<Rightarrow> (store \<Rightarrow> (program_error, store) result)
      \<Rightarrow> (store \<Rightarrow> u64 \<Rightarrow> u64 \<Rightarrow> (program_error, store) result) \<Rightarrow> u64 \<Rightarrow> exec
      \<Rightarrow> (program_error, exec) result" where
  "execute_legs env r direction first_leg second_leg min_profit s =
    (let initial_wsol = token_balance (exec_wsol s);
         initial_target = token_balance (exec_target s);
         trader = info_key (er_trader r);
         mint = info_key (er_target_mint r);
         s = emit (RouteStarted direction trader mint initial_wsol) s in
     and_then (first_leg (exec_store s)) (\<lambda>st.
     and_then (reload_target env r (s \<lparr>exec_store := st\<rparr>)) (\<lambda>s.
     and_then (checked_increase initial_target (token_balance (exec_target s)))
       (\<lambda>actual_target_delta.
     and_then (reload_wsol env r (emit (FirstLegCompleted direction actual_target_delta) s)) (\<lambda>s.
     let wsol_before_second_leg = token_balance (exec_wsol s) in
     and_then (required_second_leg_out initial_wsol wsol_before_second_leg min_profit)
       (\<lambda>required_out.
     and_then (second_leg (exec_store s) actual_target_delta required_out) (\<lambda>st.
     and_then (reload_wsol env r (s \<lparr>exec_store := st\<rparr>)) (\<lambda>s.
     and_then (checked_increase wsol_before_second_leg (token_balance (exec_wsol s)))
       (\<lambda>second_leg_wsol_delta.
     let final_wsol = token_balance (exec_wsol s) in
     and_then (reload_target env r (emit (SecondLegCompleted direction second_leg_wsol_delta) s))
       (\<lambda>s.
     and_then (enforce initial_wsol final_wsol min_profit initial_target
         (token_balance (exec_target s))) (\<lambda>_.
     Ok (emit (RouteCompleted
       \<lparr>done_direction = direction, done_trader = trader, done_target_mint = mint,
        done_initial_wsol_balance = initial_wsol, done_final_wsol_balance = final_wsol,
        done_first_leg_target_delta = actual_target_delta,
        done_second_leg_wsol_delta = second_leg_wsol_delta\<rparr>) s))))))))))))"

definition pump_to_meteora_execute ::
    "env \<Rightarrow> execute_route \<Rightarrow> account_info list \<Rightarrow> u64 \<Rightarrow> u64 \<Rightarrow> exec \<Rightarrow> (program_error, exec) result" where
  "pump_to_meteora_execute env r bin_arrays amount min_profit =
    execute_legs env r PumpToMeteora
      (\<lambda>st. pump_buy_exact_quote_in_call env st (pump_accounts r) amount 1)
      (\<lambda>st delta required_out.
        swap2 env st (meteora_accounts_of st r (er_user_target r) (er_user_wsol r), bin_arrays)
          delta required_out)
      min_profit"

definition meteora_to_pump_execute ::
    "env \<Rightarrow> execute_route \<Rightarrow> account_info list \<Rightarrow> u64 \<Rightarrow> u64 \<Rightarrow> exec \<Rightarrow> (program_error, exec) result" where
  "meteora_to_pump_execute env r bin_arrays amount min_profit =
    execute_legs env r MeteoraToPump
      (\<lambda>st. swap2 env st (meteora_accounts_of st r (er_user_wsol r) (er_user_target r), bin_arrays)
        amount 1)
      (\<lambda>st delta required_out. pump_sell_call env st (pump_accounts r) delta required_out)
      min_profit"

definition pump_to_meteora_handler ::
    "env \<Rightarrow> execute_route \<Rightarrow> account_info list \<Rightarrow> route_args \<Rightarrow> exec \<Rightarrow> (program_error, exec) result" where
  "pump_to_meteora_handler env r remaining args s =
    and_then (validate_args (wsol_amount_in args) (min_profit_lamports args)) (\<lambda>_.
    and_then (validate_route_mints env r s) (\<lambda>_.
    pump_to_meteora_execute env r remaining (wsol_amount_in args) (min_profit_lamports args) s))"

definition meteora_to_pump_handler ::
    "env \<Rightarrow> execute_route \<Rightarrow> account_info list \<Rightarrow> route_args \<Rightarrow> exec \<Rightarrow> (program_error, exec) result" where
  "meteora_to_pump_handler env r remaining args s =
    and_then (validate_args (wsol_amount_in args) (min_profit_lamports args)) (\<lambda>_.
    and_then (validate_route_mints env r s) (\<lambda>_.
    meteora_to_pump_execute env r remaining (wsol_amount_in args) (min_profit_lamports args) s))"

lemmas [eval_defs] =
  writable_def execute_route_constraints_def pump_accounts_def meteora_accounts_of_def
  validate_route_mints_def validate_args_def required_second_leg_out_def enforce_def
  reload_wsol_def reload_target_def execute_legs_def pump_to_meteora_execute_def
  meteora_to_pump_execute_def pump_to_meteora_handler_def meteora_to_pump_handler_def

section \<open>Profit\<close>

lemma enforce_Ok:
  "enforce initial final profit t t' = Ok () \<longleftrightarrow>
    unat initial + unat profit \<le> unat final \<and> t' = t"
proof (cases "checked_add initial profit")
  case None
  then have "\<not> unat initial + unat profit \<le> unat final"
    using unat_lt_exp [of final] by (simp add: checked_add_None del: unat_lt_exp)
  with None show ?thesis by (simp add: enforce_def)
next
  case (Some x)
  then show ?thesis
    by (auto simp: enforce_def result_iff word_le_nat_alt checked_add_Some)
qed

lemma required_second_leg_out_Ok:
  "required_second_leg_out initial before profit = Ok required \<Longrightarrow>
    unat required = max (unat initial + unat profit - unat before) 1"
  by (auto simp: required_second_leg_out_def result_iff checked_add_Some unat_saturating_sub
      unat_max)

section \<open>A completed route\<close>

lemma reload_wsol_Ok:
  "reload_wsol env r s = Ok s' \<longleftrightarrow>
    (\<exists>fields. env_reload env (exec_store s (info_key (er_user_wsol r))) = Some fields \<and>
      s' = s \<lparr>exec_wsol := fields\<rparr>)"
  by (auto simp: reload_wsol_def result_iff)

lemma reload_target_Ok:
  "reload_target env r s = Ok s' \<longleftrightarrow>
    (\<exists>fields. env_reload env (exec_store s (info_key (er_user_target r))) = Some fields \<and>
      s' = s \<lparr>exec_target := fields\<rparr>)"
  by (auto simp: reload_target_def result_iff)

text \<open>The trace of a completed route, in the order of the source.\<close>

definition route_trace ::
    "env \<Rightarrow> execute_route \<Rightarrow> route_direction \<Rightarrow> (store \<Rightarrow> (program_error, store) result)
      \<Rightarrow> (store \<Rightarrow> u64 \<Rightarrow> u64 \<Rightarrow> (program_error, store) result) \<Rightarrow> u64 \<Rightarrow> exec \<Rightarrow> exec
      \<Rightarrow> store \<Rightarrow> token_fields \<Rightarrow> token_fields \<Rightarrow> u64 \<Rightarrow> u64 \<Rightarrow> u64 \<Rightarrow> bool" where
  "route_trace env r direction first second profit s s' st1 target1 wsol1 delta required delta2 \<longleftrightarrow>
    first (exec_store s) = Ok st1 \<and>
    env_reload env (st1 (info_key (er_user_target r))) = Some target1 \<and>
    checked_increase (token_balance (exec_target s)) (token_balance target1) = Ok delta \<and>
    env_reload env (st1 (info_key (er_user_wsol r))) = Some wsol1 \<and>
    required_second_leg_out (token_balance (exec_wsol s)) (token_balance wsol1) profit = Ok required \<and>
    second st1 delta required = Ok (exec_store s') \<and>
    env_reload env (exec_store s' (info_key (er_user_wsol r))) = Some (exec_wsol s') \<and>
    checked_increase (token_balance wsol1) (token_balance (exec_wsol s')) = Ok delta2 \<and>
    env_reload env (exec_store s' (info_key (er_user_target r))) = Some (exec_target s') \<and>
    enforce (token_balance (exec_wsol s)) (token_balance (exec_wsol s')) profit
      (token_balance (exec_target s)) (token_balance (exec_target s')) = Ok () \<and>
    exec_events s' = exec_events s @
      [RouteStarted direction (info_key (er_trader r)) (info_key (er_target_mint r))
         (token_balance (exec_wsol s)),
       FirstLegCompleted direction delta,
       SecondLegCompleted direction delta2,
       RouteCompleted
         \<lparr>done_direction = direction, done_trader = info_key (er_trader r),
          done_target_mint = info_key (er_target_mint r),
          done_initial_wsol_balance = token_balance (exec_wsol s),
          done_final_wsol_balance = token_balance (exec_wsol s'),
          done_first_leg_target_delta = delta, done_second_leg_wsol_delta = delta2\<rparr>]"

lemma execute_legs_trace:
  assumes "execute_legs env r direction first second profit s = Ok s'"
  shows "\<exists>st1 target1 wsol1 delta required delta2.
    route_trace env r direction first second profit s s' st1 target1 wsol1 delta required delta2"
  using assms unfolding execute_legs_def Let_def route_trace_def
  by (auto simp: and_then_eq_Ok reload_wsol_Ok reload_target_Ok)

lemma execute_legs_complete:
  assumes "route_trace env r direction first second profit s s' st1 target1 wsol1 delta required delta2"
  shows "execute_legs env r direction first second profit s = Ok s'"
  using assms unfolding execute_legs_def Let_def route_trace_def
  by (cases s') (simp add: and_then_eq_Ok reload_wsol_Ok reload_target_Ok emit_def)

section \<open>A sample environment\<close>

text \<open>Two DEX programs that move fixed amounts: a swap of either direction that spends WSOL leaves 90
  of 100 WSOL and 7 target tokens, the swap back leaves 120 WSOL and 5 target tokens.  Balances are
  the first byte of a token account.\<close>

definition sample_reload :: "account \<Rightarrow> token_fields option" where
  "sample_reload a =
    (case acc_data a of
      [] \<Rightarrow> None
    | b # _ \<Rightarrow> Some \<lparr>token_mint = [], token_owner = [], token_balance = ucast b\<rparr>)"

definition sample_token :: "u8 \<Rightarrow> account" where
  "sample_token b = \<lparr>acc_owner = [], acc_executable = False, acc_data = [b]\<rparr>"

definition sample_invoke :: "instr \<Rightarrow> account_info list \<Rightarrow> store \<Rightarrow> (nat, store) result" where
  "sample_invoke i infos st =
    (if acc_data (st [1]) = [100] then Ok (st([1] := sample_token 90, [2] := sample_token 7))
     else Ok (st([1] := sample_token 120, [2] := sample_token 5)))"

definition sample_env :: env where
  "sample_env =
    \<lparr>env_find_program_address = (\<lambda>_ _. []), env_token_program = [9], env_token_2022_program = [10],
     env_associated_token_program = [11], env_mint_extensions = (\<lambda>_. None),
     env_reload = sample_reload, env_invoke = sample_invoke, env_clock = Some 0\<rparr>"

definition plain_info :: "pubkey \<Rightarrow> account_info" where
  "plain_info k = \<lparr>info_key = k, info_is_signer = False, info_is_writable = True\<rparr>"

definition sample_pool_data :: "u8 list" where
  "sample_pool_data = PUMP_POOL_DISCRIMINATOR @ replicate 235 0"

definition sample_pair_data :: "u8 list" where
  "sample_pair_data = METEORA_LB_PAIR_DISCRIMINATOR @ replicate 208 0"

definition sample_array_data :: "u8 list" where
  "sample_array_data = METEORA_BIN_ARRAY_DISCRIMINATOR @ replicate 48 0"

definition sample_store :: store where
  "sample_store =
    (\<lambda>_. \<lparr>acc_owner = [], acc_executable = True, acc_data = []\<rparr>)
      ([1] := sample_token 100, [2] := sample_token 5,
       [3] := \<lparr>acc_owner = PUMP_SWAP_PROGRAM_ID, acc_executable = False,
               acc_data = sample_pool_data\<rparr>,
       default_pubkey := \<lparr>acc_owner = METEORA_DLMM_PROGRAM_ID, acc_executable = False,
               acc_data = sample_pair_data\<rparr>,
       [4] := \<lparr>acc_owner = METEORA_DLMM_PROGRAM_ID, acc_executable = False,
               acc_data = sample_array_data\<rparr>)"

definition sample_exec :: exec where
  "sample_exec = \<lparr>exec_store = sample_store,
    exec_wsol = \<lparr>token_mint = [], token_owner = [], token_balance = 100\<rparr>,
    exec_target = \<lparr>token_mint = [], token_owner = [], token_balance = 5\<rparr>, exec_events = []\<rparr>"

definition sample_route :: execute_route where
  "sample_route =
    \<lparr>er_trader = plain_info [5],
     er_wsol_mint = plain_info default_pubkey,
     er_target_mint = plain_info default_pubkey,
     er_user_wsol = plain_info [1],
     er_user_target = plain_info [2],
     er_wsol_token_program = plain_info default_pubkey,
     er_target_token_program = plain_info default_pubkey,
     er_system_program = plain_info default_pubkey,
     er_associated_token_program = plain_info default_pubkey,
     er_pump_program = plain_info PUMP_SWAP_PROGRAM_ID,
     er_pump_pool = plain_info [3],
     er_pump_global_config = plain_info default_pubkey,
     er_pump_pool_base_token_account = plain_info default_pubkey,
     er_pump_pool_quote_token_account = plain_info default_pubkey,
     er_pump_protocol_fee_recipient = plain_info default_pubkey,
     er_pump_protocol_fee_recipient_token_account = plain_info default_pubkey,
     er_pump_event_authority = plain_info default_pubkey,
     er_pump_coin_creator_vault_ata = plain_info default_pubkey,
     er_pump_coin_creator_vault_authority = plain_info default_pubkey,
     er_pump_global_volume_accumulator = plain_info default_pubkey,
     er_pump_user_volume_accumulator = plain_info default_pubkey,
     er_pump_user_volume_accumulator_wsol_ata = plain_info default_pubkey,
     er_pump_fee_config = plain_info default_pubkey,
     er_pump_fee_program = plain_info PUMP_FEE_PROGRAM_ID,
     er_pump_pool_v2 = plain_info default_pubkey,
     er_pump_buyback_fee_recipient = plain_info default_pubkey,
     er_pump_buyback_fee_recipient_token_account = plain_info default_pubkey,
     er_meteora_program = plain_info METEORA_DLMM_PROGRAM_ID,
     er_meteora_lb_pair = plain_info default_pubkey,
     er_meteora_bin_array_bitmap_extension = plain_info default_pubkey,
     er_meteora_reserve_x = plain_info default_pubkey,
     er_meteora_reserve_y = plain_info default_pubkey,
     er_meteora_oracle = plain_info default_pubkey,
     er_meteora_host_fee_in = plain_info default_pubkey,
     er_memo_program = plain_info default_pubkey,
     er_meteora_event_authority = plain_info default_pubkey,
     er_target_mint_supply = 0\<rparr>"

lemma sample_pool: "parse_pump_pool_prefix sample_pool_data =
  Ok \<lparr>prefix_base_mint = default_pubkey, prefix_quote_mint = default_pubkey,
     prefix_base_vault = default_pubkey, prefix_quote_vault = default_pubkey,
     prefix_coin_creator = default_pubkey, prefix_is_cashback_coin = False\<rparr>"
  by (simp add: parse_pump_pool_prefix_def check_discriminator_def read_pubkey_eq slice_def
      require_def sample_pool_data_def PUMP_POOL_DISCRIMINATOR_def default_pubkey_def)

lemma sample_pair_prefix: "parse_meteora_pair sample_pair_data =
  Ok \<lparr>pair_token_x_mint = default_pubkey, pair_token_y_mint = default_pubkey,
     pair_reserve_x = default_pubkey, pair_reserve_y = default_pubkey\<rparr>"
  by (simp add: parse_meteora_pair_Ok sample_pair_data_def METEORA_LB_PAIR_DISCRIMINATOR_def default_pubkey_def)

text \<open>A store that keeps the protocol accounts of the sample passes the checks of both adapters.\<close>

definition keeps_protocols :: "store \<Rightarrow> bool" where
  "keeps_protocols st \<longleftrightarrow> (\<forall>k. k \<noteq> [1] \<longrightarrow> k \<noteq> [2] \<longrightarrow> st k = sample_store k)"

lemma sample_keys:
  "[b] \<noteq> default_pubkey" "PUMP_SWAP_PROGRAM_ID \<noteq> default_pubkey"
  "PUMP_FEE_PROGRAM_ID \<noteq> default_pubkey" "METEORA_DLMM_PROGRAM_ID \<noteq> default_pubkey"
  "PUMP_SWAP_PROGRAM_ID \<noteq> [b]" "PUMP_FEE_PROGRAM_ID \<noteq> [b]" "METEORA_DLMM_PROGRAM_ID \<noteq> [b]"
proof -
  have "hd default_pubkey = 0" by (simp add: default_pubkey_def hd_replicate)
  moreover have "hd PUMP_SWAP_PROGRAM_ID \<noteq> 0" "hd PUMP_FEE_PROGRAM_ID \<noteq> 0"
      "hd METEORA_DLMM_PROGRAM_ID \<noteq> 0"
    by (simp_all add: PUMP_SWAP_PROGRAM_ID_def PUMP_FEE_PROGRAM_ID_def METEORA_DLMM_PROGRAM_ID_def)
  ultimately show "PUMP_SWAP_PROGRAM_ID \<noteq> default_pubkey" "PUMP_FEE_PROGRAM_ID \<noteq> default_pubkey"
      "METEORA_DLMM_PROGRAM_ID \<noteq> default_pubkey"
    by metis+
  show "[b] \<noteq> default_pubkey" by (simp add: default_pubkey_def list_eq_iff_nth_eq)
qed (simp_all add: PUMP_SWAP_PROGRAM_ID_def PUMP_FEE_PROGRAM_ID_def METEORA_DLMM_PROGRAM_ID_def)

lemma sample_env_simps:
  "env_invoke sample_env = sample_invoke" "env_reload sample_env = sample_reload"
  by (simp_all add: sample_env_def)

lemma sample_lookups:
  assumes "keeps_protocols st"
  shows "st [3] = \<lparr>acc_owner = PUMP_SWAP_PROGRAM_ID, acc_executable = False,
      acc_data = sample_pool_data\<rparr>"
    "st default_pubkey = \<lparr>acc_owner = METEORA_DLMM_PROGRAM_ID, acc_executable = False,
      acc_data = sample_pair_data\<rparr>"
    "st [4] = \<lparr>acc_owner = METEORA_DLMM_PROGRAM_ID, acc_executable = False,
      acc_data = sample_array_data\<rparr>"
    "acc_executable (st PUMP_SWAP_PROGRAM_ID)" "acc_executable (st PUMP_FEE_PROGRAM_ID)"
    "acc_executable (st METEORA_DLMM_PROGRAM_ID)"
  using assms sample_keys
  by (simp_all add: keeps_protocols_def sample_store_def sample_keys [symmetric])

lemma sample_pump_validate:
  assumes "keeps_protocols st"
  shows "pump_validate sample_env st (pump_accounts sample_route) = Ok ()"
  unfolding pump_validate_Ok
  by (intro exI [of _ "\<lparr>prefix_base_mint = default_pubkey, prefix_quote_mint = default_pubkey,
      prefix_base_vault = default_pubkey, prefix_quote_vault = default_pubkey,
      prefix_coin_creator = default_pubkey, prefix_is_cashback_coin = False\<rparr>"])
    (simp add: pump_pool_matches_def derived_accounts_match_def pump_accounts_def
      sample_route_def plain_info_def info_owner_def info_data_def info_executable_def
      sample_pool sample_lookups [OF assms])

lemma sample_bin_array:
  "take 8 sample_array_data = METEORA_BIN_ARRAY_DISCRIMINATOR"
  "take 32 (drop 24 sample_array_data) = default_pubkey" "length sample_array_data = 56"
  by (simp_all add: sample_array_data_def METEORA_BIN_ARRAY_DISCRIMINATOR_def default_pubkey_def)

lemma sample_meteora_validate:
  assumes "keeps_protocols st"
  shows "meteora_validate st (meteora_accounts_of st sample_route i j) [plain_info [4]] = Ok ()"
  unfolding meteora_validate_Ok validate_bin_arrays_Ok
  by (simp add: meteora_pair_matches_def owned_or_sentinel_def meteora_accounts_of_def
      sample_route_def plain_info_def info_owner_def info_data_def info_executable_def
      sample_pair_prefix bin_array_of_def sample_bin_array sample_lookups [OF assms])

text \<open>The store after the first leg and after the second, whatever the direction.\<close>

abbreviation sample_mid :: store where
  "sample_mid \<equiv> sample_store([1] := sample_token 90, [2] := sample_token 7)"

abbreviation sample_end :: store where
  "sample_end \<equiv> sample_mid([1] := sample_token 120, [2] := sample_token 5)"

lemma sample_keeps: "keeps_protocols sample_store" "keeps_protocols sample_mid"
  by (simp_all add: keeps_protocols_def)

lemma sample_invoked:
  "sample_invoke i infos sample_store = Ok sample_mid" "sample_invoke i infos sample_mid = Ok sample_end"
  by (simp_all add: sample_invoke_def sample_store_def sample_token_def sample_keys)

lemma sample_pump_calls:
  "pump_buy_exact_quote_in_call sample_env sample_store (pump_accounts sample_route) 10 1 = Ok sample_mid"
  "pump_sell_call sample_env sample_mid (pump_accounts sample_route) 2 20 = Ok sample_end"
proof -
  have infos: "\<exists>infos. pump_infos st (pump_accounts sample_route) buy = Ok infos"
    "\<exists>metas. append_current_remaining_accounts st (pump_accounts sample_route) ms buy = Ok metas"
    "cashback_sell_is_ready st (pump_accounts sample_route) = Ok True"
    if "keeps_protocols st" for st ms buy
    by (simp_all add: pump_infos_def append_current_remaining_accounts_def cashback_sell_is_ready_def
        pump_accounts_def sample_route_def plain_info_def info_data_def sample_lookups [OF that] sample_pool)
  show "pump_buy_exact_quote_in_call sample_env sample_store (pump_accounts sample_route) 10 1 = Ok sample_mid"
    using infos(1) [OF sample_keeps(1), of True] infos(2) [OF sample_keeps(1), of "pump_buy_metas (pump_accounts sample_route)" True]
    by (auto simp: pump_buy_exact_quote_in_call_def sample_pump_validate [OF sample_keeps(1)]
        pump_invoke_def Let_def sample_env_simps sample_invoked)
  show "pump_sell_call sample_env sample_mid (pump_accounts sample_route) 2 20 = Ok sample_end"
    using infos(1) [OF sample_keeps(2), of False] infos(2) [OF sample_keeps(2), of "pump_sell_metas (pump_accounts sample_route)" False]
      infos(3) [OF sample_keeps(2)]
    by (auto simp: pump_sell_call_def sample_pump_validate [OF sample_keeps(2)] require_def
        pump_invoke_def Let_def sample_env_simps sample_invoked)
qed

lemma sample_swaps:
  "swap2 sample_env sample_store (meteora_accounts_of sample_store sample_route i j, [plain_info [4]]) 10 1
    = Ok sample_mid"
  "swap2 sample_env sample_mid (meteora_accounts_of sample_mid sample_route i j, [plain_info [4]]) 2 20
    = Ok sample_end"
  by (simp_all only: swap2_def sample_meteora_validate [OF sample_keeps(1)]
      sample_meteora_validate [OF sample_keeps(2)] Let_def fst_conv snd_conv prod.case and_then.simps)
    (simp_all add: sample_env_simps sample_invoked)

lemma sample_route_keys:
  "info_key (er_user_wsol sample_route) = [1]" "info_key (er_user_target sample_route) = [2]"
  "info_key (er_trader sample_route) = [5]" "info_key (er_target_mint sample_route) = default_pubkey"
  by (simp_all add: sample_route_def plain_info_def)

lemma sample_reloads:
  "sample_reload (sample_token b) = Some \<lparr>token_mint = [], token_owner = [], token_balance = ucast b\<rparr>"
  by (simp add: sample_reload_def sample_token_def)

text \<open>Both directions run to the end: the trader spends 10 of 100, gets 30 and so ends with 120.\<close>

lemma sample_legs:
  assumes "first sample_store = Ok sample_mid" "second sample_mid 2 20 = Ok sample_end"
  shows "\<exists>s'. execute_legs sample_env sample_route direction first second 10 sample_exec = Ok s' \<and>
    token_balance (exec_wsol s') = 120 \<and> token_balance (exec_target s') = 5"
proof -
  have sums: "checked_increase 5 7 = Ok 2" "checked_increase 90 120 = Ok 30"
      "required_second_leg_out 100 90 10 = Ok 20" "enforce 100 120 10 5 5 = Ok ()"
    by (simp_all add: checked_increase_def required_second_leg_out_def enforce_def eval_defs)
  obtain s' where s': "route_trace sample_env sample_route direction first second 10 sample_exec s' sample_mid
      \<lparr>token_mint = [], token_owner = [], token_balance = 7\<rparr>
      \<lparr>token_mint = [], token_owner = [], token_balance = 90\<rparr> 2 20 30"
    "token_balance (exec_wsol s') = 120" "token_balance (exec_target s') = 5"
    by (rule that [of "\<lparr>exec_store = sample_end,
        exec_wsol = \<lparr>token_mint = [], token_owner = [], token_balance = 120\<rparr>,
        exec_target = \<lparr>token_mint = [], token_owner = [], token_balance = 5\<rparr>,
        exec_events = _\<rparr>"])
      (simp_all add: route_trace_def assms sample_route_keys sample_env_simps sample_reloads sums sample_exec_def)
  from execute_legs_complete [OF s'(1)] s'(2,3) show ?thesis by blast
qed

lemma sample_run:
  "\<exists>s'. pump_to_meteora_execute sample_env sample_route [plain_info [4]] 10 10 sample_exec = Ok s' \<and>
    token_balance (exec_wsol s') = 120 \<and> token_balance (exec_target s') = 5"
  "\<exists>s'. meteora_to_pump_execute sample_env sample_route [plain_info [4]] 10 10 sample_exec = Ok s' \<and>
    token_balance (exec_wsol s') = 120 \<and> token_balance (exec_target s') = 5"
  unfolding pump_to_meteora_execute_def meteora_to_pump_execute_def
  by (rule sample_legs; simp add: sample_pump_calls sample_swaps)+

lemma execute_legs_no_panic:
  assumes "execute_legs env r direction first second profit s = Panic"
  shows "\<exists>st. first st = Panic \<or> (\<exists>delta required. second st delta required = Panic)"
  using assms
  by (auto simp: execute_legs_def Let_def result_iff reload_wsol_def reload_target_def
      checked_increase_def required_second_leg_out_def enforce_def)

section \<open>Properties\<close>

text \<open>C16. The central guarantee of the program: whatever the two legs do to the accounts, a route that
  completes ends with at least the initial WSOL balance plus the demanded profit, as re-read from the
  account, and with exactly the initial target balance; every other outcome is an error, which
  reverts the transaction.\<close>

theorem route_profitable:
  assumes "execute_legs env r direction first second profit s = Ok s'"
  shows "unat (token_balance (exec_wsol s)) + unat profit \<le> unat (token_balance (exec_wsol s')) \<and>
    token_balance (exec_target s') = token_balance (exec_target s) \<and>
    env_reload env (exec_store s' (info_key (er_user_wsol r))) = Some (exec_wsol s') \<and>
    env_reload env (exec_store s' (info_key (er_user_target r))) = Some (exec_target s')"
  using execute_legs_trace [OF assms] by (auto simp: route_trace_def enforce_Ok)

theorem route_profitable_witness:
  "\<exists>s'. pump_to_meteora_execute sample_env sample_route [plain_info [4]] 10 10 sample_exec = Ok s' \<and>
    unat (token_balance (exec_wsol sample_exec)) + unat (10 :: u64)
      \<le> unat (token_balance (exec_wsol s')) \<and>
    token_balance (exec_target s') = token_balance (exec_target sample_exec) \<and>
    env_reload sample_env (exec_store s' (info_key (er_user_wsol sample_route))) = Some (exec_wsol s')"
proof -
  obtain s' where s': "pump_to_meteora_execute sample_env sample_route [plain_info [4]] 10 10 sample_exec
      = Ok s'"
    using sample_run(1) by blast
  from route_profitable [OF this [unfolded pump_to_meteora_execute_def]] s' show ?thesis
    by (intro exI [where x = s'] conjI) simp_all
qed

text \<open>C17. A completed route emits exactly its four events, in order, and every number in them is a balance
  re-read from the accounts or the difference of two: the first leg's delta is what the target
  balance rose by during the first call, the second leg's delta is what the WSOL balance rose by during
  the second call, both positive; the balances of the last event are those before the first and after the
  second call, and they differ by at least the demanded profit.  The second call was given the first delta
  and the minimum derived from the WSOL balance between the calls.\<close>

theorem route_events:
  assumes "execute_legs env r direction first second profit s = Ok s'"
  shows "\<exists>delta delta2 mid target1 wsol1 required.
    exec_events s' = exec_events s @
      [RouteStarted direction (info_key (er_trader r)) (info_key (er_target_mint r))
         (token_balance (exec_wsol s)),
       FirstLegCompleted direction delta,
       SecondLegCompleted direction delta2,
       RouteCompleted
         \<lparr>done_direction = direction, done_trader = info_key (er_trader r),
          done_target_mint = info_key (er_target_mint r),
          done_initial_wsol_balance = token_balance (exec_wsol s),
          done_final_wsol_balance = token_balance (exec_wsol s'),
          done_first_leg_target_delta = delta, done_second_leg_wsol_delta = delta2\<rparr>] \<and>
    first (exec_store s) = Ok mid \<and> second mid delta required = Ok (exec_store s') \<and>
    env_reload env (mid (info_key (er_user_target r))) = Some target1 \<and>
    env_reload env (mid (info_key (er_user_wsol r))) = Some wsol1 \<and>
    required_second_leg_out (token_balance (exec_wsol s)) (token_balance wsol1) profit = Ok required \<and>
    env_reload env (exec_store s' (info_key (er_user_wsol r))) = Some (exec_wsol s') \<and>
    0 < delta \<and> unat (token_balance target1) = unat (token_balance (exec_target s)) + unat delta \<and>
    0 < delta2 \<and> unat (token_balance (exec_wsol s')) = unat (token_balance wsol1) + unat delta2 \<and>
    unat (token_balance (exec_wsol s)) + unat profit \<le> unat (token_balance (exec_wsol s'))"
proof -
  obtain mid target1 wsol1 delta required delta2 where
    trace: "route_trace env r direction first second profit s s' mid target1 wsol1 delta required delta2"
    using execute_legs_trace [OF assms] by blast
  then have inc: "checked_increase (token_balance (exec_target s)) (token_balance target1) = Ok delta"
      "checked_increase (token_balance wsol1) (token_balance (exec_wsol s')) = Ok delta2"
    by (auto simp: route_trace_def)
  from checked_increase_unat [OF inc(1)] checked_increase_unat [OF inc(2)] trace show ?thesis
    unfolding route_trace_def enforce_Ok
    by - (rule exI [where x = delta], rule exI [where x = delta2], rule exI [where x = mid],
        rule exI [where x = target1], rule exI [where x = wsol1], rule exI [where x = required],
        simp add: word_less_nat_alt)
qed

theorem route_events_witness:
  "\<exists>s' delta delta2. pump_to_meteora_execute sample_env sample_route [plain_info [4]] 10 10 sample_exec = Ok s' \<and>
    exec_events s' =
      [RouteStarted PumpToMeteora [5] default_pubkey 100, FirstLegCompleted PumpToMeteora delta,
       SecondLegCompleted PumpToMeteora delta2,
       RouteCompleted
         \<lparr>done_direction = PumpToMeteora, done_trader = [5], done_target_mint = default_pubkey,
          done_initial_wsol_balance = 100, done_final_wsol_balance = 120,
          done_first_leg_target_delta = delta, done_second_leg_wsol_delta = delta2\<rparr>] \<and>
    unat delta = 2 \<and> unat delta2 = 30"
proof -
  obtain s' where s': "pump_to_meteora_execute sample_env sample_route [plain_info [4]] 10 10 sample_exec
      = Ok s'" "token_balance (exec_wsol s') = 120"
    using sample_run(1) by blast
  from route_events [OF s'(1) [unfolded pump_to_meteora_execute_def]] s' show ?thesis
    by (auto simp: sample_pump_calls sample_exec_def sample_env_simps sample_route_keys sample_reloads)
qed

text \<open>C18. The minimum output demanded of the second leg is exactly right: the profit check after the
  leg passes if and only if the leg's WSOL gain reaches that minimum.\<close>

theorem second_leg_minimum_exact:
  assumes "required_second_leg_out initial before profit = Ok required"
    and "checked_increase before final = Ok gain"
  shows "enforce initial final profit t t = Ok () \<longleftrightarrow> required \<le> gain"
  using required_second_leg_out_Ok [OF assms(1)] checked_increase_unat [OF assms(2)]
  by (auto simp: enforce_Ok word_le_nat_alt)

theorem second_leg_minimum_exact_witness:
  "enforce 100 120 10 5 5 = Ok () \<longleftrightarrow> (20 :: u64) \<le> 30"
  by (rule second_leg_minimum_exact [of 100 90 10 20 120 30])
    (simp_all add: checked_increase_def required_second_leg_out_def eval_defs)

text \<open>C19. A completed Pump-to-Meteora route is exactly two program calls: PumpSwap with the whole WSOL
  amount and a minimum of 1, then Meteora with exactly the target tokens that the first call
  delivered and the minimum derived from the profit; both calls name their accounts in the order
  of their infos, and the store at the end is what the second call left.\<close>

theorem pump_to_meteora_calls:
  assumes "pump_to_meteora_execute env r bin_arrays amount profit s = Ok s'"
  shows "\<exists>st1 target1 wsol1 delta required metas1 infos1 metas2 infos2.
    env_invoke env \<lparr>instr_program = PUMP_SWAP_PROGRAM_ID, instr_accounts = metas1,
      instr_data = pump_buy_data amount 1\<rparr> infos1 (exec_store s) = Ok st1 \<and>
    env_reload env (st1 (info_key (er_user_target r))) = Some target1 \<and>
    unat (token_balance target1) = unat (token_balance (exec_target s)) + unat delta \<and>
    env_reload env (st1 (info_key (er_user_wsol r))) = Some wsol1 \<and>
    required_second_leg_out (token_balance (exec_wsol s)) (token_balance wsol1) profit
      = Ok required \<and>
    env_invoke env \<lparr>instr_program = METEORA_DLMM_PROGRAM_ID, instr_accounts = metas2,
      instr_data = swap2_data delta required\<rparr> infos2 st1 = Ok (exec_store s') \<and>
    map meta_key metas1 = map info_key infos1 \<and> map meta_key metas2 = map info_key infos2"
proof -
  obtain st1 target1 wsol1 delta required delta2 where
    t: "pump_buy_exact_quote_in_call env (exec_store s) (pump_accounts r) amount 1 = Ok st1"
      "env_reload env (st1 (info_key (er_user_target r))) = Some target1"
      "checked_increase (token_balance (exec_target s)) (token_balance target1) = Ok delta"
      "env_reload env (st1 (info_key (er_user_wsol r))) = Some wsol1"
      "required_second_leg_out (token_balance (exec_wsol s)) (token_balance wsol1) profit = Ok required"
      "swap2 env st1 (meteora_accounts_of st1 r (er_user_target r) (er_user_wsol r), bin_arrays)
        delta required = Ok (exec_store s')"
    using execute_legs_trace [OF assms [unfolded pump_to_meteora_execute_def]]
    unfolding route_trace_def by blast
  from pump_buy.swap_calls [OF t(1)] meteora_swap.swap_calls [OF t(6)]
    checked_increase_unat [OF t(3)] t(2,4,5)
  show ?thesis by blast
qed

theorem pump_to_meteora_calls_witness:
  "\<exists>st1 metas1 infos1.
    env_invoke sample_env \<lparr>instr_program = PUMP_SWAP_PROGRAM_ID, instr_accounts = metas1,
      instr_data = pump_buy_data 10 1\<rparr> infos1 (exec_store sample_exec) = Ok st1 \<and>
    map meta_key metas1 = map info_key infos1"
proof -
  obtain s' where "pump_to_meteora_execute sample_env sample_route [plain_info [4]] 10 10 sample_exec
      = Ok s'"
    using sample_run(1) by blast
  from pump_to_meteora_calls [OF this] show ?thesis
    by (elim exE conjE) (intro exI conjI)
qed

text \<open>C20. A completed Meteora-to-Pump route is the mirror image: Meteora with the whole WSOL amount and a
  minimum of 1, then PumpSwap's sell with exactly the delivered target tokens and the derived
  minimum.\<close>

theorem meteora_to_pump_calls:
  assumes "meteora_to_pump_execute env r bin_arrays amount profit s = Ok s'"
  shows "\<exists>st1 target1 wsol1 delta required metas1 infos1 metas2 infos2.
    env_invoke env \<lparr>instr_program = METEORA_DLMM_PROGRAM_ID, instr_accounts = metas1,
      instr_data = swap2_data amount 1\<rparr> infos1 (exec_store s) = Ok st1 \<and>
    env_reload env (st1 (info_key (er_user_target r))) = Some target1 \<and>
    unat (token_balance target1) = unat (token_balance (exec_target s)) + unat delta \<and>
    env_reload env (st1 (info_key (er_user_wsol r))) = Some wsol1 \<and>
    required_second_leg_out (token_balance (exec_wsol s)) (token_balance wsol1) profit
      = Ok required \<and>
    env_invoke env \<lparr>instr_program = PUMP_SWAP_PROGRAM_ID, instr_accounts = metas2,
      instr_data = pump_sell_data delta required\<rparr> infos2 st1 = Ok (exec_store s') \<and>
    map meta_key metas1 = map info_key infos1 \<and> map meta_key metas2 = map info_key infos2"
proof -
  obtain st1 target1 wsol1 delta required delta2 where
    t: "swap2 env (exec_store s) (meteora_accounts_of (exec_store s) r (er_user_wsol r)
        (er_user_target r), bin_arrays) amount 1 = Ok st1"
      "env_reload env (st1 (info_key (er_user_target r))) = Some target1"
      "checked_increase (token_balance (exec_target s)) (token_balance target1) = Ok delta"
      "env_reload env (st1 (info_key (er_user_wsol r))) = Some wsol1"
      "required_second_leg_out (token_balance (exec_wsol s)) (token_balance wsol1) profit = Ok required"
      "pump_sell_call env st1 (pump_accounts r) delta required = Ok (exec_store s')"
    using execute_legs_trace [OF assms [unfolded meteora_to_pump_execute_def]]
    unfolding route_trace_def by blast
  from meteora_swap.swap_calls [OF t(1)] pump_sell.swap_calls [OF t(6)]
    checked_increase_unat [OF t(3)] t(2,4,5)
  show ?thesis by blast
qed

theorem meteora_to_pump_calls_witness:
  "\<exists>s' delta required metas2 infos2.
    meteora_to_pump_execute sample_env sample_route [plain_info [4]] 10 10 sample_exec = Ok s' \<and>
    token_balance (exec_wsol s') = 120 \<and> unat delta = 2 \<and> required = 20 \<and>
    env_invoke sample_env \<lparr>instr_program = PUMP_SWAP_PROGRAM_ID, instr_accounts = metas2,
      instr_data = pump_sell_data delta required\<rparr> infos2 sample_mid = Ok (exec_store s') \<and>
    map meta_key metas2 = map info_key infos2"
proof -
  obtain s' where s': "meteora_to_pump_execute sample_env sample_route [plain_info [4]] 10 10 sample_exec
      = Ok s'" "token_balance (exec_wsol s') = 120"
    using sample_run(2) by blast
  have "required_second_leg_out 100 90 10 = Ok 20"
    by (simp add: required_second_leg_out_def eval_defs)
  with meteora_to_pump_calls [OF s'(1)] s' show ?thesis
    by (auto simp: sample_invoked sample_exec_def sample_env_simps sample_route_keys sample_reloads)
qed

text \<open>A route panics only if a program it calls does: with called programs that return or fail, neither
  direction panics, on any accounts, bytes and amounts.\<close>

lemma route_never_panics:
  assumes "\<And>i infos st. env_invoke env i infos st \<noteq> Panic"
  shows "pump_to_meteora_execute env r bin_arrays amount profit s \<noteq> Panic \<and>
    meteora_to_pump_execute env r bin_arrays amount profit s \<noteq> Panic"
proof -
  have legs: "pump_buy_exact_quote_in_call env st a x y \<noteq> Panic"
      "pump_sell_call env st a x y \<noteq> Panic" "swap2 env st b x y \<noteq> Panic" for st a b x y
    using assms by (simp_all add: pump_buy.swap_no_panic pump_sell.swap_no_panic meteora_swap.swap_no_panic)
  show ?thesis
    unfolding pump_to_meteora_execute_def meteora_to_pump_execute_def
    by (auto dest!: execute_legs_no_panic simp: legs)
qed

end
