(* ===== verification/Dlmm_Accounts.thy ===== *)
theory Dlmm_Accounts
  imports Byte_Codec
begin

text \<open>
  The DLMM side of \<^verbatim>\<open>quote/accounts.rs\<close>: the pair and bin-array accounts, bin addressing, the
  bitmaps of initialised arrays, and the state of the variable fee.
\<close>

section \<open>Data\<close>

definition BIN_SIZE :: usize where "BIN_SIZE = 144"
definition BIN_ARRAY_HEADER_SIZE :: usize where "BIN_ARRAY_HEADER_SIZE = 48"
definition MAX_QUOTE_BIN_ARRAYS_PER_DIRECTION :: usize where
  "MAX_QUOTE_BIN_ARRAYS_PER_DIRECTION = 2"
definition MAX_QUOTE_VISITED_BINS_PER_DIRECTION :: usize where
  "MAX_QUOTE_VISITED_BINS_PER_DIRECTION = 16"

record dlmm_static_parameters =
  base_factor :: u16
  filter_period :: u16
  decay_period :: u16
  reduction_factor :: u16
  variable_fee_control :: u32
  max_volatility_accumulator :: u32
  protocol_share :: u16
  base_fee_power_factor :: u8
  function_type :: u8
  collect_fee_mode :: u8

record dlmm_variable_parameters =
  volatility_accumulator :: u32
  volatility_reference :: u32
  index_reference :: i32
  last_update_timestamp :: i64

record lb_pair_state =
  static_parameters :: dlmm_static_parameters
  variable_parameters :: dlmm_variable_parameters
  active_id :: i32
  bin_step :: u16
  bitmap :: "u64 list"
  rewards_are_empty :: bool

record parsed_bin_array =
  array_index :: i64
  array_bins :: "(u8 \<times> bin) list"

section \<open>Parsing\<close>

definition PAIR_BASE :: usize where "PAIR_BASE = 8"

definition parse_static_parameters ::
    "u8 list \<Rightarrow> (quote_error, dlmm_static_parameters) result" where
  "parse_static_parameters data =
    (let base = PAIR_BASE in
     and_then (read_u16 data base) (\<lambda>base_factor.
     and_then (read_u16 data (base + 2)) (\<lambda>filter_period.
     and_then (read_u16 data (base + 4)) (\<lambda>decay_period.
     and_then (read_u16 data (base + 6)) (\<lambda>reduction_factor.
     and_then (read_u32 data (base + 8)) (\<lambda>variable_fee_control.
     and_then (read_u32 data (base + 12)) (\<lambda>max_volatility_accumulator.
     and_then (read_u16 data (base + 24)) (\<lambda>protocol_share.
     and_then (get_byte data (base + 26)) (\<lambda>base_fee_power_factor.
     and_then (get_byte data (base + 27)) (\<lambda>function_type.
     and_then (get_byte data (base + 28)) (\<lambda>collect_fee_mode.
     Ok \<lparr>base_factor = base_factor, filter_period = filter_period, decay_period = decay_period,
        reduction_factor = reduction_factor, variable_fee_control = variable_fee_control,
        max_volatility_accumulator = max_volatility_accumulator, protocol_share = protocol_share,
        base_fee_power_factor = base_fee_power_factor, function_type = function_type,
        collect_fee_mode = collect_fee_mode\<rparr>)))))))))))"

definition parse_variable_parameters ::
    "u8 list \<Rightarrow> (quote_error, dlmm_variable_parameters) result" where
  "parse_variable_parameters data =
    (let variable_base = PAIR_BASE + 32 in
     and_then (read_u32 data variable_base) (\<lambda>volatility_accumulator.
     and_then (read_u32 data (variable_base + 4)) (\<lambda>volatility_reference.
     and_then (read_i32 data (variable_base + 8)) (\<lambda>index_reference.
     and_then (read_i64 data (variable_base + 16)) (\<lambda>last_update_timestamp.
     Ok \<lparr>volatility_accumulator = volatility_accumulator,
        volatility_reference = volatility_reference, index_reference = index_reference,
        last_update_timestamp = last_update_timestamp\<rparr>)))))"

definition parse_lb_pair :: "u8 list \<Rightarrow> (quote_error, lb_pair_state) result" where
  "parse_lb_pair data =
    (let base = PAIR_BASE; bitmap_base = base + 576 in
     and_then (parse_static_parameters data) (\<lambda>static_parameters.
     and_then (parse_variable_parameters data) (\<lambda>variable_parameters.
     and_then (collect (\<lambda>index. read_u64 data (bitmap_base + index * 8)) [0..<16]) (\<lambda>bitmap.
     and_then (bytes 32 data (base + 256)) (\<lambda>first_reward_mint.
     and_then (bytes 32 data (base + 400)) (\<lambda>second_reward_mint.
     and_then (read_i32 data (base + 68)) (\<lambda>active_id.
     and_then (read_u16 data (base + 72)) (\<lambda>bin_step.
     Ok \<lparr>static_parameters = static_parameters, variable_parameters = variable_parameters,
        active_id = active_id, bin_step = bin_step, bitmap = bitmap,
        rewards_are_empty = (first_reward_mint = replicate 32 0 \<and>
          second_reward_mint = replicate 32 0)\<rparr>))))))))"

definition parse_bin :: "u8 list \<Rightarrow> usize \<Rightarrow> usize \<Rightarrow> (quote_error, bin) result" where
  "parse_bin data bins_base bin_index =
    and_then (ok_or MathOverflow (checked_usize (bin_index * BIN_SIZE))) (\<lambda>relative.
    and_then (ok_or MathOverflow (checked_usize (bins_base + relative))) (\<lambda>offset.
    and_then (read_u64 data offset) (\<lambda>amount_x.
    and_then (read_u64 data (offset + 8)) (\<lambda>amount_y.
    and_then (read_u128 data (offset + 16)) (\<lambda>price_q64.
    and_then (read_u64 data (offset + 112)) (\<lambda>open_order_amount.
    and_then (read_u64 data (offset + 128)) (\<lambda>processed_order_remaining_amount.
    and_then (get_byte data (offset + 140)) (\<lambda>ask_side.
    Ok \<lparr>price_q64 = price_q64, amount_x = amount_x, amount_y = amount_y,
       open_order_amount = open_order_amount,
       processed_order_remaining_amount = processed_order_remaining_amount,
       limit_order_ask_side = (ask_side \<noteq> 0)\<rparr>))))))))"

definition parse_bin_array_index :: "u8 list \<Rightarrow> (quote_error, i64) result" where
  "parse_bin_array_index data = read_i64 data 8"

definition parse_bin_array :: "u8 list \<Rightarrow> (quote_error, parsed_bin_array) result" where
  "parse_bin_array data =
    and_then (parse_bin_array_index data) (\<lambda>index.
    let bins_base = 8 + BIN_ARRAY_HEADER_SIZE in
    and_then (collect (\<lambda>bin_index.
        map_ok (Pair (of_nat bin_index)) (parse_bin data bins_base bin_index)) [0..<70]) (\<lambda>bins.
    Ok \<lparr>array_index = index, array_bins = bins\<rparr>))"

definition parse_bin_array_window ::
    "u8 list \<Rightarrow> i32 \<Rightarrow> (quote_error, parsed_bin_array) result" where
  "parse_bin_array_window data active =
    and_then (parse_bin_array_index data) (\<lambda>index.
    let bins_base = 8 + BIN_ARRAY_HEADER_SIZE;
        lower = saturate_i32 (active - int (MAX_QUOTE_VISITED_BINS_PER_DIRECTION - 1));
        upper = saturate_i32 (active + int (MAX_QUOTE_VISITED_BINS_PER_DIRECTION - 1)) in
    and_then (collect (\<lambda>bin_index.
        and_then (ok_or MathOverflow (Option.bind (checked_i64 (index * 70))
          (\<lambda>value. checked_i64 (value + int bin_index)))) (\<lambda>absolute_id.
        if lower \<le> absolute_id \<and> absolute_id \<le> upper
        then map_ok (\<lambda>b. [(of_nat bin_index, b)]) (parse_bin data bins_base bin_index)
        else Ok [])) [0..<70]) (\<lambda>bins.
    Ok \<lparr>array_index = index, array_bins = concat bins\<rparr>))"

section \<open>Addressing bins and bin arrays\<close>

text \<open>\<open>div_euclid(70)\<close> is the flooring division of HOL, the divisor being positive.\<close>

definition bin_array_index :: "i32 \<Rightarrow> i64" where
  "bin_array_index bin_id = bin_id div 70"

definition bin_offset :: "i32 \<Rightarrow> i64 \<Rightarrow> (quote_error, usize) result" where
  "bin_offset bin_id index =
    and_then (ok_or MathOverflow (checked_i64 (index * 70))) (\<lambda>base.
    and_then (ok_or MathOverflow (checked_i64 (bin_id - base))) (\<lambda>offset.
    if \<not> (0 \<le> offset \<and> offset < 70) then Err InvalidInput
    else Ok (nat offset)))"

definition parse_bin_for_id :: "u8 list \<Rightarrow> i32 \<Rightarrow> i64 \<Rightarrow> (quote_error, bin) result" where
  "parse_bin_for_id data bin_id index =
    and_then (bin_offset bin_id index) (\<lambda>bin_index.
      parse_bin data (8 + BIN_ARRAY_HEADER_SIZE) bin_index)"

definition in_default_bitmap :: "i64 \<Rightarrow> bool" where
  "in_default_bitmap index \<longleftrightarrow> - 512 \<le> index \<and> index \<le> 511"

text \<open>The bitmap is an array of 16 words in the source, so the access is always in range.\<close>

definition default_bitmap_contains :: "u64 list \<Rightarrow> i64 \<Rightarrow> bool" where
  "default_bitmap_contains words index =
    (if \<not> in_default_bitmap index then False
     else
       let b = nat (index + 512) in
       and (words ! (b div 64)) (push_bit (b mod 64) 1) \<noteq> 0)"

definition extension_bitmap_contains :: "u8 list \<Rightarrow> i64 \<Rightarrow> (quote_error, bool) result" where
  "extension_bitmap_contains data index =
    (let bitmap_words = 512; extension_chunks = 12; header = 8 + 32; side_bytes = 12 * 8 * 8 in
     if in_default_bitmap index then Ok False
     else
       and_then
         (if 512 \<le> index
          then Ok (header, index div bitmap_words - 1, index mod bitmap_words)
          else
            and_then (ok_or MathOverflow (checked_i64 (index + 1))) (\<lambda>next.
            and_then (ok_or MathOverflow (checked_i64 (- next))) (\<lambda>relative.
            Ok (header + side_bytes, relative div bitmap_words - 1, relative mod bitmap_words))))
         (\<lambda>(side_offset, chunk, b).
       if \<not> (0 \<le> chunk \<and> chunk < extension_chunks) then Ok False
       else
         let word = b div 64; word_bit = b mod 64 in
         and_then (ok_or MathOverflow
             (Option.bind (checked_usize (side_offset + nat chunk * 64))
               (\<lambda>value. checked_usize (value + nat word * 8)))) (\<lambda>offset.
         and_then (read_u64 data offset) (\<lambda>w.
           Ok (and w (push_bit (nat word_bit) 1) \<noteq> 0)))))"

section \<open>The variable fee\<close>

definition update_reference ::
    "i32 \<Rightarrow> dlmm_variable_parameters \<Rightarrow> dlmm_static_parameters \<Rightarrow> i64
      \<Rightarrow> dlmm_variable_parameters" where
  "update_reference active variable parameters timestamp =
    (let elapsed = saturate_i64 (timestamp - last_update_timestamp variable) in
     if int (unat (filter_period parameters)) \<le> elapsed
     then variable
       \<lparr>index_reference := active,
        volatility_reference :=
          (if elapsed < int (unat (decay_period parameters))
           then ucast (saturating_mul (ucast (volatility_accumulator variable))
             (ucast (reduction_factor parameters)) div (10000 :: u64))
           else 0)\<rparr>
     else variable)"

definition update_volatility_accumulator ::
    "i32 \<Rightarrow> dlmm_variable_parameters \<Rightarrow> dlmm_static_parameters \<Rightarrow> dlmm_variable_parameters" where
  "update_volatility_accumulator active variable parameters =
    (let delta = of_nat (min (nat \<bar>index_reference variable - active\<bar>) (2 ^ 32 - 1)) in
     variable
       \<lparr>volatility_accumulator :=
         min (saturating_add (volatility_reference variable) (saturating_mul delta 10000))
           (max_volatility_accumulator parameters)\<rparr>)"

definition dlmm_fee_parameters_of ::
    "lb_pair_state \<Rightarrow> dlmm_variable_parameters \<Rightarrow> dlmm_fee_parameters" where
  "dlmm_fee_parameters_of pair variable =
    \<lparr>fee_bin_step = bin_step pair,
     fee_base_factor = base_factor (static_parameters pair),
     fee_base_fee_power_factor = base_fee_power_factor (static_parameters pair),
     fee_variable_fee_control = variable_fee_control (static_parameters pair),
     fee_volatility_accumulator = volatility_accumulator variable\<rparr>"

definition fee_on_input :: "lb_pair_state \<Rightarrow> bool \<Rightarrow> (quote_error, bool) result" where
  "fee_on_input pair swap_for_y =
    (let mode = collect_fee_mode (static_parameters pair) in
     if mode = 0 then Ok True else if mode = 1 then Ok (\<not> swap_for_y) else Err InvalidInput)"

definition supports_limit_orders :: "lb_pair_state \<Rightarrow> (quote_error, bool) result" where
  "supports_limit_orders pair =
    (let kind = function_type (static_parameters pair) in
     if kind = 2 then Ok True
     else if kind = 1 then Ok False
     else if kind = 0 then Ok (rewards_are_empty pair)
     else Err InvalidInput)"

lemmas [eval_defs] =
  BIN_SIZE_def BIN_ARRAY_HEADER_SIZE_def MAX_QUOTE_BIN_ARRAYS_PER_DIRECTION_def
  MAX_QUOTE_VISITED_BINS_PER_DIRECTION_def PAIR_BASE_def parse_static_parameters_def
  parse_variable_parameters_def parse_lb_pair_def parse_bin_def parse_bin_array_index_def
  parse_bin_array_def parse_bin_array_window_def bin_array_index_def bin_offset_def
  parse_bin_for_id_def in_default_bitmap_def default_bitmap_contains_def
  extension_bitmap_contains_def update_reference_def update_volatility_accumulator_def
  dlmm_fee_parameters_of_def fee_on_input_def supports_limit_orders_def

section \<open>Addresses\<close>

lemma checked_i64_small: "0 \<le> m \<Longrightarrow> m < 70 \<Longrightarrow> checked_i64 m = Some m"
  by (simp add: checked_i64_def)

lemma bin_offset_iff:
  assumes "in_i32 bin_id"
  shows "bin_offset bin_id index = Ok off \<longleftrightarrow>
    index = bin_array_index bin_id \<and> off = nat (bin_id mod 70)"
proof
  assume "bin_offset bin_id index = Ok off"
  then have "0 \<le> bin_id - index * 70" "bin_id - index * 70 < 70" "off = nat (bin_id - index * 70)"
    by (auto simp: bin_offset_def result_iff checked_i64_def split: if_splits)
  then have "bin_id div 70 = index \<and> bin_id mod 70 = bin_id - index * 70"
    by (intro conjI int_div_pos_eq int_mod_pos_eq) auto
  with \<open>off = _\<close> show "index = bin_array_index bin_id \<and> off = nat (bin_id mod 70)"
    by (simp add: bin_array_index_def)
next
  assume "index = bin_array_index bin_id \<and> off = nat (bin_id mod 70)"
  moreover have "checked_i64 (bin_id div 70 * 70) = Some (bin_id div 70 * 70)"
  proof -
    define base where "base = bin_id div 70 * 70"
    define m where "m = bin_id mod 70"
    have "base = bin_id - m" "0 \<le> m" "m < 70"
      by (simp_all add: base_def m_def minus_mod_eq_div_mult)
    with assms have "- (2 ^ 63) \<le> base \<and> base < 2 ^ 63" by (simp add: in_i32_def)
    then show ?thesis by (simp add: checked_i64_def flip: base_def)
  qed
  moreover have "checked_i64 (bin_id mod 70) = Some (bin_id mod 70)"
    by (rule checked_i64_small) simp_all
  ultimately show "bin_offset bin_id index = Ok off"
    by (simp add: bin_offset_def bin_array_index_def minus_div_mult_eq_mod)
qed

lemma bin_offset_no_panic: "bin_offset bin_id index \<noteq> Panic"
  by (auto simp: bin_offset_def result_iff)

text \<open>Bit \<open>k\<close> of the bits that start at a byte of the buffer, least significant first.\<close>

definition buffer_bit :: "u8 list \<Rightarrow> nat \<Rightarrow> nat \<Rightarrow> bool" where
  "buffer_bit data base k = bit (data ! (base + k div 8)) (k mod 8)"

lemma bit_word_from_le:
  assumes "8 * length bs = LENGTH('a)" "k < LENGTH('a)"
  shows "bit (word_from_le bs :: 'a::len word) k \<longleftrightarrow> bit (bs ! (k div 8)) (k mod 8)"
  using assms bit_le_nat [of k bs] by (simp add: word_from_le_def bit_of_nat_iff)

lemma read_u64_bit:
  assumes "read_u64 data offset = Ok w" "k < 64"
  shows "and w (push_bit k 1) \<noteq> 0 \<longleftrightarrow> buffer_bit data offset k"
proof -
  from assms(1) have w: "offset + 8 \<le> length data" "w = word_from_le (take 8 (drop offset data))"
    by (auto simp: read_u64_def result_iff)
  have "and w (push_bit k 1) \<noteq> 0 \<longleftrightarrow> bit w k"
    by (simp add: bit_iff_and_push_bit_not_eq_0)
  also have "\<dots> \<longleftrightarrow> bit (take 8 (drop offset data) ! (k div 8)) (k mod 8)"
    unfolding w(2) using w(1) assms(2) by (intro bit_word_from_le) simp_all
  also have "\<dots> \<longleftrightarrow> buffer_bit data offset k"
    using w(1) assms(2) by (simp add: buffer_bit_def less_mult_imp_div_less)
  finally show ?thesis .
qed

lemma buffer_bit_word:
  "buffer_bit data (base + 8 * (k div 64)) (k mod 64) = buffer_bit data base k"
proof -
  have "8 * (k div 64) + k mod 64 div 8 = k div 8"
    using div_mult2_eq [of k 8 8] mod_mult2_eq [of k 8 8] by simp
  moreover have "k mod 64 mod 8 = k mod 8" by (simp add: mod_mod_cancel)
  ultimately show ?thesis by (simp add: buffer_bit_def add.assoc)
qed

text \<open>Where the extension keeps the bit of an array: first byte of its side, and bit number.\<close>

definition extension_slot :: "int \<Rightarrow> nat \<times> nat" where
  "extension_slot index = (if 512 \<le> index then (40, nat (index - 512)) else (808, nat (- index - 513)))"

lemma extension_bitmap_slot:
  assumes "- (2 ^ 63) \<le> index" and far: "\<not> in_default_bitmap index"
    and slot: "extension_slot index = (base, k)"
  shows "extension_bitmap_contains data index =
    (if 6656 - 512 \<le> k then Ok False
     else map_ok (\<lambda>w. and w (push_bit (k mod 64) 1) \<noteq> 0) (read_u64 data (base + 8 * (k div 64))))"
proof -
  let ?rel = "if 512 \<le> index then index else - (index + 1)"
  let ?side = "if 512 \<le> index then 40 else 808 :: nat"
  have rel: "?rel = int k + 512" "?side = base" "(0::int) \<le> ?rel"
    using slot far by (auto simp: extension_slot_def in_default_bitmap_def split: if_splits)
  have "checked_i64 (index + 1) = Some (index + 1)" "checked_i64 (- (index + 1)) = Some (- (index + 1))"
    if "\<not> 512 \<le> index"
    using that assms(1) by (auto simp: checked_i64_def)
  then have run: "extension_bitmap_contains data index =
    (let chunk = ?rel div 512 - 1; b = ?rel mod 512 in
     if \<not> (0 \<le> chunk \<and> chunk < 12) then Ok False
     else
       let word = b div 64; word_bit = b mod 64 in
       and_then (ok_or MathOverflow
           (Option.bind (checked_usize (?side + nat chunk * 64))
             (\<lambda>value. checked_usize (value + nat word * 8)))) (\<lambda>offset.
       and_then (read_u64 data offset) (\<lambda>w.
         Ok (and w (push_bit (nat word_bit) 1) \<noteq> 0))))"
    using far by (auto simp: extension_bitmap_contains_def Let_def)
  have chunk: "?rel div 512 - 1 = int (k div 512)" "?rel mod 512 = int (k mod 512)"
    unfolding rel(1) by (simp_all add: zdiv_int zmod_int)
  have bit_pos: "int (k mod 512) mod 64 = int (k mod 64)"
    by (simp add: zmod_int mod_mod_cancel)
  have offset: "k div 512 * 64 + k mod 512 div 64 * 8 = 8 * (k div 64)"
  proof -
    have "a div 8 * 64 + a mod 8 * 8 = 8 * a" for a :: nat
      using div_mult_mod_eq [of a 8] by linarith
    then show ?thesis
      using div_mult2_eq [of k 64 8] mod_mult2_eq [of k 64 8] by simp
  qed
  have bounded: "k div 512 < 12 \<longleftrightarrow> k < 6656 - 512" by (simp add: div_less_iff_less_mult)
  show ?thesis
  proof (cases "k < 6656 - 512")
    case True
    have word: "nat (int (k mod 512) div 64) = k mod 512 div 64"
      by (metis nat_int zdiv_int of_nat_numeral)
    have small: "base < 1000" using rel(2) by (auto split: if_splits)
    have "k div 512 < 12" "k mod 512 div 64 < 8"
      using True by (simp_all add: less_mult_imp_div_less)
    then have fits: "base + k div 512 * 64 + k mod 512 div 64 * 8 < 2 ^ 64"
        "base + k div 512 * 64 < 2 ^ 64"
      using small by simp_all
    have "extension_bitmap_contains data index =
        and_then (read_u64 data (base + (k div 512 * 64 + k mod 512 div 64 * 8)))
          (\<lambda>w. Ok (and w (push_bit (k mod 64) 1) \<noteq> 0))"
      unfolding run Let_def chunk rel(2)
      using fits \<open>k div 512 < 12\<close>
      by (simp add: checked_usize_def word bit_pos add.assoc)
    also have "\<dots> = map_ok (\<lambda>w. and w (push_bit (k mod 64) 1) \<noteq> 0)
        (read_u64 data (base + 8 * (k div 64)))"
      unfolding offset by (cases "read_u64 data (base + 8 * (k div 64))") simp_all
    finally show ?thesis using True by simp
  next
    case False
    with bounded have "\<not> int (k div 512) < 12" by simp
    with False show ?thesis unfolding run Let_def chunk by simp
  qed
qed

section \<open>Totality of the parsers\<close>

lemma reader_cases:
  "read_u16 data off = (if off + 2 \<le> length data
     then Ok (word_from_le (take 2 (drop off data))) else Err InvalidInput)"
  "read_u32 data off = (if off + 4 \<le> length data
     then Ok (word_from_le (take 4 (drop off data))) else Err InvalidInput)"
  "read_u64 data off = (if off + 8 \<le> length data
     then Ok (word_from_le (take 8 (drop off data))) else Err InvalidInput)"
  "read_u128 data off = (if off + 16 \<le> length data
     then Ok (word_from_le (take 16 (drop off data))) else Err InvalidInput)"
  "read_i32 data off = (if off + 4 \<le> length data
     then Ok (int_from_le 4 (take 4 (drop off data))) else Err InvalidInput)"
  "read_i64 data off = (if off + 8 \<le> length data
     then Ok (int_from_le 8 (take 8 (drop off data))) else Err InvalidInput)"
  "get_byte data off = (if off < length data then Ok (data ! off) else Err InvalidInput)"
  by (simp_all add: read_u16_def read_u32_def read_u64_def read_u128_def read_i32_def read_i64_def
      get_byte_def bytes_def)

definition bin_at :: "u8 list \<Rightarrow> nat \<Rightarrow> bin" where
  "bin_at data offset =
    \<lparr>price_q64 = word_from_le (take 16 (drop (offset + 16) data)),
     amount_x = word_from_le (take 8 (drop offset data)),
     amount_y = word_from_le (take 8 (drop (offset + 8) data)),
     open_order_amount = word_from_le (take 8 (drop (offset + 112) data)),
     processed_order_remaining_amount = word_from_le (take 8 (drop (offset + 128) data)),
     limit_order_ask_side = (data ! (offset + 140) \<noteq> 0)\<rparr>"

lemma parse_bin_eq:
  assumes "i < 70"
  shows "parse_bin data 56 i =
    (if 56 + 144 * i + 141 \<le> length data then Ok (bin_at data (56 + 144 * i)) else Err InvalidInput)"
proof -
  have "checked_usize (i * BIN_SIZE) = Some (144 * i)" "checked_usize (56 + 144 * i) = Some (56 + 144 * i)"
    using assms by (simp_all add: checked_usize_def BIN_SIZE_def mult.commute)
  then show ?thesis
    by (simp add: parse_bin_def reader_cases bin_at_def)
qed

lemma parse_bin_array_eq:
  "parse_bin_array data =
    (if length data < 56 + 69 * 144 + 141 then Err InvalidInput
     else Ok \<lparr>array_index = int_from_le 8 (take 8 (drop 8 data)),
            array_bins = map (\<lambda>i. (of_nat i, bin_at data (56 + 144 * i))) [0..<70]\<rparr>)"
proof (cases "length data < 56 + 69 * 144 + 141")
  case True
  have "collect (\<lambda>i. map_ok (Pair (of_nat i :: u8)) (parse_bin data 56 i)) [0..<70] = Err InvalidInput"
    by (rule collect_first_Err [of 69]) (use True in \<open>auto simp: parse_bin_eq\<close>)
  with True show ?thesis
    by (simp add: parse_bin_array_def parse_bin_array_index_def reader_cases
        BIN_ARRAY_HEADER_SIZE_def)
next
  case False
  have "collect (\<lambda>i. map_ok (Pair (of_nat i :: u8)) (parse_bin data 56 i)) [0..<70] =
      Ok (map (\<lambda>i. (of_nat i, bin_at data (56 + 144 * i))) [0..<70])"
    by (rule collect_Ok_map) (use False in \<open>auto simp: parse_bin_eq\<close>)
  with False show ?thesis
    by (simp add: parse_bin_array_def parse_bin_array_index_def reader_cases
        BIN_ARRAY_HEADER_SIZE_def)
qed

lemma concat_map_filter:
  "concat (map (\<lambda>x. if P x then [f x] else []) xs) = map f (filter P xs)"
  by (induction xs) auto

lemma parse_window_eq:
  assumes "parse_bin_array data = Ok arr" "- (2 ^ 62) \<le> array_index arr * 70" "array_index arr * 70 < 2 ^ 62"
  shows "parse_bin_array_window data active =
    Ok (arr \<lparr>array_bins := filter (\<lambda>(off, b).
      saturate_i32 (active - 15) \<le> array_index arr * 70 + int (unat off) \<and>
      array_index arr * 70 + int (unat off) \<le> saturate_i32 (active + 15)) (array_bins arr)\<rparr>)"
proof -
  let ?lo = "saturate_i32 (active - 15)" and ?hi = "saturate_i32 (active + 15)"
  let ?index = "int_from_le 8 (take 8 (drop 8 data))"
  let ?in = "\<lambda>i. ?lo \<le> ?index * 70 + int i \<and> ?index * 70 + int i \<le> ?hi"
  from assms(1) have long: "\<not> length data < 56 + 69 * 144 + 141"
    and arr: "arr = \<lparr>array_index = ?index,
            array_bins = map (\<lambda>i. (of_nat i, bin_at data (56 + 144 * i))) [0..<70]\<rparr>"
    by (auto simp: parse_bin_array_eq split: if_splits)
  have index: "- (2 ^ 62) \<le> ?index * 70" "?index * 70 < 2 ^ 62"
    using assms(2,3) by (simp_all add: arr)
  have "checked_i64 (?index * 70) = Some (?index * 70)"
    using index by (simp only: checked_i64_def) simp
  moreover have "checked_i64 (?index * 70 + int i) = Some (?index * 70 + int i)" if "i < 70" for i
    using index that by (simp only: checked_i64_def) simp
  ultimately have "collect (\<lambda>i.
      and_then (ok_or MathOverflow (Option.bind (checked_i64 (?index * 70))
        (\<lambda>value. checked_i64 (value + int i)))) (\<lambda>absolute_id.
      if ?lo \<le> absolute_id \<and> absolute_id \<le> ?hi
      then map_ok (\<lambda>b. [(of_nat i :: u8, b)]) (parse_bin data 56 i)
      else Ok [])) [0..<70] =
    Ok (map (\<lambda>i. if ?in i then [(of_nat i, bin_at data (56 + 144 * i))] else []) [0..<70])"
    using long by (intro collect_Ok_map) (auto simp: parse_bin_eq)
  moreover have "filter (\<lambda>(off, b). ?lo \<le> ?index * 70 + int (unat off) \<and>
        ?index * 70 + int (unat off) \<le> ?hi)
      (map (\<lambda>i. (of_nat i :: u8, bin_at data (56 + 144 * i))) [0..<70]) =
    map (\<lambda>i. (of_nat i, bin_at data (56 + 144 * i))) (filter ?in [0..<70])"
  proof -
    have "uint (of_nat i :: u8) = int i" if "i < 70" for i
      using that by (simp add: unsigned_of_nat take_bit_nat_eq_self)
    then have "filter (\<lambda>i. ?lo \<le> ?index * 70 + uint (of_nat i :: u8) \<and>
        ?index * 70 + uint (of_nat i :: u8) \<le> ?hi) [0..<70] = filter ?in [0..<70]"
      by (intro filter_cong refl) simp
    then show ?thesis by (simp add: filter_map comp_def)
  qed
  ultimately show ?thesis
    using long
    by (simp add: parse_bin_array_window_def parse_bin_array_index_def reader_cases arr
        BIN_ARRAY_HEADER_SIZE_def MAX_QUOTE_VISITED_BINS_PER_DIRECTION_def concat_map_filter)
qed

lemma parse_static_total:
  "parse_static_parameters data \<noteq> Panic"
  "37 \<le> length data \<Longrightarrow> \<exists>p. parse_static_parameters data = Ok p"
  "parse_static_parameters data = Err e \<Longrightarrow> e = InvalidInput"
  by (auto simp: parse_static_parameters_def reader_cases PAIR_BASE_def Let_def split: if_splits)

lemma parse_variable_total:
  "parse_variable_parameters data \<noteq> Panic"
  "64 \<le> length data \<Longrightarrow> \<exists>p. parse_variable_parameters data = Ok p"
  "parse_variable_parameters data = Err e \<Longrightarrow> e = InvalidInput"
  by (auto simp: parse_variable_parameters_def reader_cases PAIR_BASE_def Let_def split: if_splits)

lemma in_i32_int_from_le: "in_i32 (int_from_le 4 bs)"
  using int_from_le_range [of 4 bs] by (simp add: in_i32_def)

lemma parse_bitmap:
  "collect (\<lambda>index. read_u64 data (PAIR_BASE + 576 + index * 8)) [0..<16] =
    (if 712 \<le> length data
     then Ok (map (\<lambda>index. word_from_le (take 8 (drop (PAIR_BASE + 576 + index * 8) data))) [0..<16])
     else Err InvalidInput)"
proof (cases "712 \<le> length data")
  case True
  then show ?thesis
    by (simp only: if_True) (rule collect_Ok_map, simp add: reader_cases PAIR_BASE_def)
next
  case False
  then have "read_u64 data (PAIR_BASE + 576 + 15 * 8) = Err InvalidInput"
    by (simp add: reader_cases PAIR_BASE_def)
  then have "collect (\<lambda>index. read_u64 data (PAIR_BASE + 576 + index * 8)) [0..<16] = Err InvalidInput"
    by (rule collect_first_Err [where x = 15, rotated]) (simp_all add: reader_cases)
  with False show ?thesis by simp
qed

lemma parse_lb_pair_total:
  "if 712 \<le> length data
   then \<exists>pair. parse_lb_pair data = Ok pair \<and> length (bitmap pair) = 16 \<and> in_i32 (active_id pair)
   else parse_lb_pair data = Err InvalidInput"
proof (cases "712 \<le> length data")
  case True
  then obtain st va where "parse_static_parameters data = Ok st"
      "parse_variable_parameters data = Ok va"
    using parse_static_total(2) parse_variable_total(2) by fastforce
  moreover obtain ws where "collect (\<lambda>index. read_u64 data (PAIR_BASE + 576 + index * 8)) [0..<16]
      = Ok ws" "length ws = 16"
    using True by (simp add: parse_bitmap)
  moreover obtain m1 m2 where "bytes 32 data (PAIR_BASE + 256) = Ok m1"
      "bytes 32 data (PAIR_BASE + 400) = Ok m2"
    using True by (simp add: bytes_def PAIR_BASE_def)
  moreover obtain a b where "read_i32 data (PAIR_BASE + 68) = Ok a" "in_i32 a"
      "read_u16 data (PAIR_BASE + 72) = Ok b"
    using True by (simp add: reader_cases PAIR_BASE_def in_i32_int_from_le)
  ultimately show ?thesis using True by (simp add: parse_lb_pair_def Let_def)
next
  case False
  show ?thesis
    using False parse_static_total(1,3) [of data] parse_variable_total(1,3) [of data]
    by (cases "parse_static_parameters data"; cases "parse_variable_parameters data")
      (simp_all add: parse_lb_pair_def Let_def parse_bitmap)
qed

section \<open>The state of the variable fee\<close>

lemma saturated_volatility:
  fixes m d r :: nat
  assumes "m \<le> cap" "0 < cap"
  shows "min (min (r + min (min d cap * 10000) cap) cap) m = min (r + 10000 * d) m"
  using assms by (simp add: min_def)

lemma update_volatility_exact:
  "update_volatility_accumulator active variable parameters =
    variable \<lparr>volatility_accumulator := of_nat
      (min (unat (volatility_reference variable)
          + 10000 * nat \<bar>index_reference variable - active\<bar>)
        (unat (max_volatility_accumulator parameters)))\<rparr>"
proof -
  define d where "d = nat \<bar>index_reference variable - active\<bar>"
  define m where "m = max_volatility_accumulator parameters"
  define r where "r = volatility_reference variable"
  define a where "a = min (saturating_add r (saturating_mul (of_nat (min d (2 ^ 32 - 1))) 10000)) m"
  have delta: "unat (of_nat (min d (2 ^ 32 - 1)) :: u32) = min d (2 ^ 32 - 1)"
    by (rule unat_of_nat_small) (simp add: min_less_iff_disj)
  have "unat a = min (min (unat r + min (min d (2 ^ 32 - 1) * 10000) (2 ^ 32 - 1)) (2 ^ 32 - 1)) (unat m)"
    unfolding a_def unat_min unat_saturating_add unat_saturating_mul delta by simp
  also have "\<dots> = min (unat r + 10000 * d) (unat m)"
    using unat_u32_bound [of m] by (intro saturated_volatility) simp_all
  finally have "a = of_nat (min (unat r + 10000 * d) (unat m))"
    by (metis word_of_nat_unat)
  then show ?thesis
    by (simp add: update_volatility_accumulator_def Let_def a_def d_def m_def r_def)
qed

lemma volatility_decay:
  fixes a :: u32 and f :: u16
  assumes "unat f \<le> 10000"
  shows "ucast (saturating_mul (ucast a) (ucast f) div (10000 :: u64)) =
    (of_nat (unat a * unat f div 10000) :: u32)" and "unat a * unat f div 10000 \<le> unat a"
proof -
  have "unat a * unat f \<le> unat a * 10000" using assms by (rule mult_le_mono2)
  then show le: "unat a * unat f div 10000 \<le> unat a"
    using div_le_mono [of "unat a * unat f" "unat a * 10000" 10000] by simp
  have "unat a * unat f \<le> 2 ^ 32 * 10000"
    using unat_u32_bound [of a] assms by (intro mult_mono) auto
  then have "unat (saturating_mul (ucast a) (ucast f) div (10000 :: u64)) =
      unat a * unat f div 10000"
    by (simp add: unat_div unat_saturating_mul min_def)
  moreover have "ucast w = (of_nat (unat w) :: u32)" for w :: u64
    by simp
  ultimately show "ucast (saturating_mul (ucast a) (ucast f) div (10000 :: u64)) =
    (of_nat (unat a * unat f div 10000) :: u32)"
    by (simp only:)
qed

section \<open>Properties\<close>

text \<open>Every bin id belongs to exactly one array and one of its 70 offsets, for negative ids too:
  the offset is accepted exactly for the array that \<open>bin_array_index\<close> names, and is the Euclidean
  remainder.\<close>

theorem bin_addressing_exact:
  assumes "in_i32 bin_id"
  shows "bin_offset bin_id index = Ok off \<longleftrightarrow>
    index = bin_array_index bin_id \<and> off = nat (bin_id mod 70)"
  by (rule bin_offset_iff [OF assms])

theorem bin_addressing_exact_witness:
  "bin_offset (- 1) (- 1) = Ok 69 \<longleftrightarrow> (- 1 :: i64) = bin_array_index (- 1) \<and> 69 = nat ((- 1) mod 70)"
  by (rule bin_addressing_exact) (simp add: in_i32_def)

text \<open>C11. The bitmap extension reads exactly the bit of the array it is asked for: arrays 512 to 6655
  are the bits from byte 40 on, arrays -513 down to -6656 the bits from byte 808 on, each the
  bit of its own byte; arrays further out are reported as not initialised, those of the default
  bitmap are never looked up here, and a buffer too short for the word is \<open>InvalidInput\<close>.\<close>

theorem extension_bitmap_exact:
  assumes "- (2 ^ 63) \<le> index"
  shows "extension_bitmap_contains data index =
    (let (base, k) = extension_slot index in
     if in_default_bitmap index \<or> index < - 6656 \<or> 6655 < index then Ok False
     else if length data < base + 8 * (k div 64) + 8 then Err InvalidInput
     else Ok (buffer_bit data base k))"
proof (cases "in_default_bitmap index")
  case True
  then show ?thesis by (simp add: extension_bitmap_contains_def Let_def split: prod.splits)
next
  case False
  obtain base k where slot: "extension_slot index = (base, k)" by fastforce
  have far: "6656 - 512 \<le> k \<longleftrightarrow> index < - 6656 \<or> 6655 < index"
    using slot False by (auto simp: extension_slot_def in_default_bitmap_def split: if_splits)
  have "map_ok (\<lambda>w. and w (push_bit (k mod 64) 1) \<noteq> 0) (read_u64 data (base + 8 * (k div 64))) =
    (if length data < base + 8 * (k div 64) + 8 then Err InvalidInput
     else Ok (buffer_bit data base k))"
  proof (cases "read_u64 data (base + 8 * (k div 64))")
    case (Ok w)
    then show ?thesis
      using read_u64_bit [OF Ok, of "k mod 64"]
      by (simp add: buffer_bit_word reader_cases(3) split: if_splits)
  qed (auto simp: reader_cases(3) split: if_splits)
  with far False slot show ?thesis
    by (simp add: extension_bitmap_slot [OF assms False slot])
qed

theorem extension_bitmap_exact_witness:
  "extension_bitmap_contains [] (- 513) =
    (let (base, k) = extension_slot (- 513) in
     if in_default_bitmap (- 513) \<or> (- 513 :: int) < - 6656 \<or> 6655 < (- 513 :: int) then Ok False
     else if length ([] :: u8 list) < base + 8 * (k div 64) + 8 then Err InvalidInput
     else Ok (buffer_bit [] base k))"
  by (rule extension_bitmap_exact) simp

text \<open>A parsed window of a bin array is the parsed array with exactly the bins whose absolute id
  lies within 15 of the active id.\<close>

theorem bin_window_exact:
  assumes "parse_bin_array data = Ok arr"
    and "- (2 ^ 62) \<le> array_index arr * 70" "array_index arr * 70 < 2 ^ 62"
  shows "parse_bin_array_window data active =
    Ok (arr \<lparr>array_bins := filter (\<lambda>(off, b).
      saturate_i32 (active - 15) \<le> array_index arr * 70 + int (unat off) \<and>
      array_index arr * 70 + int (unat off) \<le> saturate_i32 (active + 15)) (array_bins arr)\<rparr>)"
  by (rule parse_window_eq [OF assms])

theorem bin_window_exact_witness:
  "\<exists>arr. parse_bin_array (replicate 10133 0) = Ok arr \<and> array_index arr = 0 \<and>
    parse_bin_array_window (replicate 10133 0) 40 =
      Ok (arr \<lparr>array_bins := filter (\<lambda>(off, b).
        saturate_i32 (40 - 15) \<le> array_index arr * 70 + int (unat off) \<and>
        array_index arr * 70 + int (unat off) \<le> saturate_i32 (40 + 15)) (array_bins arr)\<rparr>)"
proof -
  have zero: "int_from_le 8 (take 8 (drop 8 (replicate 10133 0))) = 0"
    by (simp add: int_from_le_def numeral_eq_Suc)
  obtain arr where "parse_bin_array (replicate 10133 0) = Ok arr" "array_index arr = 0"
    by (simp add: parse_bin_array_eq zero del: drop_replicate take_replicate)
  with bin_window_exact [of "replicate 10133 0" arr 40] show ?thesis by simp
qed

text \<open>The pair and bin-array parsers succeed exactly on buffers that are long enough, a parsed
  pair has a full bitmap and an active id in range, and nothing else than \<open>InvalidInput\<close> is reported.\<close>

theorem dlmm_accounts_parse_exact:
  "(if 712 \<le> length data
    then \<exists>pair. parse_lb_pair data = Ok pair \<and> length (bitmap pair) = 16 \<and> in_i32 (active_id pair)
    else parse_lb_pair data = Err InvalidInput) \<and>
   parse_bin_array data =
    (if length data < 10133 then Err InvalidInput
     else Ok \<lparr>array_index = int_from_le 8 (take 8 (drop 8 data)),
            array_bins = map (\<lambda>i. (of_nat i, bin_at data (56 + 144 * i))) [0..<70]\<rparr>)"
  using parse_lb_pair_total [of data] parse_bin_array_eq [of data] by simp



end
