(* ===== verification/Dlmm_Quote.thy ===== *)
theory Dlmm_Quote
  imports Quote_Math
begin

text \<open>
  The DLMM quotes of \<^verbatim>\<open>quote/math.rs\<close>.  The fee and the price conversions come in pairs, one
  rounded down and one rounded up; each pair is an adjunction, stated once as the locale
  \<open>exact_in_curve\<close> and interpreted for both directions of the swap and for the fee.  From it:
  adding a fee and taking it off again is exact, a run over the bins conserves its input, never
  sells more than the bins hold, never panics, and its output is monotone in its input.
\<close>

section \<open>Pairs of rounded conversions\<close>

locale exact_in_curve =
  fixes valid :: "nat \<Rightarrow> bool" and get need :: "nat \<Rightarrow> nat \<Rightarrow> nat"
  assumes adjoint: "valid p \<Longrightarrow> need p y \<le> x \<longleftrightarrow> y \<le> get p x"
begin

lemma get_need: "valid p \<Longrightarrow> y \<le> get p (need p y)"
  using adjoint by blast

lemma need_get: "valid p \<Longrightarrow> need p (get p x) \<le> x"
  using adjoint by blast

lemma get_mono: "valid p \<Longrightarrow> x \<le> x' \<Longrightarrow> get p x \<le> get p x'"
  using adjoint need_get order_trans by blast

lemma need_mono: "valid p \<Longrightarrow> y \<le> y' \<Longrightarrow> need p y \<le> need p y'"
  using adjoint get_need order_trans by blast

lemma short_of: "valid p \<Longrightarrow> x < need p y \<longleftrightarrow> get p x < y"
  using adjoint [of p y x] by (simp add: not_le [symmetric])

end

text \<open>A pair whose round trip is exact: the fee, and the identity where no fee is taken.\<close>

locale exact_fee = exact_in_curve +
  assumes round_trip: "valid r \<Longrightarrow> get r (need r y) = y"
    and get_le: "valid r \<Longrightarrow> get r x \<le> x"
begin

lemma need_less_iff: "valid r \<Longrightarrow> x < need r y \<longleftrightarrow> get r x < get r (need r y)"
  by (simp add: short_of round_trip)

lemma need_le_of_short: "valid r \<Longrightarrow> y < get r x \<Longrightarrow> need r y \<le> x"
  by (simp add: adjoint)

end

text \<open>
  What one bin takes out of \<open>rem\<close> and pays for it, given the conversion between gross and net
  input, the one between net input and output, and the whole output \<open>m\<close> of the bin.
\<close>

definition bin_take ::
    "(nat \<Rightarrow> nat) \<Rightarrow> (nat \<Rightarrow> nat) \<Rightarrow> (nat \<Rightarrow> nat) \<Rightarrow> (nat \<Rightarrow> nat) \<Rightarrow> nat \<Rightarrow> nat \<Rightarrow> nat \<times> nat" where
  "bin_take net gross get need m rem =
    (let used = min (net rem) (need m) in
     (if used = net rem then rem else gross used, if used = need m then m else get used))"

locale bin_conversion =
  fee: exact_fee rated net gross + price: exact_in_curve priced get need
  for rated net gross priced get need
begin

lemma spent_le: "rated r \<Longrightarrow> fst (bin_take (net r) (gross r) (get p) (need p) m rem) \<le> rem"
  by (auto simp: bin_take_def Let_def min_def not_le intro: fee.need_le_of_short)

lemma paid_le: "priced p \<Longrightarrow> snd (bin_take (net r) (gross r) (get p) (need p) m rem) \<le> m"
  using price.short_of [of p "net r rem" m] by (auto simp: bin_take_def Let_def min_def)

text \<open>The output is covered by the net input that was spent for it.\<close>

lemma paid_covered:
  assumes "rated r" "priced p" "bin_take (net r) (gross r) (get p) (need p) m rem = (spent, paid)"
  shows "need p paid \<le> net r spent"
  using assms price.need_get [of p "net r rem"]
  by (auto simp: bin_take_def Let_def min_def fee.round_trip split: if_splits)

text \<open>More input: the bin either exhausts the smaller input, or treats both alike.\<close>

lemma take_mono:
  assumes "rated r" "priced p" "rem \<le> rem'"
    and "bin_take (net r) (gross r) (get p) (need p) m rem = (spent, paid)"
    and "bin_take (net r) (gross r) (get p) (need p) m rem' = (spent', paid')"
  shows "spent = rem \<and> paid \<le> paid' \<or> spent = spent' \<and> paid = paid'"
proof -
  have "net r rem \<le> net r rem'" using fee.get_mono [OF assms(1,3)] .
  moreover from this have "get p (net r rem) \<le> get p (net r rem')"
    by (rule price.get_mono [OF assms(2)])
  ultimately show ?thesis
    using assms(4,5) price.short_of [OF assms(2), of "net r rem" m]
    by (auto simp: bin_take_def Let_def min_def split: if_splits)
qed

text \<open>A bin that does not exhaust its input has a capacity; up to it the bin takes everything, and
  below it the output is that of the plain conversions.\<close>

lemma take_within:
  assumes "rated r" "priced p"
    and "bin_take (net r) (gross r) (get p) (need p) m rem = (c, out)" "c < rem" "x \<le> c"
  shows "bin_take (net r) (gross r) (get p) (need p) m x =
    (x, if x = c then out else get p (net r x))"
proof -
  have cap: "net r rem > need p m" "c = gross r (need p m)" "out = m"
    using assms(3,4) by (auto simp: bin_take_def Let_def min_def split: if_splits)
  show ?thesis
  proof (cases "x = c")
    case True
    then show ?thesis using assms(1) by (simp add: bin_take_def cap fee.round_trip)
  next
    case False
    then have "net r x < need p m"
      using assms(1,5) fee.short_of [of r x "need p m"] cap(2) by simp
    with False show ?thesis by (simp add: bin_take_def)
  qed
qed

end

definition fee_up :: "nat \<Rightarrow> nat \<Rightarrow> nat" where
  "fee_up r n = ceil_nat (n * r) 1000000000"

definition net_of_fee :: "nat \<Rightarrow> nat \<Rightarrow> nat" where
  "net_of_fee r n = n - fee_up r n"

definition gross_of_fee :: "nat \<Rightarrow> nat \<Rightarrow> nat" where
  "gross_of_fee r n = ceil_nat (n * 1000000000) (1000000000 - r)"

lemma fee_up_le: "r \<le> 1000000000 \<Longrightarrow> fee_up r n \<le> n"
  by (simp add: fee_up_def ceil_nat_le_iff)

lemma net_of_fee_le: "net_of_fee r n \<le> n"
  by (simp add: net_of_fee_def)

lemma le_net_of_fee_iff:
  assumes "r \<le> 1000000000"
  shows "y \<le> net_of_fee r x \<longleftrightarrow> y * 1000000000 \<le> x * (1000000000 - r)"
proof (cases "y \<le> x")
  case True
  have "y \<le> net_of_fee r x \<longleftrightarrow> fee_up r x \<le> x - y"
    using True fee_up_le [OF assms, of x] by (auto simp: net_of_fee_def)
  also have "\<dots> \<longleftrightarrow> x * r \<le> (x - y) * 1000000000"
    by (simp add: fee_up_def ceil_nat_le_iff)
  also have "\<dots> \<longleftrightarrow> y * 1000000000 \<le> x * (1000000000 - r)"
  proof -
    have "x * r \<le> x * 1000000000" using assms by (rule mult_le_mono2)
    moreover have "y * 1000000000 \<le> x * 1000000000" using True by (rule mult_le_mono1)
    ultimately show ?thesis
      unfolding diff_mult_distrib diff_mult_distrib2 by linarith
  qed
  finally show ?thesis .
next
  case False
  then have "x * (1000000000 - r) < y * 1000000000"
    using mult_le_mono2 [of "1000000000 - r" 1000000000 x]
    by (meson diff_le_self le_less_trans mult_less_cancel2 not_le zero_less_numeral)
  with False net_of_fee_le [of r x] show ?thesis by simp
qed

lemma gross_net_adjoint: "r < 1000000000 \<Longrightarrow> gross_of_fee r y \<le> x \<longleftrightarrow> y \<le> net_of_fee r x"
  by (simp add: le_net_of_fee_iff gross_of_fee_def ceil_nat_le_iff)

lemma net_gross: "r < 1000000000 \<Longrightarrow> net_of_fee r (gross_of_fee r y) = y"
proof -
  assume r: "r < 1000000000"
  have "gross_of_fee r y * (1000000000 - r) < Suc y * 1000000000"
    using ceil_nat_upper [of "1000000000 - r" "y * 1000000000"] r
    by (simp add: gross_of_fee_def)
  then have "\<not> Suc y \<le> net_of_fee r (gross_of_fee r y)"
    using le_net_of_fee_iff [of r "Suc y" "gross_of_fee r y"] r by simp
  moreover have "y \<le> net_of_fee r (gross_of_fee r y)"
    using gross_net_adjoint [OF r, of y "gross_of_fee r y"] by simp
  ultimately show ?thesis by simp
qed

text \<open>Prices are 64.64 fixed point, in units of Y per unit of X.\<close>

definition out_at_price :: "bool \<Rightarrow> nat \<Rightarrow> nat \<Rightarrow> nat" where
  "out_at_price swap_for_y p x = (if swap_for_y then x * p div 2 ^ 64 else x * 2 ^ 64 div p)"

definition in_at_price :: "bool \<Rightarrow> nat \<Rightarrow> nat \<Rightarrow> nat" where
  "in_at_price swap_for_y p y =
    (if swap_for_y then ceil_nat (y * 2 ^ 64) p else ceil_nat (y * p) (2 ^ 64))"

lemma price_adjoint: "0 < p \<Longrightarrow> in_at_price d p y \<le> x \<longleftrightarrow> y \<le> out_at_price d p x"
  by (simp add: in_at_price_def out_at_price_def ceil_nat_le_iff less_eq_div_iff_mult_less_eq)

interpretation pool_fee: exact_fee "\<lambda>r. r < 1000000000" net_of_fee gross_of_fee
  by unfold_locales (simp_all add: gross_net_adjoint net_gross net_of_fee_le)

interpretation price: exact_in_curve "\<lambda>p. 0 < p" "out_at_price d" "in_at_price d" for d
  by unfold_locales (rule price_adjoint)

text \<open>The two ways in which a pool takes its fee: on the input, or on the output.\<close>

interpretation fee_in: bin_conversion "\<lambda>r. r < 1000000000" net_of_fee gross_of_fee
    "\<lambda>p. 0 < p" "out_at_price d" "in_at_price d" for d ..

interpretation fee_out: bin_conversion "\<lambda>r. True" "\<lambda>r x. x" "\<lambda>r x. x"
    "\<lambda>p. 0 < p" "out_at_price d" "in_at_price d" for d
  by unfold_locales auto

section \<open>The helpers over natural numbers\<close>

lemma unat_FEE_PRECISION [simp]: "unat FEE_PRECISION = 1000000000"
  by (simp add: FEE_PRECISION_def)

lemma unat_MAX_FEE_RATE [simp]: "unat MAX_FEE_RATE = 100000000"
  by (simp add: MAX_FEE_RATE_def)

lemma fee_up_small: "r \<le> 1000000000 \<Longrightarrow> fee_up r (unat (a :: u64)) < 2 ^ 64"
  using fee_up_le [of r "unat a"] unat_u64_bound [of a] by simp

lemma excluded_fee_amount_fits:
  assumes "unat r \<le> 1000000000"
  shows "\<exists>n f. excluded_fee_amount a r = Ok (n, f) \<and> unat n = net_of_fee (unat r) (unat a) \<and>
    unat f = fee_up (unat r) (unat a)"
proof -
  have "unat a * unat r \<le> 2 ^ 64 * 1000000000"
    using unat_u64_bound [of a] assms by (intro mult_mono) auto
  then obtain m where m: "checked_mul (ucast a) r = Some m" "unat m = unat a * unat r"
      "unat m \<le> 2 ^ 64 * 1000000000"
    using checked_mul_fits [of "ucast a" r] by auto
  then obtain g where g: "ceil_div m FEE_PRECISION = Ok g" "unat g = fee_up (unat r) (unat a)"
    using ceil_div_fits [of FEE_PRECISION m] by (auto simp: fee_up_def)
  then obtain n where n: "checked_sub (ucast a) g = Some n"
      "unat n = net_of_fee (unat r) (unat a)"
    using checked_sub_fits [of g "ucast a"] fee_up_le [OF assms] by (auto simp: net_of_fee_def)
  obtain n' where n': "to_u64 n = Ok n'" "unat n' = unat n"
    using to_u64_fits [of n] n(2) net_of_fee_le [of "unat r" "unat a"] unat_u64_bound [of a]
    by auto
  obtain f where f: "to_u64 g = Ok f" "unat f = unat g"
    using to_u64_fits [of g] g(2) fee_up_small [OF assms, of a] by auto
  from m(1) g n n' f show ?thesis by (simp add: excluded_fee_amount_def)
qed

lemma excluded_fee_amount_Ok [arith_iff]:
  assumes "unat r \<le> 1000000000"
  shows "excluded_fee_amount a r = Ok (n, f) \<longleftrightarrow>
    unat n = net_of_fee (unat r) (unat a) \<and> unat f = fee_up (unat r) (unat a)"
  using excluded_fee_amount_fits [OF assms, of a] by (auto simp: word_unat_eq_iff)

lemma included_fee_amount_Ok:
  assumes "unat r < 1000000000"
  shows "included_fee_amount a r = Ok (g, f) \<longleftrightarrow>
    unat g = gross_of_fee (unat r) (unat a) \<and> unat f = unat g - unat a"
proof -
  obtain d where d: "checked_sub FEE_PRECISION r = Some d" "unat d = 1000000000 - unat r"
    using checked_sub_fits [of r FEE_PRECISION] assms by auto
  obtain m where m: "checked_mul (ucast a) FEE_PRECISION = Some m"
      "unat m = unat a * 1000000000"
    using checked_mul_fits [of "ucast a" FEE_PRECISION] unat_u64_bound [of a] by auto
  have "unat m + (unat d - 1) < 2 ^ 128" "unat d \<noteq> 0"
    using m(2) d(2) assms unat_u64_bound [of a] by simp_all
  then obtain i where i: "ceil_div m d = Ok i" "unat i = gross_of_fee (unat r) (unat a)"
    using ceil_div_fits [of d m] m(2) d(2) by (auto simp: gross_of_fee_def)
  have "unat a \<le> unat i"
    using gross_net_adjoint [OF assms, of "unat a" "unat i"] net_of_fee_le [of "unat r" "unat i"]
    by (simp add: i(2))
  then obtain e where e: "sub_or_panic i (ucast a) = (Ok e :: (quote_error, u128) result)"
      "unat e = unat i - unat a"
    using checked_sub_fits [of "ucast a" i] by (auto simp: sub_or_panic_def or_panic_def)
  show ?thesis
    using e(2) i(2) by (auto simp: included_fee_amount_def d m i(1) e(1) result_iff arith_iff)
qed

lemma included_fee_amount_no_panic:
  assumes "unat r < 1000000000"
  shows "included_fee_amount a r \<noteq> Panic"
proof -
  have "unat a \<le> ceil_nat (unat a * 1000000000) n" if "unat r + n = 1000000000" for n
  proof -
    from that have "1000000000 - unat r = n" by simp
    then show ?thesis
      using gross_net_adjoint [OF assms, of "unat a" "gross_of_fee (unat r) (unat a)"]
        net_of_fee_le [of "unat r" "gross_of_fee (unat r) (unat a)"]
      by (simp add: gross_of_fee_def)
  qed
  then show ?thesis
    using assms
    by (auto simp: included_fee_amount_def result_iff arith_iff not_less)
qed

lemma unat_shift_Q64: "unat (push_bit Q64 (ucast (a :: u64)) :: u128) = unat a * 2 ^ 64"
proof -
  have "unat (ucast a :: u128) * unat (18446744073709551616 :: u128) < 2 ^ LENGTH(128)"
    using unat_u64_bound [of a] by simp
  from unat_mult_small [OF this] show ?thesis
    by (simp add: Q64_def push_bit_eq_mult)
qed

lemma unat_Q64_one [simp]: "unat (2 ^ Q64 :: u128) = 2 ^ 64"
  by (simp add: Q64_def)

lemma ceil_div_then_to_u64:
  "and_then (ceil_div n d) to_u64 = Ok w \<longleftrightarrow>
    unat d \<noteq> 0 \<and> unat n + (unat d - 1) < 2 ^ 128 \<and> unat w = ceil_nat (unat n) (unat d)"
proof
  assume fits: "unat d \<noteq> 0 \<and> unat n + (unat d - 1) < 2 ^ 128 \<and>
    unat w = ceil_nat (unat n) (unat d)"
  then obtain v where "ceil_div n d = Ok v" "unat v = ceil_nat (unat n) (unat d)"
    using ceil_div_fits by blast
  with fits show "and_then (ceil_div n d) to_u64 = Ok w"
    by (simp add: to_u64_iff)
qed (auto simp: result_iff arith_iff)

lemma amount_in_for_out_Ok:
  "amount_in_for_out y p d = Ok w \<longleftrightarrow> p \<noteq> 0 \<and>
    (if d then unat y * 2 ^ 64 + (unat p - 1) < 2 ^ 128
     else unat y * unat p + (2 ^ 64 - 1) < 2 ^ 128) \<and>
    unat w = in_at_price d (unat p) (unat y)"
proof (cases d)
  case True
  then show ?thesis
    by (auto simp: amount_in_for_out_def ceil_div_then_to_u64 unat_shift_Q64 in_at_price_def
        unat_eq_zero)
next
  case False
  show ?thesis
  proof (cases "unat y * unat p < 2 ^ 128")
    case True
    then obtain m where "checked_mul (ucast y) p = Some m" "unat m = unat y * unat p"
      using checked_mul_fits [of "ucast y" p] by auto
    with False show ?thesis
      by (simp add: amount_in_for_out_def ceil_div_then_to_u64 in_at_price_def)
  next
    case overflow: False
    then have "checked_mul (ucast y) p = None" by (simp add: arith_iff)
    with False overflow show ?thesis by (simp add: amount_in_for_out_def)
  qed
qed

lemma amount_out_for_in_Ok:
  "amount_out_for_in x p d = Ok w \<longleftrightarrow> p \<noteq> 0 \<and>
    (d \<longrightarrow> unat x * unat p < 2 ^ 128) \<and> unat w = out_at_price d (unat p) (unat x)"
proof (cases d)
  case True
  show ?thesis
  proof (cases "unat x * unat p < 2 ^ 128")
    case small: True
    then obtain m where "checked_mul (ucast x) p = Some m" "unat m = unat x * unat p"
      using checked_mul_fits [of "ucast x" p] by auto
    with True small show ?thesis
      by (simp add: amount_out_for_in_def out_at_price_def to_u64_iff Q64_def
          drop_bit_eq_div unat_div)
  next
    case overflow: False
    then have "checked_mul (ucast x) p = None" by (simp add: arith_iff)
    with True overflow show ?thesis by (simp add: amount_out_for_in_def)
  qed
next
  case False
  show ?thesis
  proof (cases "p = 0")
    case nonzero: False
    then obtain q where
      "div_or_panic (push_bit Q64 (ucast x)) p = (Ok q :: (quote_error, u128) result)"
      "unat q = unat x * 2 ^ 64 div unat p"
      using div_or_panic_fits [of p "push_bit Q64 (ucast x)"]
      by (auto simp: unat_shift_Q64 unat_eq_zero)
    with False nonzero show ?thesis
      by (simp add: amount_out_for_in_def out_at_price_def to_u64_iff)
  qed (simp add: amount_out_for_in_def)
qed

lemma conversions_no_panic [arith_iff]:
  "amount_in_for_out y p d \<noteq> Panic" "amount_out_for_in x p d \<noteq> Panic"
  by (auto simp: amount_in_for_out_def amount_out_for_in_def result_iff arith_iff unat_eq_zero)

section \<open>The fee rate\<close>

definition base_fee_rate :: "dlmm_fee_parameters \<Rightarrow> nat" where
  "base_fee_rate f = unat (fee_base_factor f) * unat (fee_bin_step f) * 10
    * 10 ^ unat (fee_base_fee_power_factor f)"

definition variable_fee_rate :: "dlmm_fee_parameters \<Rightarrow> nat" where
  "variable_fee_rate f = ceil_nat (unat (fee_variable_fee_control f)
    * (unat (fee_volatility_accumulator f) * unat (fee_bin_step f)) ^ 2) 100000000000"

lemma base_fee_fits:
  "ok_or MathOverflow (Option.bind (Option.bind
      (checked_mul (ucast (a :: u16)) (ucast (b :: u16))) (\<lambda>value. checked_mul value 10))
      (\<lambda>value. checked_mul value pw)) =
    (if unat a * unat b * 10 * unat pw < 2 ^ 128
     then Ok (of_nat (unat a * unat b * 10 * unat pw) :: u128) else Err MathOverflow)"
proof -
  have ab: "unat a * unat b \<le> 65536 * 65536"
    using unat_u16_bound [of a] unat_u16_bound [of b] by (intro mult_mono) auto
  then obtain x :: u128 where x: "checked_mul (ucast a) (ucast b) = Some x"
      "unat x = unat a * unat b"
    using checked_mul_fits [of "ucast a :: u128" "ucast b"] by auto
  then obtain y where y: "checked_mul x 10 = Some y" "unat y = unat a * unat b * 10"
    using checked_mul_fits [of x 10] ab by auto
  show ?thesis
  proof (cases "unat y * unat pw < 2 ^ LENGTH(128)")
    case True
    then obtain z where z: "checked_mul y pw = Some z" "unat z = unat y * unat pw"
      using checked_mul_fits by blast
    then have "z = of_nat (unat a * unat b * 10 * unat pw)"
      by (simp only: y(2) [symmetric] z(2) [symmetric] word_of_nat_unat)
    with True x(1) y z(1) show ?thesis by simp
  next
    case False
    then have "checked_mul y pw = None" by (simp add: arith_iff)
    with False x(1) y show ?thesis by simp
  qed
qed

lemma variable_fee_fits:
  "\<exists>v. (if c = 0 then Ok 0
     else
       and_then (ok_or MathOverflow (checked_mul (ucast (a :: u32)) (ucast (b :: u16))))
         (\<lambda>volatility_bin.
       and_then (ok_or MathOverflow (checked_mul volatility_bin volatility_bin)) (\<lambda>square.
       map_ok (\<lambda>value. value div 100000000000)
         (ok_or MathOverflow
           (Option.bind (checked_mul (ucast (c :: u32)) square)
             (\<lambda>value. checked_add value 99999999999)))))) = Ok (v :: u128) \<and>
    unat v = ceil_nat (unat c * (unat a * unat b) ^ 2) 100000000000"
proof (cases "c = 0")
  case False
  have ab: "unat a * unat b \<le> 4294967295 * 65535"
    using unat_u32_bound [of a] unat_u16_bound [of b] by (intro mult_mono) auto
  then obtain x :: u128 where x: "checked_mul (ucast a) (ucast b) = Some x"
      "unat x = unat a * unat b"
    using checked_mul_fits [of "ucast a :: u128" "ucast b"] by auto
  have xx: "unat x * unat x \<le> (4294967295 * 65535) * (4294967295 * 65535)"
    unfolding x(2) by (rule mult_mono [OF ab ab]) simp_all
  then obtain y where y: "checked_mul x x = Some y" "unat y = unat x * unat x"
    using checked_mul_fits [of x x] by auto
  have cy: "unat c * unat y \<le> 4294967295 * ((4294967295 * 65535) * (4294967295 * 65535))"
    unfolding y(2) by (rule mult_mono [OF _ xx]) (use unat_u32_bound [of c] in simp_all)
  then obtain z where z: "checked_mul (ucast c) y = Some z" "unat z = unat c * unat y"
    using checked_mul_fits [of "ucast c" y] by auto
  then obtain w where w: "checked_add z 99999999999 = Some w" "unat w = unat z + 99999999999"
    using checked_add_fits [of z 99999999999] cy by auto
  show ?thesis
    using False x y z w
    by (simp add: unat_div ceil_nat_def power2_eq_square)
qed simp

lemma dlmm_total_fee_rate_closed:
  "dlmm_total_fee_rate f =
    (if 10 ^ unat (fee_base_fee_power_factor f) < (2 ^ 128 :: nat) \<and>
        base_fee_rate f + variable_fee_rate f < 2 ^ 128
     then Ok (of_nat (min (base_fee_rate f + variable_fee_rate f) 100000000))
     else Err MathOverflow)"
proof (cases "10 ^ unat (fee_base_fee_power_factor f) < (2 ^ 128 :: nat)")
  case True
  then obtain pw where pw: "checked_pow (10 :: u128) (unat (fee_base_fee_power_factor f)) = Some pw"
      "unat pw = 10 ^ unat (fee_base_fee_power_factor f)"
    using checked_pow_fits [of "10 :: u128" "unat (fee_base_fee_power_factor f)"] by auto
  obtain v where v: "(if fee_variable_fee_control f = 0 then Ok 0
     else
       and_then (ok_or MathOverflow
           (checked_mul (ucast (fee_volatility_accumulator f)) (ucast (fee_bin_step f))))
         (\<lambda>volatility_bin.
       and_then (ok_or MathOverflow (checked_mul volatility_bin volatility_bin)) (\<lambda>square.
       map_ok (\<lambda>value. value div 100000000000)
         (ok_or MathOverflow
           (Option.bind (checked_mul (ucast (fee_variable_fee_control f)) square)
             (\<lambda>value. checked_add value 99999999999)))))) = Ok (v :: u128)"
     "unat v = variable_fee_rate f"
    using variable_fee_fits unfolding variable_fee_rate_def by blast
  have base: "unat (fee_base_factor f) * unat (fee_bin_step f) * 10 * unat pw = base_fee_rate f"
    by (simp add: base_fee_rate_def pw(2))
  have run: "dlmm_total_fee_rate f =
    and_then (if base_fee_rate f < 2 ^ 128 then Ok (of_nat (base_fee_rate f)) else Err MathOverflow)
      (\<lambda>b. map_ok (\<lambda>total. min total MAX_FEE_RATE) (ok_or MathOverflow (checked_add b v)))"
    unfolding dlmm_total_fee_rate_def pw(1) v(1)
    by (simp only: base_fee_fits base ok_or.simps and_then.simps)
  show ?thesis
  proof (cases "base_fee_rate f < 2 ^ 128")
    case small: True
    then have b: "unat (of_nat (base_fee_rate f) :: u128) = base_fee_rate f"
      by (intro unat_of_nat_small) simp
    show ?thesis
    proof (cases "base_fee_rate f + variable_fee_rate f < 2 ^ 128")
      case fits: True
      then obtain t where t: "checked_add (of_nat (base_fee_rate f)) v = Some t"
          "unat t = base_fee_rate f + variable_fee_rate f"
        using checked_add_fits [of "of_nat (base_fee_rate f) :: u128" v] b v(2) by auto
      have "min t MAX_FEE_RATE = of_nat (min (base_fee_rate f + variable_fee_rate f) 100000000)"
        using t(2) by (auto simp: min_def word_le_nat_alt MAX_FEE_RATE_def simp flip: t(2))
      with True small fits t(1) show ?thesis by (simp add: run)
    next
      case False
      then have "checked_add (of_nat (base_fee_rate f)) v = None" by (simp add: arith_iff b v(2))
      with small False show ?thesis by (simp add: run)
    qed
  qed (simp add: run)
next
  case False
  then have "checked_pow (10 :: u128) (unat (fee_base_fee_power_factor f)) = None"
    by (simp add: checked_pow_def)
  with False show ?thesis by (simp add: dlmm_total_fee_rate_def)
qed

lemma dlmm_total_fee_rate_OkD:
  "dlmm_total_fee_rate f = Ok r \<Longrightarrow>
    unat r = min (base_fee_rate f + variable_fee_rate f) 100000000 \<and> unat r < 1000000000"
  by (auto simp: dlmm_total_fee_rate_closed unat_of_nat_small split: if_splits)

lemma dlmm_total_fee_rate_no_panic: "dlmm_total_fee_rate f \<noteq> Panic"
  by (simp add: dlmm_total_fee_rate_closed)
section \<open>One bin\<close>

definition dlmm_take :: "bool \<Rightarrow> bool \<Rightarrow> nat \<Rightarrow> nat \<Rightarrow> nat \<Rightarrow> nat \<Rightarrow> nat \<times> nat" where
  "dlmm_take d on_input r p m x =
    (if on_input then bin_take (net_of_fee r) (gross_of_fee r) (out_at_price d p) (in_at_price d p) m x
     else bin_take (\<lambda>x. x) (\<lambda>x. x) (out_at_price d p) (in_at_price d p) m x)"

text \<open>The part of a bin's payment that leaves the pool, and the fee on a step.\<close>

definition paid_out :: "bool \<Rightarrow> nat \<Rightarrow> nat \<Rightarrow> nat" where
  "paid_out on_input r paid = (if on_input then paid else net_of_fee r paid)"

definition step_fee :: "bool \<Rightarrow> nat \<Rightarrow> nat \<Rightarrow> nat \<Rightarrow> nat" where
  "step_fee on_input r spent paid = (if on_input then fee_up r spent else fee_up r paid)"

lemma paid_out_le: "paid_out on_input r paid \<le> paid"
  by (simp add: paid_out_def net_of_fee_le)

lemma paid_out_mono: "r < 1000000000 \<Longrightarrow> m \<le> n \<Longrightarrow> paid_out on_input r m \<le> paid_out on_input r n"
  by (simp add: paid_out_def pool_fee.get_mono)

lemma dlmm_take_spent_le: "r < 1000000000 \<Longrightarrow> fst (dlmm_take d on_input r p m x) \<le> x"
  using fee_in.spent_le fee_out.spent_le [OF TrueI] by (simp add: dlmm_take_def)

lemma dlmm_take_paid_le: "0 < p \<Longrightarrow> snd (dlmm_take d on_input r p m x) \<le> m"
  using fee_in.paid_le fee_out.paid_le by (simp add: dlmm_take_def)

lemma dlmm_take_mono:
  assumes "r < 1000000000" "0 < p" "x \<le> x'"
    "dlmm_take d on_input r p m x = (spent, paid)" "dlmm_take d on_input r p m x' = (spent', paid')"
  shows "spent = x \<and> paid \<le> paid' \<or> spent = spent' \<and> paid = paid'"
  using assms fee_in.take_mono [OF assms(1-3)] fee_out.take_mono [OF TrueI assms(2,3)]
  by (cases on_input) (simp_all add: dlmm_take_def)

lemma dlmm_take_covered:
  assumes "r < 1000000000" "0 < p" "dlmm_take d on_input r p m x = (spent, paid)"
  shows "in_at_price d p paid \<le> (if on_input then net_of_fee r spent else spent)"
  using assms fee_in.paid_covered [OF assms(1,2)] fee_out.paid_covered [OF TrueI assms(2)]
  by (cases on_input) (simp_all add: dlmm_take_def)

lemma gross_minus_net:
  "r < 1000000000 \<Longrightarrow> gross_of_fee r a - a = fee_up r (gross_of_fee r a)"
  using net_gross [of r a] fee_up_le [of r "gross_of_fee r a"] by (simp add: net_of_fee_def)

lemma bin_max_out_no_panic: "bin_max_out b d \<noteq> Panic"
  by (auto simp: bin_max_out_def Let_def result_iff)

lemma fill_bin_skip:
  assumes "unat r < 1000000000" "bin_max_out b d = Ok 0"
  shows "fill_bin d on_input r s b = Ok s"
  using assms excluded_fee_amount_fits [of r "fill_remaining s"]
  by (auto simp: fill_bin_def)

lemma fill_bin_Ok:
  assumes r: "unat r < 1000000000" and run: "fill_bin d on_input r s b = Ok s'"
    and m: "bin_max_out b d = Ok m" "m \<noteq> 0"
    and take: "dlmm_take d on_input (unat r) (unat (price_q64 b)) (unat m)
      (unat (fill_remaining s)) = (spent, paid)"
  shows "price_q64 b \<noteq> 0 \<and>
    unat (fill_remaining s) = unat (fill_remaining s') + spent \<and>
    unat (fill_total_in s') = unat (fill_total_in s) + spent \<and>
    unat (fill_total_out s') = unat (fill_total_out s) + paid_out on_input (unat r) paid \<and>
    unat (fill_total_fee s') = unat (fill_total_fee s) + step_fee on_input (unat r) spent paid"
proof -
  obtain n f where nf: "excluded_fee_amount (fill_remaining s) r = Ok (n, f)"
      "unat n = net_of_fee (unat r) (unat (fill_remaining s))"
      "unat f = fee_up (unat r) (unat (fill_remaining s))"
    using excluded_fee_amount_fits [of r "fill_remaining s"] r by auto
  obtain cap where cap: "amount_in_for_out m (price_q64 b) d = Ok cap"
    using run m nf(1) by (auto simp: fill_bin_def result_iff split: if_splits)
  have p: "price_q64 b \<noteq> 0" "unat cap = in_at_price d (unat (price_q64 b)) (unat m)"
    using cap by (simp_all add: amount_in_for_out_Ok)
  show ?thesis
  proof (cases on_input)
    case True
    show ?thesis
      using run m p True take r nf(2,3)
      by (auto simp: fill_bin_def result_iff cap nf(1) amount_out_for_in_Ok included_fee_amount_Ok
          checked_add_Some checked_sub_Some dlmm_take_def bin_take_def Let_def paid_out_def
          step_fee_def min_def word_le_nat_alt word_unat_eq_iff gross_minus_net [OF r]
          split: if_splits)
  next
    case False
    show ?thesis
      using run m p False take r
      by (auto simp: fill_bin_def result_iff cap amount_out_for_in_Ok excluded_fee_amount_Ok
          checked_add_Some checked_sub_Some dlmm_take_def bin_take_def Let_def paid_out_def
          step_fee_def min_def word_le_nat_alt word_unat_eq_iff split: if_splits)
  qed
qed

section \<open>A run of bins\<close>

definition bin_liquidity :: "bool \<Rightarrow> bin \<Rightarrow> nat" where
  "bin_liquidity d b =
    (if d then unat (amount_y b) else unat (amount_x b))
      + (if limit_order_ask_side b \<noteq> d
         then unat (open_order_amount b) + unat (processed_order_remaining_amount b) else 0)"

lemma bin_max_out_Ok: "bin_max_out b d = Ok m \<Longrightarrow> unat m = bin_liquidity d b"
  by (auto simp: bin_max_out_def bin_liquidity_def Let_def result_iff checked_add_Some
      split: if_splits)

text \<open>One bin, in the terms of the adjunctions.\<close>

lemma fill_bin_take:
  assumes r: "unat r < 1000000000" and run: "fill_bin d on_input r s b = Ok s'"
  obtains (skip) "bin_liquidity d b = 0" "s' = s"
  | (taken) spent paid where "bin_liquidity d b \<noteq> 0" "0 < unat (price_q64 b)"
    "dlmm_take d on_input (unat r) (unat (price_q64 b)) (bin_liquidity d b)
      (unat (fill_remaining s)) = (spent, paid)"
    "unat (fill_remaining s) = unat (fill_remaining s') + spent"
    "unat (fill_total_in s') = unat (fill_total_in s) + spent"
    "unat (fill_total_out s') = unat (fill_total_out s) + paid_out on_input (unat r) paid"
    "unat (fill_total_fee s') = unat (fill_total_fee s) + step_fee on_input (unat r) spent paid"
proof -
  obtain m where m: "bin_max_out b d = Ok m"
    using run by (auto simp: fill_bin_def result_iff split: if_splits)
  note liq = bin_max_out_Ok [OF m]
  show thesis
  proof (cases "m = 0")
    case True
    with fill_bin_skip [OF r] m run liq show thesis
      by (intro skip) auto
  next
    case False
    obtain spent paid where "dlmm_take d on_input (unat r) (unat (price_q64 b)) (unat m)
        (unat (fill_remaining s)) = (spent, paid)" by fastforce
    with fill_bin_Ok [OF r run m False this] False show thesis
      by (intro taken) (auto simp: liq [symmetric] unat_gt_0 unat_eq_zero)
  qed
qed

lemma fill_bins_conserves:
  assumes "unat r < 1000000000" "fill_bins d on_input r s bs = Ok s'"
  shows "unat (fill_total_in s') + unat (fill_remaining s')
      = unat (fill_total_in s) + unat (fill_remaining s) \<and>
    unat (fill_total_out s') \<le> unat (fill_total_out s) + (\<Sum>b\<leftarrow>bs. bin_liquidity d b)"
  using assms(2)
proof (induction bs arbitrary: s)
  case Nil
  then show ?case by simp
next
  case (Cons b bs)
  show ?case
  proof (cases "fill_remaining s = 0")
    case True
    with Cons.prems show ?thesis by simp
  next
    case False
    with Cons.prems obtain t where t: "fill_bin d on_input r s b = Ok t"
        "fill_bins d on_input r t bs = Ok s'" by (auto simp: result_iff)
    have "unat (fill_total_in t) + unat (fill_remaining t)
        = unat (fill_total_in s) + unat (fill_remaining s) \<and>
      unat (fill_total_out t) \<le> unat (fill_total_out s) + bin_liquidity d b"
      using assms(1) t(1)
    proof (cases rule: fill_bin_take)
      case skip
      then show ?thesis by simp
    next
      case (taken spent paid)
      then show ?thesis
        using dlmm_take_paid_le [OF taken(2), of d on_input "unat r" "bin_liquidity d b"
            "unat (fill_remaining s)"] paid_out_le [of on_input "unat r" paid]
        by simp
    qed
    with Cons.IH [OF t(2)] show ?thesis by simp
  qed
qed

text \<open>A run that starts with more input and no less output ends with no less output.\<close>

lemma fill_bins_out_mono: "unat r < 1000000000 \<Longrightarrow> fill_bins d on_input r s bs = Ok s' \<Longrightarrow>
    unat (fill_total_out s) \<le> unat (fill_total_out s')"
proof (induction bs arbitrary: s)
  case (Cons b bs)
  then show ?case
    by (cases "fill_remaining s = 0")
      (fastforce simp: result_iff elim!: fill_bin_take [OF Cons.prems(1)])+
qed simp

lemma fill_bins_mono:
  assumes r: "unat r < 1000000000"
  shows "fill_bins d on_input r s bs = Ok s' \<Longrightarrow> fill_bins d on_input r t bs = Ok t' \<Longrightarrow>
    unat (fill_remaining s) \<le> unat (fill_remaining t) \<Longrightarrow>
    unat (fill_total_out s) \<le> unat (fill_total_out t) \<Longrightarrow>
    unat (fill_total_out s') \<le> unat (fill_total_out t')"
proof (induction bs arbitrary: s t)
  case (Cons b bs)
  show ?case
  proof (cases "fill_remaining s = 0")
    case True
    then show ?thesis
      using Cons.prems fill_bins_out_mono [OF r Cons.prems(2)] by simp
  next
    case False
    then have "fill_remaining t \<noteq> 0" using Cons.prems(3) by (auto simp: unat_eq_zero)
    with False Cons.prems(1,2) obtain s1 t1 where
      s1: "fill_bin d on_input r s b = Ok s1" "fill_bins d on_input r s1 bs = Ok s'" and
      t1: "fill_bin d on_input r t b = Ok t1" "fill_bins d on_input r t1 bs = Ok t'"
      by (auto simp: result_iff)
    have "unat (fill_remaining s1) \<le> unat (fill_remaining t1) \<and>
      unat (fill_total_out s1) \<le> unat (fill_total_out t1)"
      using r s1(1)
    proof (cases rule: fill_bin_take)
      case skip
      with r t1(1) Cons.prems(3,4) show ?thesis by (cases rule: fill_bin_take) auto
    next
      case (taken spent paid)
      note left = taken
      show ?thesis using r t1(1)
      proof (cases rule: fill_bin_take)
        case skip
        with left(1) show ?thesis by simp
      next
        case (taken spent' paid')
        from dlmm_take_mono [OF r left(2) Cons.prems(3) left(3) taken(3)]
        have "spent = unat (fill_remaining s) \<and> paid \<le> paid' \<or> spent = spent' \<and> paid = paid'" .
        moreover have "paid_out on_input (unat r) paid \<le> paid_out on_input (unat r) paid'"
          if "paid \<le> paid'" using paid_out_mono [OF r that] .
        ultimately show ?thesis
          using left(4-6) taken(4-6) Cons.prems(3,4) by auto
      qed
    qed
    with Cons.IH [OF s1(2) t1(2)] show ?thesis by blast
  qed
qed simp

lemma fill_bins_no_panic:
  assumes "unat r < 1000000000"
  shows "fill_bins d on_input r s bs \<noteq> Panic"
proof (induction bs arbitrary: s)
  case (Cons b bs)
  have "excluded_fee_amount a r \<noteq> Panic" for a
    using excluded_fee_amount_fits [of r a] assms by auto
  moreover have "included_fee_amount a r \<noteq> Panic" for a
    using included_fee_amount_no_panic [OF assms] .
  ultimately have "fill_bin d on_input r s b \<noteq> Panic"
    by (auto simp: fill_bin_def result_iff bin_max_out_no_panic conversions_no_panic Let_def
        split: if_splits)
  with Cons.IH show ?case by (simp add: result_iff)
qed simp

section \<open>Whole quotes\<close>

definition start_fill :: "u64 \<Rightarrow> fill" where
  "start_fill a = \<lparr>fill_remaining = a, fill_total_in = 0, fill_total_out = 0, fill_total_fee = 0\<rparr>"

lemma dlmm_impl_Ok:
  "dlmm_quote_exact_in_impl a bs d i f full = Ok q \<longleftrightarrow>
    a \<noteq> 0 \<and> bs \<noteq> [] \<and> (\<exists>r s. dlmm_total_fee_rate f = Ok r \<and>
      fill_bins d i r (start_fill a) bs = Ok s \<and> (full \<longrightarrow> fill_remaining s = 0) \<and>
      q = \<lparr>quote_amount_in = fill_total_in s, quote_amount_out = fill_total_out s,
           quote_fee = fill_total_fee s\<rparr>)"
  by (auto simp: dlmm_quote_exact_in_impl_def result_iff start_fill_def split: if_splits)

lemma dlmm_impl_conserves:
  assumes "dlmm_quote_exact_in_impl a bs d i f full = Ok q"
  shows "quote_amount_in q \<le> a" "full \<Longrightarrow> quote_amount_in q = a"
    "unat (quote_amount_out q) \<le> (\<Sum>b\<leftarrow>bs. bin_liquidity d b)"
proof -
  obtain r s where rs: "dlmm_total_fee_rate f = Ok r" "fill_bins d i r (start_fill a) bs = Ok s"
      "full \<longrightarrow> fill_remaining s = 0" and
    q: "quote_amount_in q = fill_total_in s" "quote_amount_out q = fill_total_out s"
    using assms by (auto simp: dlmm_impl_Ok)
  from fill_bins_conserves [OF conjunct2 [OF dlmm_total_fee_rate_OkD [OF rs(1)]] rs(2)]
  have "unat (fill_total_in s) + unat (fill_remaining s) = unat a"
    "unat (fill_total_out s) \<le> (\<Sum>b\<leftarrow>bs. bin_liquidity d b)"
    by (simp_all add: start_fill_def)
  with rs(3) q show "quote_amount_in q \<le> a" "full \<Longrightarrow> quote_amount_in q = a"
    "unat (quote_amount_out q) \<le> (\<Sum>b\<leftarrow>bs. bin_liquidity d b)"
    by (auto simp: word_le_nat_alt word_unat_eq_iff)
qed

lemma dlmm_exact_iff:
  "dlmm_quote_exact_in a bs d i f = Ok q \<longleftrightarrow>
    dlmm_quote_exact_in_partial a bs d i f = Ok q \<and> quote_amount_in q = a"
proof
  assume "dlmm_quote_exact_in a bs d i f = Ok q"
  with dlmm_impl_conserves(2) [of a bs d i f True q]
  show "dlmm_quote_exact_in_partial a bs d i f = Ok q \<and> quote_amount_in q = a"
    by (auto simp: dlmm_quote_exact_in_def dlmm_quote_exact_in_partial_def dlmm_impl_Ok)
next
  assume partial: "dlmm_quote_exact_in_partial a bs d i f = Ok q \<and> quote_amount_in q = a"
  then obtain r s where rs: "dlmm_total_fee_rate f = Ok r"
      "fill_bins d i r (start_fill a) bs = Ok s" "fill_total_in s = a"
    by (auto simp: dlmm_quote_exact_in_partial_def dlmm_impl_Ok)
  from fill_bins_conserves [OF conjunct2 [OF dlmm_total_fee_rate_OkD [OF rs(1)]] rs(2)] rs(3)
  have "fill_remaining s = 0" by (simp add: start_fill_def unat_eq_zero)
  with partial rs show "dlmm_quote_exact_in a bs d i f = Ok q"
    by (auto simp: dlmm_quote_exact_in_def dlmm_quote_exact_in_partial_def dlmm_impl_Ok)
qed

section \<open>Measured capacities\<close>

lemma partial_one_bin:
  "a \<noteq> 0 \<Longrightarrow> dlmm_total_fee_rate f = Ok r \<Longrightarrow>
    dlmm_quote_exact_in_partial a [b] d i f =
      map_ok (\<lambda>s. \<lparr>quote_amount_in = fill_total_in s, quote_amount_out = fill_total_out s,
         quote_fee = fill_total_fee s\<rparr>) (fill_bin d i r (start_fill a) b)"
  by (cases "fill_bin d i r (start_fill a) b")
    (simp_all add: dlmm_quote_exact_in_partial_def dlmm_quote_exact_in_impl_def start_fill_def)

lemma checked_zero [simp]:
  "checked_add (0 :: 'a::len word) a = Some a" "checked_sub a a = Some (0 :: 'a word)"
  by (simp_all add: checked_add_Some checked_sub_Some)

lemma fill_bin_below:
  assumes "excluded_fee_amount a r = Ok (n, g)" "bin_max_out b d = Ok m" "m \<noteq> 0"
    "amount_in_for_out m (price_q64 b) d = Ok cap" "(if i then n else a) < cap"
  shows "map_ok fill_total_out (fill_bin d i r (start_fill a) b) =
    (if i then amount_out_for_in n (price_q64 b) d
     else and_then (amount_out_for_in a (price_q64 b) d) (\<lambda>raw.
            map_ok fst (excluded_fee_amount raw r)))"
proof (cases i)
  note below = assms(5) less_imp_neq [OF assms(5)]
  case True
  with assms below show ?thesis
    by (cases "amount_out_for_in n (price_q64 b) d") (simp_all add: fill_bin_def start_fill_def)
next
  note below = assms(5) less_imp_neq [OF assms(5)]
  case False
  show ?thesis
  proof (cases "amount_out_for_in a (price_q64 b) d")
    case (Ok raw)
    with False assms below show ?thesis
      by (cases "excluded_fee_amount raw r")
        (auto simp: fill_bin_def start_fill_def split: prod.splits)
  qed (use False assms below in \<open>simp_all add: fill_bin_def start_fill_def\<close>)
qed

lemma fill_bin_at:
  assumes "excluded_fee_amount a r = Ok (n, g)" "bin_max_out b d = Ok m" "m \<noteq> 0"
    "amount_in_for_out m (price_q64 b) d = Ok cap" "(if i then n else a) = cap"
    "excluded_fee_amount m r = Ok (w, h)"
  shows "map_ok fill_total_out (fill_bin d i r (start_fill a) b) = Ok (if i then m else w)"
  using assms by (cases i) (simp_all add: fill_bin_def start_fill_def)

lemma dlmm_take_filled:
  assumes "dlmm_take d i r p m x = (spent, paid)" "spent < x"
  shows "paid = m" "spent = (if i then gross_of_fee r (in_at_price d p m) else in_at_price d p m)"
  using assms by (auto simp: dlmm_take_def bin_take_def Let_def min_def split: if_splits)

lemma dlmm_take_exhausted:
  assumes "dlmm_take d False r p m x = (x, paid)"
  shows "x \<le> in_at_price d p m"
  using assms by (auto simp: dlmm_take_def bin_take_def Let_def min_def split: if_splits)

lemma within_capacity_exact:
  assumes cap: "dlmm_bin_quote_capacity b d i f = Ok q" and rate: "dlmm_total_fee_rate f = Ok r"
    and a: "a \<noteq> 0" "a \<le> quote_amount_in q" and edge: "quote_amount_in q \<noteq> - 1 \<or> \<not> i"
  shows "map_ok quote_amount_out (dlmm_quote_exact_in_partial a [b] d i f) =
    dlmm_bin_output_within_capacity a (quote_amount_in q) (quote_amount_out q) (price_q64 b) d i r"
proof -
  have r: "unat r < 1000000000" "unat r \<le> 1000000000"
    using dlmm_total_fee_rate_OkD [OF rate] by simp_all
  from cap have q: "dlmm_quote_exact_in_partial (- 1) [b] d i f = Ok q"
      "quote_amount_in q \<noteq> 0" "quote_amount_out q \<noteq> 0"
    by (auto simp: dlmm_bin_quote_capacity_def result_iff split: if_splits)
  then obtain s where s: "fill_bin d i r (start_fill (- 1)) b = Ok s"
      "quote_amount_in q = fill_total_in s" "quote_amount_out q = fill_total_out s"
    by (auto simp: partial_one_bin [OF _ rate] result_iff)
  obtain n g where n: "excluded_fee_amount a r = Ok (n, g)"
      "unat n = net_of_fee (unat r) (unat a)"
    using excluded_fee_amount_fits [OF r(2)] by blast
  from r(1) s(1) show ?thesis
  proof (cases rule: fill_bin_take)
    case skip
    with q(2) s(2) show ?thesis by (simp add: start_fill_def)
  next
    case (taken spent paid)
    obtain m where m: "bin_max_out b d = Ok m" "unat m = bin_liquidity d b"
      using s(1) bin_max_out_Ok by (auto simp: fill_bin_def result_iff split: if_splits)
    then have m0: "m \<noteq> 0" using taken(1) by auto
    obtain c where c: "amount_in_for_out m (price_q64 b) d = Ok c"
        "unat c = in_at_price d (unat (price_q64 b)) (bin_liquidity d b)"
      using s(1) m m0 by (auto simp: fill_bin_def result_iff amount_in_for_out_Ok split: if_splits)
    obtain w h where w: "excluded_fee_amount m r = Ok (w, h)"
        "unat w = net_of_fee (unat r) (unat m)"
      using excluded_fee_amount_fits [OF r(2)] by blast
    let ?top = "unat (- 1 :: u64)"
    have q_in: "unat (quote_amount_in q) = spent"
      and q_out: "unat (quote_amount_out q) = paid_out i (unat r) paid"
      using taken(5,6) s(2,3) by (simp_all add: start_fill_def)
    have lhs: "map_ok quote_amount_out (dlmm_quote_exact_in_partial a [b] d i f) =
      map_ok fill_total_out (fill_bin d i r (start_fill a) b)"
      by (cases "fill_bin d i r (start_fill a) b") (simp_all add: partial_one_bin [OF a(1) rate])
    have filled: "paid = unat m"
        "spent = (if i then gross_of_fee (unat r) (unat c) else unat c)" if "spent < ?top"
      using dlmm_take_filled [OF taken(3)] that by (simp_all add: start_fill_def m(2) c(2))
    show ?thesis
    proof (cases "a = quote_amount_in q")
      case True
      show ?thesis
      proof (cases "a = - 1")
        case True
        with \<open>a = quote_amount_in q\<close> q show ?thesis
          by (simp add: dlmm_bin_output_within_capacity_def)
      next
        case False
        then have less: "spent < ?top"
          using unat_mono [of a "- 1"] q_in True word_order.not_eq_extremum [of a] by simp
        have "(if i then n else a) = c"
          using filled(2) [OF less] q_in True n(2) net_gross [OF r(1), of "unat c"]
          by (cases i) (simp_all add: word_unat_eq_iff)
        note at = fill_bin_at [OF n(1) m(1) m0 c(1) this w(1)]
        have "quote_amount_out q = (if i then m else w)"
          using q_out filled(1) [OF less] w(2)
          by (cases i) (simp_all add: paid_out_def word_unat_eq_iff)
        with True q show ?thesis
          unfolding lhs at by (simp add: dlmm_bin_output_within_capacity_def)
      qed
    next
      case False
      with a(2) have less: "unat a < spent" using q_in by (simp add: word_le_nat_alt
            word_unat_eq_iff)
      have "(if i then n else a) < c"
      proof (cases "spent < ?top")
        case True
        show ?thesis
          using filled(2) [OF True] less n(2) pool_fee.short_of [OF r(1), of "unat a" "unat c"]
          by (cases i) (simp_all add: word_less_nat_alt)
      next
        case False
        then have "spent = ?top" using q_in unat_mono
          by (metis nat_less_le unat_arith_simps(1) word_order.extremum)
        moreover from this have "\<not> i" using edge q_in by (simp add: word_unat_eq_iff)
        ultimately have "?top \<le> unat c"
          using dlmm_take_exhausted [of d "unat r" "unat (price_q64 b)"] taken(3) c(2)
          by (simp add: start_fill_def)
        with \<open>\<not> i\<close> less \<open>spent = ?top\<close> show ?thesis by (simp add: word_less_nat_alt)
      qed
      note below = fill_bin_below [OF n(1) m(1) m0 c(1) this]
      have "\<not> quote_amount_in q < a" "a \<noteq> quote_amount_in q" using a(2) False by simp_all
      with a(1) q n(1) show ?thesis
        unfolding lhs below by (simp add: dlmm_bin_output_within_capacity_def)
    qed
  qed
qed
section \<open>Properties\<close>

text \<open>The total fee rate of a DLMM pair, exactly: base fee plus the variable fee rounded up,
  capped at \<open>MAX_FEE_RATE\<close> (10 percent); the variable part never overflows, and \<open>MathOverflow\<close>
  means that the power of ten or the sum needs more than 128 bits.\<close>

theorem dlmm_fee_rate_exact:
  "dlmm_total_fee_rate f =
    (if 10 ^ unat (fee_base_fee_power_factor f) < (2 ^ 128 :: nat) \<and>
        base_fee_rate f + variable_fee_rate f < 2 ^ 128
     then Ok (of_nat (min (base_fee_rate f + variable_fee_rate f) 100000000))
     else Err MathOverflow)"
  by (rule dlmm_total_fee_rate_closed)

text \<open>C6. Adding a fee and taking it off again is exact: the gross amount computed for a net
  amount has exactly that net amount and that fee, and no smaller gross amount reaches it.\<close>

theorem dlmm_fee_round_trip:
  assumes "r \<le> MAX_FEE_RATE" and "included_fee_amount a r = Ok (g, f)"
  shows "excluded_fee_amount g r = Ok (a, f) \<and>
    (\<forall>x n h. excluded_fee_amount x r = Ok (n, h) \<and> a \<le> n \<longrightarrow> g \<le> x)"
proof -
  have r: "unat r < 1000000000" "unat r \<le> 1000000000"
    using assms(1) by (simp_all add: word_le_nat_alt)
  have g: "unat g = gross_of_fee (unat r) (unat a)" "unat f = unat g - unat a"
    using assms(2) by (simp_all add: included_fee_amount_Ok r)
  then show ?thesis
    by (auto simp: excluded_fee_amount_Ok r net_gross gross_minus_net word_le_nat_alt
        pool_fee.adjoint)
qed

theorem dlmm_fee_round_trip_witness:
  "excluded_fee_amount 1002005 2000000 = Ok (1000000, 2005)"
  by (rule dlmm_fee_round_trip [of 2000000 1000000, THEN conjunct1]) (simp_all add: eval_defs)

text \<open>The two price conversions of a bin are adjoint: an input buys at least an output exactly
  when it is at least the input computed for that output.  So a bin is filled by the computed
  input, by no smaller one, and rounding always favours the pool.\<close>

theorem dlmm_price_conversions_adjoint:
  assumes "amount_in_for_out y p d = Ok i" and "amount_out_for_in x p d = Ok out"
  shows "i \<le> x \<longleftrightarrow> y \<le> out"
proof -
  have "0 < unat p" using assms(1) by (simp add: amount_in_for_out_Ok unat_gt_0)
  then show ?thesis
    using assms price.adjoint [of "unat p" d "unat y" "unat x"]
    by (simp add: amount_in_for_out_Ok amount_out_for_in_Ok word_le_nat_alt)
qed

theorem dlmm_price_conversions_adjoint_witness:
  "(667 :: u64) \<le> 666 \<longleftrightarrow> (1000 :: u64) \<le> 999"
  by (rule dlmm_price_conversions_adjoint [of 1000 "27670116110564327424" True 667 666 999])
    (simp_all add: eval_defs)

text \<open>C7. A quote conserves its input and is covered by the bins: the exact-in quote is the partial
  quote that spends its whole input; a partial quote never spends more than its input; and its
  output is at most the pool liquidity and limit orders of the bins it ran over.\<close>

theorem dlmm_quote_conserves:
  "(dlmm_quote_exact_in a bs d i f = Ok q \<longleftrightarrow>
      dlmm_quote_exact_in_partial a bs d i f = Ok q \<and> quote_amount_in q = a) \<and>
   (dlmm_quote_exact_in_partial a bs d i f = Ok q \<longrightarrow>
      quote_amount_in q \<le> a \<and> unat (quote_amount_out q) \<le> (\<Sum>b\<leftarrow>bs. bin_liquidity d b))"
  using dlmm_exact_iff [of a bs d i f q] dlmm_impl_conserves [of a bs d i f False q]
  by (simp add: dlmm_quote_exact_in_partial_def)

theorem dlmm_quote_conserves_witness:
  "let bs = [\<lparr>price_q64 = 18446744073709551616, amount_x = 500, amount_y = 1000, open_order_amount = 20,
        processed_order_remaining_amount = 5, limit_order_ask_side = False\<rparr>,
       \<lparr>price_q64 = 18428315757951600016, amount_x = 0, amount_y = 2000, open_order_amount = 0,
        processed_order_remaining_amount = 0, limit_order_ask_side = False\<rparr>] in
    unat (1500 :: u64) \<le> 2000 \<and> unat (1496 :: u64) \<le> (\<Sum>b\<leftarrow>bs. bin_liquidity True b)"
  using dlmm_quote_conserves [THEN conjunct2, rule_format, of 1500
      "[\<lparr>price_q64 = 18446744073709551616, amount_x = 500, amount_y = 1000, open_order_amount = 20,
        processed_order_remaining_amount = 5, limit_order_ask_side = False\<rparr>,
       \<lparr>price_q64 = 18428315757951600016, amount_x = 0, amount_y = 2000, open_order_amount = 0,
        processed_order_remaining_amount = 0, limit_order_ask_side = False\<rparr>]" True True
      "\<lparr>fee_bin_step = 10, fee_base_factor = 10000, fee_base_fee_power_factor = 0,
      fee_variable_fee_control = 40000, fee_volatility_accumulator = 10000\<rparr>"
      "\<lparr>quote_amount_in = 1500, quote_amount_out = 1496, quote_fee = 3\<rparr>"]
  by (simp add: eval_defs cong: eval_cong)

text \<open>The output of a run over DLMM bins is monotone in its input, for both directions and both
  fee modes, although every bin rounds fees and conversions.\<close>

theorem dlmm_quote_monotone:
  assumes "dlmm_quote_exact_in_partial a bs d i f = Ok q"
    and "dlmm_quote_exact_in_partial a' bs d i f = Ok q'"
    and "a \<le> a'"
  shows "quote_amount_out q \<le> quote_amount_out q'"
proof -
  obtain r s s' where rs: "dlmm_total_fee_rate f = Ok r"
      "fill_bins d i r (start_fill a) bs = Ok s" "fill_bins d i r (start_fill a') bs = Ok s'" and
    q: "quote_amount_out q = fill_total_out s" "quote_amount_out q' = fill_total_out s'"
    using assms(1,2) by (auto simp: dlmm_quote_exact_in_partial_def dlmm_impl_Ok)
  from fill_bins_mono [OF conjunct2 [OF dlmm_total_fee_rate_OkD [OF rs(1)]] rs(2,3)] assms(3) q
  show ?thesis by (simp add: start_fill_def word_le_nat_alt)
qed

theorem dlmm_quote_monotone_witness:
  "\<exists>bs f q q'. dlmm_quote_exact_in_partial 1500 bs True True f = Ok q \<and>
    dlmm_quote_exact_in_partial 2500 bs True True f = Ok q' \<and> length bs = 2 \<and>
    quote_amount_out q = 1496 \<and> quote_amount_out q \<le> quote_amount_out q'"
proof -
  let ?bs = "[\<lparr>price_q64 = 18446744073709551616, amount_x = 500, amount_y = 1000, open_order_amount = 20,
        processed_order_remaining_amount = 5, limit_order_ask_side = False\<rparr>,
       \<lparr>price_q64 = 18428315757951600016, amount_x = 0, amount_y = 2000, open_order_amount = 0,
        processed_order_remaining_amount = 0, limit_order_ask_side = False\<rparr>]"
  let ?f = "\<lparr>fee_bin_step = 10, fee_base_factor = 10000, fee_base_fee_power_factor = 0,
      fee_variable_fee_control = 40000, fee_volatility_accumulator = 10000\<rparr>"
  let ?q = "\<lparr>quote_amount_in = 1500, quote_amount_out = 1496, quote_fee = 3\<rparr>"
  let ?q' = "\<lparr>quote_amount_in = 2500, quote_amount_out = 2494, quote_fee = 4\<rparr>"
  have quotes: "dlmm_quote_exact_in_partial 1500 ?bs True True ?f = Ok ?q"
    "dlmm_quote_exact_in_partial 2500 ?bs True True ?f = Ok ?q'"
    by (simp_all add: eval_defs cong: eval_cong)
  from dlmm_quote_monotone [OF quotes] quotes show ?thesis
    by (intro exI [of _ ?bs] exI [of _ ?f] exI [of _ ?q] exI [of _ ?q']) simp
qed

text \<open>No DLMM quote panics: every overflow, division or shortage is a reported error.\<close>

theorem dlmm_quote_never_panics:
  "dlmm_quote_exact_in_impl a bs d i f full \<noteq> Panic"
proof -
  have "fill_bins d i r s bs \<noteq> Panic" if "dlmm_total_fee_rate f = Ok r" for r s
    by (rule fill_bins_no_panic [OF conjunct2 [OF dlmm_total_fee_rate_OkD [OF that]]])
  then show ?thesis
    by (auto simp: dlmm_quote_exact_in_impl_def result_iff dlmm_total_fee_rate_no_panic)
qed

text \<open>C8. Quoting inside a measured bin capacity equals the one-bin partial quote, errors included,
  for every positive input up to the capacity, except where the fee is taken on the input and the
  measured capacity is \<^verbatim>\<open>u64::MAX\<close>: the capacity may then be cut off by the width of the amount, and the
  two can differ by a unit.\<close>

theorem dlmm_within_capacity_exact:
  assumes "dlmm_bin_quote_capacity b d i f = Ok q" and "dlmm_total_fee_rate f = Ok r"
    and "a \<noteq> 0" "a \<le> quote_amount_in q" and "quote_amount_in q \<noteq> - 1 \<or> \<not> i"
  shows "map_ok quote_amount_out (dlmm_quote_exact_in_partial a [b] d i f) =
    dlmm_bin_output_within_capacity a (quote_amount_in q) (quote_amount_out q) (price_q64 b) d i r"
  by (rule within_capacity_exact [OF assms])

theorem dlmm_within_capacity_exact_witness:
  "map_ok quote_amount_out (dlmm_quote_exact_in_partial 700
      [\<lparr>price_q64 = 18446744073709551616, amount_x = 500, amount_y = 1000, open_order_amount = 20,
        processed_order_remaining_amount = 5, limit_order_ask_side = False\<rparr>] True True
      \<lparr>fee_bin_step = 10, fee_base_factor = 10000, fee_base_fee_power_factor = 0,
      fee_variable_fee_control = 40000, fee_volatility_accumulator = 10000\<rparr>) =
    dlmm_bin_output_within_capacity 700 1027 1025 18446744073709551616 True True 1004000"
  using dlmm_within_capacity_exact [of
      "\<lparr>price_q64 = 18446744073709551616, amount_x = 500, amount_y = 1000, open_order_amount = 20,
        processed_order_remaining_amount = 5, limit_order_ask_side = False\<rparr>" True True
      "\<lparr>fee_bin_step = 10, fee_base_factor = 10000, fee_base_fee_power_factor = 0,
      fee_variable_fee_control = 40000, fee_volatility_accumulator = 10000\<rparr>"
      "\<lparr>quote_amount_in = 1027, quote_amount_out = 1025, quote_fee = 2\<rparr>" 1004000 700]
  by (simp add: eval_defs cong: eval_cong)

end
