(* ===== verification/Snapshot_Quote.thy ===== *)
theory Snapshot_Quote
  imports Dlmm_Accounts Dlmm_Quote
begin

text \<open>
  \<open>quote_dlmm_snapshot_with_bitmap\<close> of \<^verbatim>\<open>quote/accounts.rs\<close>: the walk over at most sixteen bins
  of at most two bin arrays, starting at the active bin, with the variable fee updated at every
  bin.
\<close>

section \<open>The walk\<close>

record snapshot_quote =
  snapshot_result :: quote_result
  used_array_indices :: "i64 list"

text \<open>The mutable locals of the function.\<close>

record walk =
  walk_id :: i32
  walk_remaining :: u64
  walk_out :: u64
  walk_fee :: u64
  walk_used :: "i64 list"
  walk_variable :: dlmm_variable_parameters

definition next_id :: "bool \<Rightarrow> i32 \<Rightarrow> i32" where
  "next_id swap_for_y i = (if swap_for_y then saturate_i32 (i - 1) else saturate_i32 (i + 1))"

definition array_initialized ::
    "lb_pair_state \<Rightarrow> u8 list option \<Rightarrow> i64 \<Rightarrow> (quote_error, bool) result" where
  "array_initialized pair bitmap_extension index =
    (if in_default_bitmap index then Ok (default_bitmap_contains (bitmap pair) index)
     else
       (case bitmap_extension of
         None \<Rightarrow> Ok False
       | Some data \<Rightarrow> extension_bitmap_contains data index))"

definition mark_used :: "i64 \<Rightarrow> i64 list \<Rightarrow> (quote_error, i64 list) result" where
  "mark_used index used =
    (if used = [] \<or> last used \<noteq> index
     then if length used = MAX_QUOTE_BIN_ARRAYS_PER_DIRECTION then Err InsufficientLiquidity
          else Ok (used @ [index])
     else Ok used)"

definition find_bin :: "parsed_bin_array \<Rightarrow> i32 \<Rightarrow> (quote_error, bin) result" where
  "find_bin array i =
    and_then (bin_offset i (array_index array)) (\<lambda>offset.
    ok_or InsufficientLiquidity
      (map_option snd (find (\<lambda>(off, _). off = of_nat offset) (array_bins array))))"

definition without_limit_orders :: "bin \<Rightarrow> bin" where
  "without_limit_orders b = b \<lparr>open_order_amount := 0, processed_order_remaining_amount := 0\<rparr>"

text \<open>The first half of the loop body finds the bin of the current id and records its array, or gives
  \<open>None\<close> when the bitmaps say that the array is not initialised; the second half spends on it.\<close>

definition visit_bin ::
    "lb_pair_state \<Rightarrow> parsed_bin_array list \<Rightarrow> u8 list option \<Rightarrow> bool \<Rightarrow> i32 \<Rightarrow> i64 list
      \<Rightarrow> (quote_error, (bin \<times> i64 list) option) result" where
  "visit_bin pair arrays bitmap_extension limit_orders i used =
    (let index = bin_array_index i in
     and_then (array_initialized pair bitmap_extension index) (\<lambda>initialized.
     if \<not> initialized then Ok None
     else
     and_then (ok_or InsufficientLiquidity (find (\<lambda>a. array_index a = index) arrays)) (\<lambda>array.
     and_then (mark_used index used) (\<lambda>used.
     and_then (find_bin array i) (\<lambda>b.
       Ok (Some (if limit_orders then b else without_limit_orders b, used)))))))"

definition spend_on_bin ::
    "lb_pair_state \<Rightarrow> bool \<Rightarrow> bool \<Rightarrow> walk \<Rightarrow> bin \<Rightarrow> i64 list \<Rightarrow> (quote_error, walk) result" where
  "spend_on_bin pair swap_for_y on_input w b used =
    (let variable = update_volatility_accumulator (walk_id w) (walk_variable w)
       (static_parameters pair) in
     and_then (dlmm_quote_exact_in_partial (walk_remaining w) [b] swap_for_y on_input
         (dlmm_fee_parameters_of pair variable)) (\<lambda>partial.
     and_then (ok_or MathOverflow
         (checked_sub (walk_remaining w) (quote_amount_in partial))) (\<lambda>remaining.
     and_then (ok_or MathOverflow
         (checked_add (walk_out w) (quote_amount_out partial))) (\<lambda>amount_out.
     and_then (ok_or MathOverflow (checked_add (walk_fee w) (quote_fee partial))) (\<lambda>total_fee.
     Ok \<lparr>walk_id = (if remaining \<noteq> 0 then next_id swap_for_y (walk_id w) else walk_id w),
        walk_remaining = remaining, walk_out = amount_out, walk_fee = total_fee,
        walk_used = used, walk_variable = variable\<rparr>)))))"

definition snapshot_step ::
    "lb_pair_state \<Rightarrow> parsed_bin_array list \<Rightarrow> u8 list option \<Rightarrow> bool \<Rightarrow> bool \<Rightarrow> bool \<Rightarrow> walk
      \<Rightarrow> (quote_error, walk) result" where
  "snapshot_step pair arrays bitmap_extension swap_for_y on_input limit_orders w =
    and_then (visit_bin pair arrays bitmap_extension limit_orders (walk_id w) (walk_used w))
      (\<lambda>visited.
        case visited of
          None \<Rightarrow> Ok (w \<lparr>walk_id := next_id swap_for_y (walk_id w)\<rparr>)
        | Some (b, used) \<Rightarrow> spend_on_bin pair swap_for_y on_input w b used)"

fun snapshot_loop ::
    "lb_pair_state \<Rightarrow> parsed_bin_array list \<Rightarrow> u8 list option \<Rightarrow> bool \<Rightarrow> bool \<Rightarrow> bool \<Rightarrow> nat \<Rightarrow> walk
      \<Rightarrow> (quote_error, walk) result" where
  "snapshot_loop pair arrays ext d i l 0 w = Ok w"
| "snapshot_loop pair arrays ext d i l (Suc n) w =
    (if walk_remaining w = 0 then Ok w
     else and_then (snapshot_step pair arrays ext d i l w) (snapshot_loop pair arrays ext d i l n))"

definition quote_dlmm_snapshot_with_bitmap ::
    "u64 \<Rightarrow> lb_pair_state \<Rightarrow> parsed_bin_array list \<Rightarrow> u8 list option \<Rightarrow> bool \<Rightarrow> i64
      \<Rightarrow> (quote_error, snapshot_quote) result" where
  "quote_dlmm_snapshot_with_bitmap amount_in pair arrays bitmap_extension swap_for_y timestamp =
    (let variable = update_reference (active_id pair) (variable_parameters pair)
       (static_parameters pair) timestamp in
     and_then (fee_on_input pair swap_for_y) (\<lambda>on_input.
     and_then (supports_limit_orders pair) (\<lambda>limit_orders.
     and_then (snapshot_loop pair arrays bitmap_extension swap_for_y on_input limit_orders
         MAX_QUOTE_VISITED_BINS_PER_DIRECTION
         \<lparr>walk_id = active_id pair, walk_remaining = amount_in, walk_out = 0, walk_fee = 0,
          walk_used = [], walk_variable = variable\<rparr>) (\<lambda>w.
     if walk_remaining w \<noteq> 0 then Err InsufficientLiquidity
     else Ok \<lparr>snapshot_result = \<lparr>quote_amount_in = amount_in, quote_amount_out = walk_out w,
                quote_fee = walk_fee w\<rparr>,
             used_array_indices = walk_used w\<rparr>))))"

definition quote_dlmm_snapshot_with_arrays ::
    "u64 \<Rightarrow> lb_pair_state \<Rightarrow> parsed_bin_array list \<Rightarrow> bool \<Rightarrow> i64
      \<Rightarrow> (quote_error, snapshot_quote) result" where
  "quote_dlmm_snapshot_with_arrays amount_in pair arrays swap_for_y timestamp =
    quote_dlmm_snapshot_with_bitmap amount_in pair arrays None swap_for_y timestamp"

definition quote_dlmm_snapshot ::
    "u64 \<Rightarrow> lb_pair_state \<Rightarrow> parsed_bin_array list \<Rightarrow> bool \<Rightarrow> i64
      \<Rightarrow> (quote_error, quote_result) result" where
  "quote_dlmm_snapshot amount_in pair arrays swap_for_y timestamp =
    map_ok snapshot_result
      (quote_dlmm_snapshot_with_arrays amount_in pair arrays swap_for_y timestamp)"

lemma snapshot_loop_numeral [eval_defs]:
  "snapshot_loop pair arrays ext d i l (numeral n) w =
    (if walk_remaining w = 0 then Ok w
     else and_then (snapshot_step pair arrays ext d i l w)
       (snapshot_loop pair arrays ext d i l (pred_numeral n)))"
  by (simp add: numeral_eq_Suc)

lemmas [eval_defs] =
  next_id_def array_initialized_def mark_used_def find_bin_def without_limit_orders_def
  visit_bin_def spend_on_bin_def snapshot_step_def quote_dlmm_snapshot_with_bitmap_def quote_dlmm_snapshot_with_arrays_def
  quote_dlmm_snapshot_def

section \<open>One step\<close>

definition fee_state :: "lb_pair_state \<Rightarrow> walk \<Rightarrow> dlmm_variable_parameters" where
  "fee_state pair w =
    update_volatility_accumulator (walk_id w) (walk_variable w) (static_parameters pair)"

lemma spend_on_bin_Ok:
  assumes "spend_on_bin pair d i w b used = Ok w'"
  obtains q where
    "dlmm_quote_exact_in_partial (walk_remaining w) [b] d i
      (dlmm_fee_parameters_of pair (fee_state pair w)) = Ok q"
    "unat (walk_remaining w) = unat (quote_amount_in q) + unat (walk_remaining w')"
    "unat (walk_out w') = unat (walk_out w) + unat (quote_amount_out q)"
    "walk_used w' = used" "walk_variable w' = fee_state pair w"
    "walk_id w' = (if walk_remaining w' \<noteq> 0 then next_id d (walk_id w) else walk_id w)"
    "unat (walk_fee w') = unat (walk_fee w) + unat (quote_fee q)"
  using assms
  by (auto simp: spend_on_bin_def fee_state_def Let_def result_iff checked_add_Some
      checked_sub_Some)

lemma snapshot_step_Ok:
  assumes "snapshot_step pair arrays ext d i l w = Ok w'"
  obtains (skip) "visit_bin pair arrays ext l (walk_id w) (walk_used w) = Ok None"
      "w' = w \<lparr>walk_id := next_id d (walk_id w)\<rparr>"
    | (spend) b used where
      "visit_bin pair arrays ext l (walk_id w) (walk_used w) = Ok (Some (b, used))"
      "spend_on_bin pair d i w b used = Ok w'"
proof -
  from assms obtain v where "visit_bin pair arrays ext l (walk_id w) (walk_used w) = Ok v"
      "(case v of None \<Rightarrow> Ok (w \<lparr>walk_id := next_id d (walk_id w)\<rparr>)
        | Some (b, used) \<Rightarrow> spend_on_bin pair d i w b used) = Ok w'"
    by (auto simp: snapshot_step_def result_iff)
  then show thesis by (cases v) (auto intro: that)
qed

lemma mark_used_Ok:
  "mark_used index used = Ok used' \<Longrightarrow>
    used' = used \<or> used' = used @ [index] \<and> length used \<noteq> 2 \<and> (used = [] \<or> last used \<noteq> index)"
  by (auto simp: mark_used_def MAX_QUOTE_BIN_ARRAYS_PER_DIRECTION_def split: if_splits)

lemma visit_bin_Some:
  assumes "visit_bin pair arrays ext l i used = Ok (Some (b, used'))"
  shows "mark_used (bin_array_index i) used = Ok used'"
  using assms by (auto simp: visit_bin_def Let_def result_iff split: if_splits)

section \<open>Bounds of the walk\<close>

text \<open>What holds of every state of the walk.\<close>

definition walk_ok :: "u64 \<Rightarrow> walk \<Rightarrow> bool" where
  "walk_ok amount w \<longleftrightarrow> in_i32 (walk_id w) \<and> walk_remaining w \<le> amount \<and>
    length (walk_used w) \<le> 2 \<and> distinct (walk_used w)"

lemma next_id_in_i32: "in_i32 (next_id d i)"
  by (simp add: next_id_def)

lemma snapshot_step_walk_ok:
  assumes "walk_ok amount w" "snapshot_step pair arrays ext d i l w = Ok w'"
  shows "walk_ok amount w'"
  using assms(2)
proof (cases rule: snapshot_step_Ok)
  case skip
  with assms(1) show ?thesis by (simp add: walk_ok_def next_id_in_i32)
next
  case (spend b used)
  from spend(2) obtain q where q:
    "dlmm_quote_exact_in_partial (walk_remaining w) [b] d i
      (dlmm_fee_parameters_of pair (fee_state pair w)) = Ok q"
    "unat (walk_remaining w) = unat (quote_amount_in q) + unat (walk_remaining w')"
    "unat (walk_out w') = unat (walk_out w) + unat (quote_amount_out q)"
    "walk_used w' = used" "walk_variable w' = fee_state pair w"
    "walk_id w' = (if walk_remaining w' \<noteq> 0 then next_id d (walk_id w) else walk_id w)"
    by (rule spend_on_bin_Ok) blast
  have "length used \<le> 2 \<and> distinct used"
    using mark_used_Ok [OF visit_bin_Some [OF spend(1)]] assms(1)
    by (cases "walk_used w" rule: rev_cases; cases "butlast (walk_used w)" rule: rev_cases)
      (auto simp: walk_ok_def)
  moreover have "walk_remaining w' \<le> walk_remaining w"
    using q(2) by (simp add: word_le_nat_alt)
  ultimately show ?thesis
    using assms(1) q(4,6) by (auto simp: walk_ok_def next_id_in_i32)
qed

lemma snapshot_loop_walk_ok:
  "walk_ok amount w \<Longrightarrow> snapshot_loop pair arrays ext d i l n w = Ok w' \<Longrightarrow> walk_ok amount w'"
  by (induction n arbitrary: w) (auto simp: result_iff split: if_splits dest: snapshot_step_walk_ok)

lemma partial_no_panic: "dlmm_quote_exact_in_partial a bs d i f \<noteq> Panic"
proof -
  have "fill_bins d i r s bs \<noteq> Panic" if "dlmm_total_fee_rate f = Ok r" for r s
    by (rule fill_bins_no_panic [OF conjunct2 [OF dlmm_total_fee_rate_OkD [OF that]]])
  then show ?thesis
    by (auto simp: dlmm_quote_exact_in_partial_def dlmm_quote_exact_in_impl_def result_iff
        dlmm_total_fee_rate_no_panic)
qed

section \<open>More input\<close>

lemma partial_one_bin_Ok:
  assumes "dlmm_quote_exact_in_partial a [b] d i f = Ok q"
  obtains r s where "dlmm_total_fee_rate f = Ok r" "unat r < 1000000000"
    "fill_bin d i r (start_fill a) b = Ok s"
    "q = \<lparr>quote_amount_in = fill_total_in s, quote_amount_out = fill_total_out s,
          quote_fee = fill_total_fee s\<rparr>"
proof -
  from assms have "a \<noteq> 0" by (auto simp: dlmm_quote_exact_in_partial_def dlmm_impl_Ok)
  from assms obtain r where r: "dlmm_total_fee_rate f = Ok r"
    by (auto simp: dlmm_quote_exact_in_partial_def dlmm_impl_Ok)
  with assms \<open>a \<noteq> 0\<close> dlmm_total_fee_rate_OkD [OF r] show thesis
    by (auto simp: partial_one_bin result_iff intro: that)
qed

text \<open>More input on one bin: the smaller input is used up, or both quotes are the same.\<close>

lemma partial_one_bin_mono:
  assumes "dlmm_quote_exact_in_partial a [b] d i f = Ok q"
    "dlmm_quote_exact_in_partial a' [b] d i f = Ok q'" "a \<le> a'"
  shows "quote_amount_in q = a \<and> quote_amount_out q \<le> quote_amount_out q' \<or>
    quote_amount_in q = quote_amount_in q' \<and> quote_amount_out q = quote_amount_out q'"
proof -
  from assms(1) obtain r s where r: "dlmm_total_fee_rate f = Ok r" "unat r < 1000000000"
      and s: "fill_bin d i r (start_fill a) b = Ok s" and
      q: "quote_amount_in q = fill_total_in s" "quote_amount_out q = fill_total_out s"
    by (elim partial_one_bin_Ok) auto
  from assms(2) r(1) obtain s' where s': "fill_bin d i r (start_fill a') b = Ok s'" and
      q': "quote_amount_in q' = fill_total_in s'" "quote_amount_out q' = fill_total_out s'"
    by (elim partial_one_bin_Ok) auto
  have le: "unat (fill_remaining (start_fill a)) \<le> unat (fill_remaining (start_fill a'))"
    using assms(3) by (simp add: start_fill_def word_le_nat_alt)
  show ?thesis using r(2) s
  proof (cases rule: fill_bin_take)
    case skip
    note left = skip
    show ?thesis using r(2) s'
    proof (cases rule: fill_bin_take)
      case skip
      with left show ?thesis by (simp add: q q' start_fill_def)
    next
      case (taken spent paid)
      with left show ?thesis by simp
    qed
  next
    case (taken spent paid)
    note left = taken
    show ?thesis using r(2) s'
    proof (cases rule: fill_bin_take)
      case skip
      with left show ?thesis by simp
    next
      case (taken spent' paid')
      have "paid_out i (unat r) paid \<le> paid_out i (unat r) paid'" if "paid \<le> paid'"
        using paid_out_mono [OF r(2) that] .
      then show ?thesis
        using dlmm_take_mono [OF r(2) left(2) le left(3) taken(3)] left(5,6) taken(5,6)
        by (auto simp: q q' start_fill_def word_le_nat_alt word_unat_eq_iff)
    qed
  qed
qed

text \<open>Two walks with the same position, arrays and fee state; the second has more input.\<close>

definition ahead :: "walk \<Rightarrow> walk \<Rightarrow> bool" where
  "ahead w v \<longleftrightarrow> walk_out w \<le> walk_out v \<and>
    (walk_remaining w = 0 \<or>
     walk_remaining w \<le> walk_remaining v \<and> walk_id w = walk_id v \<and>
     walk_used w = walk_used v \<and> walk_variable w = walk_variable v)"

lemma snapshot_step_out_mono:
  assumes "snapshot_step pair arrays ext d i l w = Ok w'"
  shows "walk_out w \<le> walk_out w'"
  using assms
proof (cases rule: snapshot_step_Ok)
  case skip
  then show ?thesis by simp
next
  case (spend b used)
  then show ?thesis by (elim spend_on_bin_Ok) (simp add: word_le_nat_alt)
qed

lemma snapshot_loop_out_mono:
  "snapshot_loop pair arrays ext d i l n w = Ok w' \<Longrightarrow> walk_out w \<le> walk_out w'"
  by (induction n arbitrary: w)
    (auto simp: result_iff split: if_splits dest: snapshot_step_out_mono intro: order_trans)

lemma snapshot_step_ahead:
  assumes "ahead w v" "walk_remaining w \<noteq> 0"
    "snapshot_step pair arrays ext d i l w = Ok w'" "snapshot_step pair arrays ext d i l v = Ok v'"
  shows "ahead w' v'"
proof -
  from assms(1,2) have same: "walk_id w = walk_id v" "walk_used w = walk_used v"
      "walk_variable w = walk_variable v" and more: "walk_remaining w \<le> walk_remaining v"
      and out: "walk_out w \<le> walk_out v"
    by (auto simp: ahead_def)
  from assms(3) show ?thesis
  proof (cases rule: snapshot_step_Ok)
    case skip
    with assms(4) show ?thesis
      by (cases rule: snapshot_step_Ok) (use same more out in \<open>auto simp: ahead_def\<close>)
  next
    case (spend b used)
    from assms(4) spend(1) have v: "spend_on_bin pair d i v b used = Ok v'"
      by (cases rule: snapshot_step_Ok) (simp_all add: same)
    from spend(2) obtain q where q:
      "dlmm_quote_exact_in_partial (walk_remaining w) [b] d i
        (dlmm_fee_parameters_of pair (fee_state pair w)) = Ok q"
      "unat (walk_remaining w) = unat (quote_amount_in q) + unat (walk_remaining w')"
      "unat (walk_out w') = unat (walk_out w) + unat (quote_amount_out q)"
      "walk_used w' = used" "walk_variable w' = fee_state pair w"
      "walk_id w' = (if walk_remaining w' \<noteq> 0 then next_id d (walk_id w) else walk_id w)"
      by (rule spend_on_bin_Ok) blast
    from v obtain q' where q':
      "dlmm_quote_exact_in_partial (walk_remaining v) [b] d i
        (dlmm_fee_parameters_of pair (fee_state pair v)) = Ok q'"
      "unat (walk_remaining v) = unat (quote_amount_in q') + unat (walk_remaining v')"
      "unat (walk_out v') = unat (walk_out v) + unat (quote_amount_out q')"
      "walk_used v' = used" "walk_variable v' = fee_state pair v"
      "walk_id v' = (if walk_remaining v' \<noteq> 0 then next_id d (walk_id v) else walk_id v)"
      by (rule spend_on_bin_Ok) blast
    have state: "fee_state pair w = fee_state pair v" by (simp add: fee_state_def same)
    from partial_one_bin_mono [OF q(1) q'(1) [folded state] more] consider
      "quote_amount_in q = walk_remaining w" "quote_amount_out q \<le> quote_amount_out q'"
      | "quote_amount_in q = quote_amount_in q'" "quote_amount_out q = quote_amount_out q'"
      by blast
    then show ?thesis
    proof cases
      case 1
      then have "walk_remaining w' = 0" using q(2) by (simp add: unat_eq_zero)
      with 1 q(3) q'(3) out show ?thesis by (simp add: ahead_def word_le_nat_alt)
    next
      case 2
      with q(2) q'(2) more have "walk_remaining w' \<le> walk_remaining v'"
        by (simp add: word_le_nat_alt)
      with 2 q q' out state same show ?thesis
        by (auto simp: ahead_def word_le_nat_alt unat_eq_zero)
    qed
  qed
qed

lemma snapshot_loop_ahead:
  "ahead w v \<Longrightarrow> snapshot_loop pair arrays ext d i l n w = Ok w' \<Longrightarrow>
    snapshot_loop pair arrays ext d i l n v = Ok v' \<Longrightarrow> walk_out w' \<le> walk_out v'"
proof (induction n arbitrary: w v)
  case 0
  then show ?case by (simp add: ahead_def)
next
  case (Suc n)
  show ?case
  proof (cases "walk_remaining w = 0")
    case True
    with Suc.prems snapshot_loop_out_mono [OF Suc.prems(3)] show ?thesis
      by (auto simp: ahead_def)
  next
    case False
    with Suc.prems(1) have "walk_remaining v \<noteq> 0" by (auto simp: ahead_def)
    with False Suc.prems obtain w1 v1 where
      "snapshot_step pair arrays ext d i l w = Ok w1" "snapshot_loop pair arrays ext d i l n w1 = Ok w'"
      "snapshot_step pair arrays ext d i l v = Ok v1" "snapshot_loop pair arrays ext d i l n v1 = Ok v'"
      by (auto simp: result_iff)
    with Suc.IH snapshot_step_ahead [OF Suc.prems(1) False] show ?thesis by blast
  qed
qed

section \<open>Windows of bin arrays\<close>

definition bin_window :: "i32 \<Rightarrow> parsed_bin_array \<Rightarrow> parsed_bin_array" where
  "bin_window active arr = arr \<lparr>array_bins := filter (\<lambda>(off, b).
      saturate_i32 (active - 15) \<le> array_index arr * 70 + int (unat off) \<and>
      array_index arr * 70 + int (unat off) \<le> saturate_i32 (active + 15)) (array_bins arr)\<rparr>"

lemma array_index_window [simp]: "array_index (bin_window active arr) = array_index arr"
  by (simp add: bin_window_def)

lemma find_filter: "(\<And>x. P x \<Longrightarrow> Q x) \<Longrightarrow> find P (filter Q xs) = find P xs"
  by (induction xs) auto

lemma find_map_option: "find P (map f xs) = map_option f (find (\<lambda>x. P (f x)) xs)"
  by (induction xs) auto

lemma find_bin_window:
  assumes "in_i32 i" "saturate_i32 (active - 15) \<le> i" "i \<le> saturate_i32 (active + 15)"
  shows "find_bin (bin_window active arr) i = find_bin arr i"
proof (cases "bin_offset i (array_index arr)")
  case (Ok off)
  with bin_offset_iff [OF assms(1)] have off: "array_index arr = i div 70" "off = nat (i mod 70)"
    by (auto simp: bin_array_index_def)
  have "int (unat (of_nat off :: u8)) = i mod 70"
  proof -
    have "i mod 70 < 70" "0 \<le> i mod 70" by simp_all
    then have "off < 70" unfolding off by linarith
    then have "unat (of_nat off :: u8) = off" by (intro unat_of_nat_small) simp
    then show ?thesis unfolding off by simp
  qed
  then have "array_index arr * 70 + int (unat (of_nat off :: u8)) = i"
    by (simp only: off(1) div_mult_mod_eq)
  then have "find (\<lambda>(o', _). o' = of_nat off) (array_bins (bin_window active arr)) =
      find (\<lambda>(o', _). o' = of_nat off) (array_bins arr)"
    using assms(2,3) unfolding bin_window_def by (simp, intro find_filter) auto
  then show ?thesis by (simp add: find_bin_def Ok)
qed (simp_all add: find_bin_def bin_window_def)

lemma visit_bin_window:
  assumes "in_i32 i" "saturate_i32 (active - 15) \<le> i" "i \<le> saturate_i32 (active + 15)"
  shows "visit_bin pair (map (bin_window active) arrays) ext l i used =
    visit_bin pair arrays ext l i used"
proof -
  let ?find = "find (\<lambda>a. array_index a = bin_array_index i)"
  have found: "?find (map (bin_window active) arrays) =
      map_option (bin_window active) (?find arrays)"
    by (simp add: find_map_option)
  show ?thesis
    by (cases "?find arrays")
      (simp_all add: visit_bin_def Let_def found find_bin_window [OF assms] cong: if_cong)
qed

lemma saturate_window:
  "in_i32 i \<Longrightarrow> \<bar>i - active\<bar> \<le> 15 \<Longrightarrow>
    saturate_i32 (active - 15) \<le> i \<and> i \<le> saturate_i32 (active + 15)"
  by (auto simp: saturate_i32_def in_i32_def)

lemma next_id_near: "in_i32 i \<Longrightarrow> \<bar>next_id d i - active\<bar> \<le> \<bar>i - active\<bar> + 1"
  by (auto simp: next_id_def saturate_i32_def in_i32_def)

lemma snapshot_step_near:
  assumes "snapshot_step pair arrays ext d i l w = Ok w'" "in_i32 (walk_id w)"
  shows "in_i32 (walk_id w') \<and> \<bar>walk_id w' - active\<bar> \<le> \<bar>walk_id w - active\<bar> + 1"
  using assms(1)
proof (cases rule: snapshot_step_Ok)
  case skip
  with assms(2) show ?thesis by (simp add: next_id_in_i32 next_id_near)
next
  case (spend b used)
  from spend(2) assms(2) show ?thesis
    by (elim spend_on_bin_Ok) (simp add: next_id_in_i32 next_id_near)
qed

lemma snapshot_loop_window:
  assumes "in_i32 (walk_id w)" "\<bar>walk_id w - active\<bar> + int n \<le> 16"
  shows "snapshot_loop pair (map (bin_window active) arrays) ext d i l n w =
    snapshot_loop pair arrays ext d i l n w"
  using assms
proof (induction n arbitrary: w)
  case (Suc n)
  have window: "saturate_i32 (active - 15) \<le> walk_id w" "walk_id w \<le> saturate_i32 (active + 15)"
    using saturate_window [OF Suc.prems(1), of active] Suc.prems(2) by simp_all
  have step: "snapshot_step pair (map (bin_window active) arrays) ext d i l w =
      snapshot_step pair arrays ext d i l w"
    by (simp add: snapshot_step_def visit_bin_window [OF Suc.prems(1) window])
  show ?case
  proof (cases "snapshot_step pair arrays ext d i l w")
    case (Ok w')
    from snapshot_step_near [OF Ok Suc.prems(1), of active] Suc.prems(2) Suc.IH [of w']
    show ?thesis by (simp add: step Ok)
  qed (simp_all add: step)
qed simp

lemma quote_snapshot_window:
  "in_i32 (active_id pair) \<Longrightarrow>
    quote_dlmm_snapshot_with_bitmap amount pair (map (bin_window (active_id pair)) arrays) ext d t =
    quote_dlmm_snapshot_with_bitmap amount pair arrays ext d t"
  by (simp add: quote_dlmm_snapshot_with_bitmap_def snapshot_loop_window
      MAX_QUOTE_VISITED_BINS_PER_DIRECTION_def Let_def)

section \<open>No panics\<close>

lemma extension_bitmap_no_panic: "extension_bitmap_contains data index \<noteq> Panic"
  by (auto simp: extension_bitmap_contains_def Let_def result_iff read_u64_def
      split: if_splits prod.splits)

lemma visit_bin_no_panic: "visit_bin pair arrays ext l i used \<noteq> Panic"
  by (auto simp: visit_bin_def Let_def result_iff array_initialized_def mark_used_def find_bin_def
      extension_bitmap_no_panic bin_offset_no_panic split: option.splits)

lemma snapshot_step_no_panic: "snapshot_step pair arrays ext d i l w \<noteq> Panic"
  by (auto simp: snapshot_step_def spend_on_bin_def Let_def result_iff visit_bin_no_panic
      partial_no_panic split: option.splits)

lemma snapshot_loop_no_panic: "snapshot_loop pair arrays ext d i l n w \<noteq> Panic"
  by (induction n arbitrary: w) (auto simp: result_iff snapshot_step_no_panic)

lemma snapshot_no_panic: "quote_dlmm_snapshot_with_bitmap amount pair arrays ext d t \<noteq> Panic"
  by (auto simp: quote_dlmm_snapshot_with_bitmap_def Let_def result_iff snapshot_loop_no_panic
      fee_on_input_def supports_limit_orders_def split: if_splits)

section \<open>A sample pair\<close>

text \<open>A pair with two initialised arrays around id 0 and a variable fee, for the closed runs below.\<close>

definition sample_pair :: lb_pair_state where
  "sample_pair =
    \<lparr>static_parameters = \<lparr>base_factor = 10000, filter_period = 30, decay_period = 600,
       reduction_factor = 5000, variable_fee_control = 40000, max_volatility_accumulator = 350000,
       protocol_share = 1000, base_fee_power_factor = 0, function_type = 2, collect_fee_mode = 0\<rparr>,
     variable_parameters = \<lparr>volatility_accumulator = 0, volatility_reference = 0,
       index_reference = 0, last_update_timestamp = 0\<rparr>,
     active_id = 0, bin_step = 10, bitmap = [0, 0, 0, 0, 0, 0, 0, 9223372036854775808, 1, 0, 0, 0, 0, 0, 0, 0],
     rewards_are_empty = True\<rparr>"

definition sample_bin :: "u128 \<Rightarrow> u64 \<Rightarrow> bin" where
  "sample_bin p y = \<lparr>price_q64 = p, amount_x = 0, amount_y = y, open_order_amount = 0,
     processed_order_remaining_amount = 0, limit_order_ask_side = False\<rparr>"

definition sample_arrays :: "parsed_bin_array list" where
  "sample_arrays =
    [\<lparr>array_index = 0, array_bins = [(0, sample_bin 18446744073709551616 1000)]\<rparr>,
     \<lparr>array_index = - 1, array_bins = [(69, sample_bin 18428315757951600016 2000)]\<rparr>]"

lemma sample_quote:
  "quote_dlmm_snapshot_with_bitmap 1500 sample_pair sample_arrays None True 100 =
    Ok \<lparr>snapshot_result = \<lparr>quote_amount_in = 1500, quote_amount_out = 1496, quote_fee = 3\<rparr>,
        used_array_indices = [0, - 1]\<rparr>"
  by (simp add: eval_defs sample_pair_def sample_arrays_def sample_bin_def cong: eval_cong)

lemma sample_quote_more:
  "quote_dlmm_snapshot_with_bitmap 2500 sample_pair sample_arrays None True 100 =
    Ok \<lparr>snapshot_result = \<lparr>quote_amount_in = 2500, quote_amount_out = 2494, quote_fee = 4\<rparr>,
        used_array_indices = [0, - 1]\<rparr>"
  by (simp add: eval_defs sample_pair_def sample_arrays_def sample_bin_def cong: eval_cong)

lemma snapshot_Ok:
  assumes "quote_dlmm_snapshot_with_bitmap amount pair arrays ext d t = Ok r"
  obtains i l v w where
    "fee_on_input pair d = Ok i" "supports_limit_orders pair = Ok l"
    "v = update_reference (active_id pair) (variable_parameters pair) (static_parameters pair) t"
    "snapshot_loop pair arrays ext d i l 16 \<lparr>walk_id = active_id pair, walk_remaining = amount,
      walk_out = 0, walk_fee = 0, walk_used = [], walk_variable = v\<rparr> = Ok w"
    "walk_remaining w = 0"
    "r = \<lparr>snapshot_result = \<lparr>quote_amount_in = amount, quote_amount_out = walk_out w,
        quote_fee = walk_fee w\<rparr>, used_array_indices = walk_used w\<rparr>"
  using assms
  by (auto simp: quote_dlmm_snapshot_with_bitmap_def Let_def result_iff
      MAX_QUOTE_VISITED_BINS_PER_DIRECTION_def split: if_splits)

section \<open>What a quote is made of\<close>

text \<open>A fill is a bin id, the bin the quote spent on there and the partial quote of that bin.\<close>

type_synonym filled_bin = "i32 \<times> bin \<times> quote_result"

definition stored_bin :: "parsed_bin_array list \<Rightarrow> bool \<Rightarrow> i32 \<Rightarrow> bin \<Rightarrow> bool" where
  "stored_bin arrays l bin_id b \<longleftrightarrow>
    (\<exists>array \<in> set arrays. \<exists>stored. array_index array = bin_array_index bin_id \<and>
      find_bin array bin_id = Ok stored \<and> b = (if l then stored else without_limit_orders stored))"

text \<open>The fee parameters of a bin, from the reference state of the quote and the distance of the bin.\<close>

definition fees_at :: "lb_pair_state \<Rightarrow> i32 \<Rightarrow> dlmm_variable_parameters \<Rightarrow> dlmm_fee_parameters" where
  "fees_at pair i v = dlmm_fee_parameters_of pair (update_volatility_accumulator i v (static_parameters pair))"

text \<open>Each fill is the quote of its bin for all that the fills before it left over.\<close>

fun fills_of ::
    "lb_pair_state \<Rightarrow> parsed_bin_array list \<Rightarrow> bool \<Rightarrow> bool \<Rightarrow> bool \<Rightarrow> dlmm_variable_parameters \<Rightarrow> u64
      \<Rightarrow> filled_bin list \<Rightarrow> bool" where
  "fills_of pair arrays d i l v remaining [] \<longleftrightarrow> True"
| "fills_of pair arrays d i l v remaining ((bin_id, b, q) # fills) \<longleftrightarrow>
    stored_bin arrays l bin_id b \<and>
    dlmm_quote_exact_in_partial remaining [b] d i (fees_at pair bin_id v) = Ok q \<and>
    fills_of pair arrays d i l v (remaining - quote_amount_in q) fills"

lemma fills_of_snoc:
  "fills_of pair arrays d i l v a (fills @ [(n, b, q)]) \<longleftrightarrow> fills_of pair arrays d i l v a fills \<and>
    stored_bin arrays l n b \<and> dlmm_quote_exact_in_partial (a - (\<Sum>(_, _, q) \<leftarrow> fills. quote_amount_in q)) [b] d i
      (fees_at pair n v) = Ok q"
  by (induction pair arrays d i l v a fills rule: fills_of.induct) (simp_all add: diff_diff_eq)

text \<open>Along the walk only the accumulator of the fee state changes.\<close>

definition only_accumulates :: "dlmm_variable_parameters \<Rightarrow> dlmm_variable_parameters \<Rightarrow> bool" where
  "only_accumulates v v' \<longleftrightarrow> v' \<lparr>volatility_accumulator := volatility_accumulator v\<rparr> = v"

lemma only_accumulates_fees:
  assumes "only_accumulates v (walk_variable w)"
  shows "dlmm_fee_parameters_of pair (fee_state pair w) = fees_at pair (walk_id w) v"
    "only_accumulates v (fee_state pair w)"
  using assms by (cases v; cases "walk_variable w";
      simp add: fees_at_def fee_state_def update_volatility_exact only_accumulates_def)+

text \<open>The ids run away from the active one: downwards when X is sold, upwards when Y is.\<close>

definition passes :: "bool \<Rightarrow> i32 \<Rightarrow> i32 \<Rightarrow> bool" where
  "passes d a b \<longleftrightarrow> (if d then b < a else a < b)"

definition on_path :: "bool \<Rightarrow> i32 \<Rightarrow> int \<Rightarrow> i32 \<Rightarrow> bool" where
  "on_path d active k j \<longleftrightarrow> (if d then active - k \<le> j \<and> j \<le> active else active \<le> j \<and> j \<le> active + k)"

definition filled_walk ::
    "nat \<Rightarrow> lb_pair_state \<Rightarrow> parsed_bin_array list \<Rightarrow> bool \<Rightarrow> bool \<Rightarrow> bool \<Rightarrow> dlmm_variable_parameters \<Rightarrow> u64 \<Rightarrow> walk
      \<Rightarrow> filled_bin list \<Rightarrow> bool" where
  "filled_walk k pair arrays d i l v amount w fills \<longleftrightarrow>
    in_i32 (walk_id w) \<and> on_path d (active_id pair) (int k) (walk_id w) \<and>
    list_all (\<lambda>f. on_path d (active_id pair) (int k - 1) (fst f)) fills \<and>
    fills_of pair arrays d i l v amount fills \<and> only_accumulates v (walk_variable w) \<and>
    walk_remaining w = amount - (\<Sum>(_, _, q) \<leftarrow> fills. quote_amount_in q) \<and>
    sorted_wrt (passes d) (map fst fills) \<and>
    (walk_remaining w = 0 \<or> list_all (\<lambda>f. passes d (fst f) (walk_id w)) fills) \<and>
    walk_used w = remdups_adj (map (\<lambda>f. bin_array_index (fst f)) fills) \<and>
    unat amount = (\<Sum>(_, _, q) \<leftarrow> fills. unat (quote_amount_in q)) + unat (walk_remaining w) \<and>
    unat (walk_out w) = (\<Sum>(_, _, q) \<leftarrow> fills. unat (quote_amount_out q)) \<and>
    unat (walk_fee w) = (\<Sum>(_, _, q) \<leftarrow> fills. unat (quote_fee q))"

lemma remdups_adj_snoc:
  "remdups_adj (xs @ [x]) = (if xs \<noteq> [] \<and> last xs = x then remdups_adj xs else remdups_adj xs @ [x])"
  by (induction xs rule: remdups_adj.induct) auto

lemma array_initialized_range:
  "array_initialized pair ext index = Ok True \<Longrightarrow> - 7000 \<le> index \<and> index \<le> 7000"
  by (auto simp: array_initialized_def in_default_bitmap_def extension_bitmap_contains_def Let_def result_iff checked_i64_def
      split: if_splits option.splits)

lemma passes_next:
  assumes "- 500000 \<le> i" "i \<le> 500000"
  shows "passes d i (next_id d i)"
  using assms by (auto simp: passes_def next_id_def saturate_i32_def)

lemma passes_next_weak: "passes d a i \<Longrightarrow> in_i32 i \<Longrightarrow> passes d a (next_id d i)"
  by (auto simp: passes_def next_id_def saturate_i32_def in_i32_def split: if_splits)

lemma on_path_next:
  "on_path d active k j \<Longrightarrow> in_i32 j \<Longrightarrow> on_path d active (k + 1) (next_id d j)"
  by (auto simp: on_path_def next_id_def saturate_i32_def in_i32_def split: if_splits)

lemma on_path_mono: "on_path d active k j \<Longrightarrow> k \<le> k' \<Longrightarrow> on_path d active k' j"
  by (auto simp: on_path_def split: if_splits)

lemma visit_bin_fill:
  assumes "visit_bin pair arrays ext l j used = Ok (Some (b, used'))"
  shows "stored_bin arrays l j b" and "passes d j (next_id d j)"
proof -
  from assms obtain array stored where "array_initialized pair ext (bin_array_index j) = Ok True"
      "find (\<lambda>a. array_index a = bin_array_index j) arrays = Some array" "find_bin array j = Ok stored"
      "b = (if l then stored else without_limit_orders stored)"
    by (auto simp: visit_bin_def Let_def result_iff split: if_splits)
  then show "stored_bin arrays l j b" and "passes d j (next_id d j)"
    using array_initialized_range [of pair ext "bin_array_index j"]
    by (auto simp: stored_bin_def find_Some_iff bin_array_index_def intro!: passes_next)
qed

lemma last_remdups_adj: "xs \<noteq> [] \<Longrightarrow> last (remdups_adj xs) = last xs"
  by (induction xs rule: remdups_adj.induct) auto

lemma mark_used_remdups:
  "mark_used index (remdups_adj xs) = Ok used \<Longrightarrow> used = remdups_adj (xs @ [index])"
  using last_remdups_adj [of xs]
  by (auto simp: mark_used_def remdups_adj_snoc split: if_splits)

lemma snapshot_step_fills:
  assumes "filled_walk k pair arrays d i l v amount w fills" "walk_remaining w \<noteq> 0"
    and "snapshot_step pair arrays ext d i l w = Ok w'"
  shows "\<exists>more. length more \<le> 1 \<and> filled_walk (Suc k) pair arrays d i l v amount w' (fills @ more)"
proof -
  have id: "in_i32 (walk_id w)" and path: "on_path d (active_id pair) (int k) (walk_id w)"
    "on_path d (active_id pair) (int k + 1) (walk_id w)"
    "list_all (\<lambda>f. on_path d (active_id pair) (int k) (fst f)) fills"
    using assms(1) on_path_mono unfolding filled_walk_def by (auto simp: list_all_iff)
  note onward = on_path_next [OF path(1) id]
  show ?thesis
    using assms(3)
  proof (cases rule: snapshot_step_Ok)
    case skip
    with assms(1,2) id path onward show ?thesis
      by (intro exI [of _ "[]"]) (auto simp: filled_walk_def list_all_iff passes_next_weak next_id_in_i32 add.commute)
  next
    case (spend b used)
    from spend(2) obtain q where q:
      "dlmm_quote_exact_in_partial (walk_remaining w) [b] d i
        (dlmm_fee_parameters_of pair (fee_state pair w)) = Ok q"
      "unat (walk_remaining w) = unat (quote_amount_in q) + unat (walk_remaining w')"
      "unat (walk_out w') = unat (walk_out w) + unat (quote_amount_out q)"
      "walk_used w' = used" "walk_variable w' = fee_state pair w"
      "walk_id w' = (if walk_remaining w' \<noteq> 0 then next_id d (walk_id w) else walk_id w)"
      "unat (walk_fee w') = unat (walk_fee w) + unat (quote_fee q)"
      by (rule spend_on_bin_Ok)
    have "only_accumulates v (walk_variable w)" using assms(1) by (simp add: filled_walk_def)
    note fees = only_accumulates_fees [OF this, of pair]
    have "fills_of pair arrays d i l v amount (fills @ [(walk_id w, b, q)])"
      using visit_bin_fill(1) [OF spend(1)] q(1) assms(1) by (simp add: fills_of_snoc fees(1) filled_walk_def)
    moreover have "walk_remaining w' = walk_remaining w - quote_amount_in q"
      using q(2) by (simp add: word_unat_eq_iff unat_sub_if')
    moreover have "used = remdups_adj (map (\<lambda>f. bin_array_index (fst f)) fills @ [bin_array_index (walk_id w)])"
      using mark_used_remdups [of "bin_array_index (walk_id w)" "map (\<lambda>f. bin_array_index (fst f)) fills"]
        visit_bin_Some [OF spend(1)] assms(1) by (simp add: filled_walk_def)
    moreover have "passes d (walk_id w) (next_id d (walk_id w))" by (rule visit_bin_fill(2) [OF spend(1)])
    ultimately show ?thesis
      using assms(1,2) q(2-7) id path onward fees(2)
      by (intro exI [of _ "[(walk_id w, b, q)]"])
        (auto simp: filled_walk_def sorted_wrt_append list_all_iff passes_next_weak next_id_in_i32 add.commute)
  qed
qed

lemma snapshot_loop_fills:
  assumes "filled_walk k pair arrays d i l v amount w fills"
    and "snapshot_loop pair arrays ext d i l n w = Ok w'"
  shows "\<exists>more m. length more \<le> n \<and> m \<le> k + n \<and> filled_walk m pair arrays d i l v amount w' (fills @ more)"
  using assms
proof (induction n arbitrary: k w fills)
  case 0
  then show ?case by (intro exI [of _ "[]"]) auto
next
  case (Suc n)
  show ?case
  proof (cases "walk_remaining w = 0")
    case True
    with Suc.prems show ?thesis by (intro exI [of _ "[]"] exI [of _ k]) simp
  next
    case False
    with Suc.prems(2) obtain u where u: "snapshot_step pair arrays ext d i l w = Ok u"
        "snapshot_loop pair arrays ext d i l n u = Ok w'"
      by (auto simp: result_iff)
    from snapshot_step_fills [OF Suc.prems(1) False u(1)] obtain one where one:
      "length one \<le> 1" "filled_walk (Suc k) pair arrays d i l v amount u (fills @ one)" by blast
    from Suc.IH [OF one(2) u(2)] obtain more m where
      "length more \<le> n" "m \<le> Suc k + n" "filled_walk m pair arrays d i l v amount w' ((fills @ one) @ more)" by blast
    with one(1) show ?thesis by (intro exI [of _ "one @ more"] exI [of _ m]) simp
  qed
qed

section \<open>Properties\<close>

text \<open>C13. Every snapshot quote is accounted for bin by bin, and none panics.  A quote is the sum of at most
  sixteen partial quotes, whose inputs add up to exactly the requested input, whose outputs to the quoted
  output and whose fees to the quoted fee.  Each is the quote, for all that those before it left over, of a
  stored bin of a given array (without its limit orders when the pair has none), at the fee that follows from
  the distance of the bin and the decayed reference; their ids run from the active bin in the direction of the
  swap, never twice the same and at most fifteen away from it; and the reported arrays are those of the
  ids, in that order, at most two.\<close>

theorem snapshot_bounded:
  assumes "in_i32 (active_id pair)"
  shows "case quote_dlmm_snapshot_with_bitmap amount pair arrays ext d t of
      Ok r \<Rightarrow> quote_amount_in (snapshot_result r) = amount \<and>
        length (used_array_indices r) \<le> 2 \<and> distinct (used_array_indices r) \<and>
        (\<exists>i l fills. fee_on_input pair d = Ok i \<and> supports_limit_orders pair = Ok l \<and>
          fills_of pair arrays d i l (update_reference (active_id pair) (variable_parameters pair)
            (static_parameters pair) t) amount fills \<and> length fills \<le> 16 \<and>
          list_all (\<lambda>f. on_path d (active_id pair) 15 (fst f)) fills \<and> sorted_wrt (passes d) (map fst fills) \<and>
          used_array_indices r = remdups_adj (map (\<lambda>f. bin_array_index (fst f)) fills) \<and>
          unat amount = (\<Sum>(_, _, q) \<leftarrow> fills. unat (quote_amount_in q)) \<and>
          unat (quote_amount_out (snapshot_result r)) = (\<Sum>(_, _, q) \<leftarrow> fills. unat (quote_amount_out q)) \<and>
          unat (quote_fee (snapshot_result r)) = (\<Sum>(_, _, q) \<leftarrow> fills. unat (quote_fee q)))
    | Err e \<Rightarrow> True
    | Panic \<Rightarrow> False"
proof (cases "quote_dlmm_snapshot_with_bitmap amount pair arrays ext d t")
  case (Ok r)
  then obtain i l v w where modes: "fee_on_input pair d = Ok i" "supports_limit_orders pair = Ok l" and
    w: "snapshot_loop pair arrays ext d i l 16
      \<lparr>walk_id = active_id pair, walk_remaining = amount, walk_out = 0, walk_fee = 0,
       walk_used = [], walk_variable = v\<rparr> = Ok w" "walk_remaining w = 0" and
    v: "v = update_reference (active_id pair) (variable_parameters pair) (static_parameters pair) t" and
    r: "r = \<lparr>snapshot_result = \<lparr>quote_amount_in = amount, quote_amount_out = walk_out w,
        quote_fee = walk_fee w\<rparr>, used_array_indices = walk_used w\<rparr>"
    by (elim snapshot_Ok) auto
  let ?start = "\<lparr>walk_id = active_id pair, walk_remaining = amount, walk_out = 0, walk_fee = 0,
       walk_used = [], walk_variable = v\<rparr>"
  have "walk_ok amount w"
    by (rule snapshot_loop_walk_ok [OF _ w(1)]) (simp add: walk_ok_def assms)
  then have two: "length (walk_used w) \<le> 2" "distinct (walk_used w)" by (simp_all add: walk_ok_def)
  have "filled_walk 0 pair arrays d i l v amount ?start []"
    using assms by (simp add: filled_walk_def on_path_def only_accumulates_def)
  from snapshot_loop_fills [OF this w(1)] obtain fills m where
    fills: "length fills \<le> 16" "m \<le> 16" "filled_walk m pair arrays d i l v amount w fills" by auto
  then have "list_all (\<lambda>f. on_path d (active_id pair) 15 (fst f)) fills"
    by (auto simp: filled_walk_def list_all_iff elim!: on_path_mono)
  with fills modes two w(2) have "length fills \<le> 16 \<and> fee_on_input pair d = Ok i \<and> supports_limit_orders pair = Ok l \<and>
      fills_of pair arrays d i l v amount fills \<and>
      list_all (\<lambda>f. on_path d (active_id pair) 15 (fst f)) fills \<and> sorted_wrt (passes d) (map fst fills) \<and>
      walk_used w = remdups_adj (map (\<lambda>f. bin_array_index (fst f)) fills) \<and>
      unat amount = (\<Sum>(_, _, q) \<leftarrow> fills. unat (quote_amount_in q)) \<and>
      unat (walk_out w) = (\<Sum>(_, _, q) \<leftarrow> fills. unat (quote_amount_out q)) \<and>
      unat (walk_fee w) = (\<Sum>(_, _, q) \<leftarrow> fills. unat (quote_fee q))"
    by (auto simp: filled_walk_def)
  with two show ?thesis unfolding v by (auto simp: Ok r)
next
  case Panic
  then show ?thesis by (simp add: snapshot_no_panic)
qed simp

theorem snapshot_bounded_witness:
  "\<exists>fills. fills_of sample_pair sample_arrays True True True (update_reference (active_id sample_pair)
      (variable_parameters sample_pair) (static_parameters sample_pair) 100) 2500 fills \<and> sorted_wrt (passes True) (map fst fills) \<and>
    remdups_adj (map (\<lambda>f. bin_array_index (fst f)) fills) = [0, - 1] \<and>
    (\<Sum>(_, _, q) \<leftarrow> fills. unat (quote_amount_in q)) = 2500 \<and>
    (\<Sum>(_, _, q) \<leftarrow> fills. unat (quote_amount_out q)) = 2494 \<and> (\<Sum>(_, _, q) \<leftarrow> fills. unat (quote_fee q)) = 4"
proof -
  have modes: "fee_on_input sample_pair True = Ok True" "supports_limit_orders sample_pair = Ok True"
    and "in_i32 (active_id sample_pair)"
    by (simp_all add: sample_pair_def eval_defs in_i32_def)
  from snapshot_bounded [OF this(3), where amount = 2500 and arrays = sample_arrays and ext = None and d = True
      and t = 100] obtain fills where
    "fills_of sample_pair sample_arrays True True True (update_reference (active_id sample_pair)
      (variable_parameters sample_pair) (static_parameters sample_pair) 100) 2500 fills" "sorted_wrt (passes True) (map fst fills)"
    "remdups_adj (map (\<lambda>f. bin_array_index (fst f)) fills) = [0, - 1]"
    "(\<Sum>(_, _, q) \<leftarrow> fills. unat (quote_amount_in q)) = 2500"
    "(\<Sum>(_, _, q) \<leftarrow> fills. unat (quote_amount_out q)) = 2494"
    "(\<Sum>(_, _, q) \<leftarrow> fills. unat (quote_fee q)) = 4"
    unfolding sample_quote_more result.case modes by auto
  then show ?thesis by (intro exI [of _ fills]) simp
qed

text \<open>C14. The output of a snapshot quote is monotone in its input, although the fee rate changes from
  bin to bin.\<close>

theorem snapshot_monotone:
  assumes "quote_dlmm_snapshot_with_bitmap a pair arrays ext d t = Ok r"
    and "quote_dlmm_snapshot_with_bitmap a' pair arrays ext d t = Ok r'"
    and "a \<le> a'"
  shows "quote_amount_out (snapshot_result r) \<le> quote_amount_out (snapshot_result r')"
proof -
  let ?start = "\<lambda>a v. \<lparr>walk_id = active_id pair, walk_remaining = a, walk_out = 0, walk_fee = 0,
      walk_used = [], walk_variable = v\<rparr>"
  from assms(1) obtain i l v w where i: "fee_on_input pair d = Ok i" "supports_limit_orders pair = Ok l"
    "v = update_reference (active_id pair) (variable_parameters pair) (static_parameters pair) t" and
    w: "snapshot_loop pair arrays ext d i l 16 (?start a v) = Ok w"
      "quote_amount_out (snapshot_result r) = walk_out w"
    by (elim snapshot_Ok) auto
  from assms(2) i obtain w' where
    w': "snapshot_loop pair arrays ext d i l 16 (?start a' v) = Ok w'"
      "quote_amount_out (snapshot_result r') = walk_out w'"
    by (elim snapshot_Ok) auto
  have "ahead (?start a v) (?start a' v)" using assms(3) by (simp add: ahead_def)
  from snapshot_loop_ahead [OF this w(1) w'(1)] show ?thesis by (simp add: w(2) w'(2))
qed

theorem snapshot_monotone_witness:
  "\<exists>r r'. quote_dlmm_snapshot_with_bitmap 1500 sample_pair sample_arrays None True 100 = Ok r \<and>
    quote_dlmm_snapshot_with_bitmap 2500 sample_pair sample_arrays None True 100 = Ok r' \<and>
    quote_amount_out (snapshot_result r) = 1496 \<and>
    quote_amount_out (snapshot_result r) \<le> quote_amount_out (snapshot_result r')"
proof -
  from snapshot_monotone [OF sample_quote sample_quote_more] sample_quote sample_quote_more
  show ?thesis by simp
qed

text \<open>C15. Quoting over the windows of the bin arrays (31 bins around the active one) gives, for every
  amount, direction, bitmap extension and time, exactly what quoting over the whole arrays
  gives, errors included: the walk never leaves the window.\<close>

theorem snapshot_windows_suffice:
  assumes "in_i32 (active_id pair)"
    and "list_all2 (\<lambda>data arr. parse_bin_array data = Ok arr \<and>
      - (2 ^ 62) \<le> array_index arr * 70 \<and> array_index arr * 70 < 2 ^ 62) datas arrays"
    and "list_all2 (\<lambda>data win. parse_bin_array_window data (active_id pair) = Ok win) datas windows"
  shows "quote_dlmm_snapshot_with_bitmap amount pair windows ext d t =
    quote_dlmm_snapshot_with_bitmap amount pair arrays ext d t"
proof -
  have "windows = map (bin_window (active_id pair)) arrays"
  proof (rule nth_equalityI)
    show "length windows = length (map (bin_window (active_id pair)) arrays)"
      using assms(2,3) by (auto dest!: list_all2_lengthD)
    fix k assume "k < length windows"
    then have "k < length datas" using assms(3) by (auto dest: list_all2_lengthD)
    from list_all2_nthD [OF assms(2) this] list_all2_nthD [OF assms(3) this]
      parse_window_eq [of "datas ! k" "arrays ! k" "active_id pair"]
    show "windows ! k = map (bin_window (active_id pair)) arrays ! k"
      using \<open>k < length datas\<close> list_all2_lengthD [OF assms(2)] by (simp add: bin_window_def)
  qed
  then show ?thesis by (simp add: quote_snapshot_window [OF assms(1)])
qed

theorem snapshot_windows_suffice_witness:
  "\<exists>arr win. parse_bin_array (replicate 10133 0) = Ok arr \<and>
    parse_bin_array_window (replicate 10133 0) 0 = Ok win \<and>
    quote_dlmm_snapshot_with_bitmap 1500 sample_pair [win] None True 100 =
    quote_dlmm_snapshot_with_bitmap 1500 sample_pair [arr] None True 100"
proof -
  have zero: "int_from_le 8 (take 8 (drop 8 (replicate 10133 0))) = 0"
    by (simp add: int_from_le_def numeral_eq_Suc)
  obtain arr where arr: "parse_bin_array (replicate 10133 0) = Ok arr" "array_index arr = 0"
    by (simp add: parse_bin_array_eq zero del: drop_replicate take_replicate)
  then obtain win where win: "parse_bin_array_window (replicate 10133 0) 0 = Ok win"
    using parse_window_eq [of "replicate 10133 0" arr 0] by simp
  have "active_id sample_pair = 0" by (simp add: sample_pair_def)
  with snapshot_windows_suffice [of sample_pair "[replicate 10133 0]" "[arr]" "[win]"] arr win
  show ?thesis by (auto simp: in_i32_def)
qed

end
