(* ===== verification/Sample_Accounts.thy ===== *)
theory Sample_Accounts
  imports Route Snapshot_Quote
begin

text \<open>
  A complete set of accounts, as bytes, for closed runs of the quoting instructions: a pool of PumpSwap
  with a million units on both sides and no fees, a DLMM pair with one bin that sells at twice the
  price, and an environment whose two DEX programs answer with what the quotes promise.  Nothing here
  models the program; the lemmas evaluate its parsers and checks on these accounts.
\<close>

definition key :: "u8 \<Rightarrow> pubkey" where "key b = replicate 32 b"

lemma key_length [simp]: "length (key b) = 32" by (simp add: key_def)

lemma key_eq_iff [simp]: "key a = key b \<longleftrightarrow> a = b" by (simp add: key_def)

lemma key_not_default [simp]: "b \<noteq> 0 \<Longrightarrow> key b \<noteq> default_pubkey" "b \<noteq> 0 \<Longrightarrow> default_pubkey \<noteq> key b"
  by (simp_all add: key_def default_pubkey_def)

definition zeros :: "nat \<Rightarrow> u8 list" where "zeros n = replicate n 0"

lemma length_zeros [simp]: "length (zeros n) = n" by (simp add: zeros_def)

lemma zeros_0 [simp]: "zeros 0 = []" by (simp add: zeros_def)

lemma zeros_replicate [simp]: "zeros n = replicate n 0 \<longleftrightarrow> True"
  by (simp add: zeros_def)

lemma take_zeros [simp]: "take k (zeros n) = zeros (min k n)" by (simp add: zeros_def min_def)

lemma drop_zeros [simp]: "drop k (zeros n) = zeros (n - k)" by (simp add: zeros_def)

lemma le_nat_zeros [simp]: "le_nat (zeros n) = 0"
  by (induction n) (simp_all add: zeros_def)

lemma le_nat_append [simp]: "le_nat (xs @ ys) = le_nat xs + 256 ^ length xs * le_nat ys"
  by (induction xs) (simp_all add: algebra_simps)

lemma nth_zeros [simp]: "k < n \<Longrightarrow> zeros n ! k = 0" by (simp add: zeros_def)

section \<open>Bytes\<close>

definition run_pool :: "u8 list" where
  "run_pool = PUMP_POOL_DISCRIMINATOR @ zeros 3 @ key 30 @ key 2 @ WSOL_MINT @ zeros 32 @ key 6 @ key 7
    @ zeros 8 @ zeros 32 @ zeros 18"

definition run_token :: "pubkey \<Rightarrow> pubkey \<Rightarrow> u8 list \<Rightarrow> u8 list" where
  "run_token mint owner amount = mint @ owner @ amount @ zeros 93"

definition million :: "u8 list" where "million = [64, 66, 15, 0, 0, 0, 0, 0]"

definition run_pair :: "u8 list" where
  "run_pair = METEORA_LB_PAIR_DISCRIMINATOR @ zeros 27 @ [2] @ zeros 40 @ [69] @ zeros 3 @ zeros 8
    @ key 2 @ WSOL_MINT @ key 10 @ key 11 @ zeros 432 @ [1] @ zeros 63"

definition run_array :: "u8 list" where
  "run_array = METEORA_BIN_ARRAY_DISCRIMINATOR @ zeros 16 @ key 8 @ zeros 9936 @ zeros 8 @ million
    @ zeros 8 @ [2] @ zeros 7 @ zeros 200"

definition run_mint :: "u8 list" where "run_mint = zeros 36 @ million @ zeros 38"

definition run_global :: "u8 list" where "run_global = zeros 400"

definition run_fee_config :: "u8 list" where "run_fee_config = zeros 65"

section \<open>The store and the environment\<close>

definition token_account :: "pubkey \<Rightarrow> u8 list \<Rightarrow> account" where
  "token_account mint amount =
    \<lparr>acc_owner = key 40, acc_executable = False, acc_data = run_token mint (key 1) amount\<rparr>"

definition vault_account :: "pubkey \<Rightarrow> pubkey \<Rightarrow> u8 list \<Rightarrow> account" where
  "vault_account authority mint amount =
    \<lparr>acc_owner = key 40, acc_executable = False, acc_data = run_token mint authority amount\<rparr>"

definition run_store :: store where
  "run_store =
    (\<lambda>_. \<lparr>acc_owner = key 40, acc_executable = True, acc_data = []\<rparr>)
      (key 2 := \<lparr>acc_owner = key 40, acc_executable = False, acc_data = run_mint\<rparr>,
       key 3 := token_account WSOL_MINT [136, 19, 0, 0, 0, 0, 0, 0],
       key 4 := token_account (key 2) [5, 0, 0, 0, 0, 0, 0, 0],
       key 5 := \<lparr>acc_owner = PUMP_SWAP_PROGRAM_ID, acc_executable = False, acc_data = run_pool\<rparr>,
       key 6 := vault_account (key 48) (key 2) million,
       key 7 := vault_account (key 48) WSOL_MINT million,
       key 10 := vault_account (key 13) (key 2) million,
       key 11 := vault_account (key 13) WSOL_MINT million,
       key 8 := \<lparr>acc_owner = METEORA_DLMM_PROGRAM_ID, acc_executable = False, acc_data = run_pair\<rparr>,
       key 9 := \<lparr>acc_owner = METEORA_DLMM_PROGRAM_ID, acc_executable = False, acc_data = run_array\<rparr>,
       ascii ''global_config'' :=
         \<lparr>acc_owner = PUMP_SWAP_PROGRAM_ID, acc_executable = False, acc_data = run_global\<rparr>,
       ascii ''fee_config'' :=
         \<lparr>acc_owner = PUMP_FEE_PROGRAM_ID, acc_executable = False, acc_data = run_fee_config\<rparr>)"

definition run_reload :: "account \<Rightarrow> token_fields option" where
  "run_reload a =
    (let data = acc_data a in
     if length data < 165 then None
     else Some \<lparr>token_mint = take 32 data, token_owner = take 32 (drop 32 data),
       token_balance = word_from_le (take 8 (drop 64 data))\<rparr>)"

definition run_invoke :: "instr \<Rightarrow> account_info list \<Rightarrow> store \<Rightarrow> (nat, store) result" where
  "run_invoke i infos st =
    Ok (if instr_program i = PUMP_SWAP_PROGRAM_ID
      then st(key 3 := token_account WSOL_MINT [160, 15, 0, 0, 0, 0, 0, 0],
              key 4 := token_account (key 2) [235, 3, 0, 0, 0, 0, 0, 0])
      else st(key 3 := token_account WSOL_MINT [108, 23, 0, 0, 0, 0, 0, 0],
              key 4 := token_account (key 2) [5, 0, 0, 0, 0, 0, 0, 0]))"

definition run_env :: env where
  "run_env =
    \<lparr>env_find_program_address = (\<lambda>seeds _. hd seeds), env_token_program = key 40,
     env_token_2022_program = key 41, env_associated_token_program = key 42,
     env_mint_extensions = (\<lambda>_. None), env_reload = run_reload, env_invoke = run_invoke,
     env_clock = Some 1000\<rparr>"

definition run_wsol :: token_fields where
  "run_wsol = \<lparr>token_mint = WSOL_MINT, token_owner = key 1, token_balance = 5000\<rparr>"

definition run_target :: token_fields where
  "run_target = \<lparr>token_mint = key 2, token_owner = key 1, token_balance = 5\<rparr>"

definition run_exec :: exec where
  "run_exec = \<lparr>exec_store = run_store, exec_wsol = run_wsol, exec_target = run_target,
    exec_events = []\<rparr>"

definition run_bin_arrays :: "account_info list" where "run_bin_arrays = [plain_info (key 9)]"

definition run_route :: execute_route where
  "run_route =
    \<lparr>er_trader = \<lparr>info_key = key 1, info_is_signer = True, info_is_writable = True\<rparr>,
     er_wsol_mint = plain_info WSOL_MINT,
     er_target_mint = plain_info (key 2),
     er_user_wsol = plain_info (key 3),
     er_user_target = plain_info (key 4),
     er_wsol_token_program = plain_info (key 40),
     er_target_token_program = plain_info (key 40),
     er_system_program = plain_info (key 43),
     er_associated_token_program = plain_info (key 42),
     er_pump_program = plain_info PUMP_SWAP_PROGRAM_ID,
     er_pump_pool = plain_info (key 5),
     er_pump_global_config = plain_info (ascii ''global_config''),
     er_pump_pool_base_token_account = plain_info (key 6),
     er_pump_pool_quote_token_account = plain_info (key 7),
     er_pump_protocol_fee_recipient = plain_info (key 44),
     er_pump_protocol_fee_recipient_token_account = plain_info (key 45),
     er_pump_event_authority = plain_info (key 46),
     er_pump_coin_creator_vault_ata = plain_info (key 47),
     er_pump_coin_creator_vault_authority = plain_info (key 48),
     er_pump_global_volume_accumulator = plain_info (key 49),
     er_pump_user_volume_accumulator = plain_info (key 50),
     er_pump_user_volume_accumulator_wsol_ata = plain_info (key 51),
     er_pump_fee_config = plain_info (ascii ''fee_config''),
     er_pump_fee_program = plain_info PUMP_FEE_PROGRAM_ID,
     er_pump_pool_v2 = plain_info (key 52),
     er_pump_buyback_fee_recipient = plain_info (key 53),
     er_pump_buyback_fee_recipient_token_account = plain_info (key 54),
     er_meteora_program = plain_info METEORA_DLMM_PROGRAM_ID,
     er_meteora_lb_pair = plain_info (key 8),
     er_meteora_bin_array_bitmap_extension = plain_info METEORA_DLMM_PROGRAM_ID,
     er_meteora_reserve_x = plain_info (key 10),
     er_meteora_reserve_y = plain_info (key 11),
     er_meteora_oracle = plain_info (key 12),
     er_meteora_host_fee_in = plain_info METEORA_DLMM_PROGRAM_ID,
     er_memo_program = plain_info MEMO_PROGRAM_ID,
     er_meteora_event_authority = plain_info (key 13),
     er_target_mint_supply = 1000000\<rparr>"

section \<open>Lookups\<close>

lemma length_ids [simp]:
  "length PUMP_SWAP_PROGRAM_ID = 32" "length PUMP_FEE_PROGRAM_ID = 32"
  "length METEORA_DLMM_PROGRAM_ID = 32" "length WSOL_MINT = 32" "length PUMP_PROGRAM_ID = 32"
  by (simp_all add: PUMP_SWAP_PROGRAM_ID_def PUMP_FEE_PROGRAM_ID_def METEORA_DLMM_PROGRAM_ID_def
      WSOL_MINT_def PUMP_PROGRAM_ID_def)

lemma key_ids [simp]:
  "key b \<noteq> PUMP_SWAP_PROGRAM_ID" "key b \<noteq> PUMP_FEE_PROGRAM_ID" "key b \<noteq> METEORA_DLMM_PROGRAM_ID"
  "key b \<noteq> WSOL_MINT"
proof -
  have "hd xs = hd (tl xs)" if "xs = key b" for xs
    using that by (simp add: key_def numeral_eq_Suc)
  then show "key b \<noteq> PUMP_SWAP_PROGRAM_ID" "key b \<noteq> PUMP_FEE_PROGRAM_ID"
      "key b \<noteq> METEORA_DLMM_PROGRAM_ID" "key b \<noteq> WSOL_MINT"
    by (force simp: PUMP_SWAP_PROGRAM_ID_def PUMP_FEE_PROGRAM_ID_def METEORA_DLMM_PROGRAM_ID_def
        WSOL_MINT_def)+
qed

lemma ids_differ [simp]:
  "METEORA_DLMM_PROGRAM_ID \<noteq> PUMP_SWAP_PROGRAM_ID" "PUMP_SWAP_PROGRAM_ID \<noteq> PUMP_FEE_PROGRAM_ID"
  by (simp_all add: METEORA_DLMM_PROGRAM_ID_def PUMP_SWAP_PROGRAM_ID_def PUMP_FEE_PROGRAM_ID_def)

lemmas key_ids_sym [simp] = key_ids [symmetric]

lemma length_ascii [simp]: "length (ascii s) = length s" by (simp add: ascii_def)

lemma ascii_other [simp]:
  "length s \<noteq> 32 \<Longrightarrow> ascii s \<noteq> key b" "length s \<noteq> 32 \<Longrightarrow> key b \<noteq> ascii s"
  "length s \<noteq> 32 \<Longrightarrow> ascii s \<noteq> PUMP_SWAP_PROGRAM_ID"
  "length s \<noteq> 32 \<Longrightarrow> ascii s \<noteq> PUMP_FEE_PROGRAM_ID"
  "length s \<noteq> 32 \<Longrightarrow> ascii s \<noteq> METEORA_DLMM_PROGRAM_ID" "length s \<noteq> 32 \<Longrightarrow> ascii s \<noteq> WSOL_MINT"
  by (metis length_ascii key_length length_ids)+

lemma ascii_lengths_differ: "length s \<noteq> length t \<Longrightarrow> ascii s \<noteq> ascii t"
  by (metis length_ascii)

text \<open>A store that still has the protocol accounts of the sample.\<close>

definition run_like :: "store \<Rightarrow> bool" where
  "run_like st \<longleftrightarrow> (\<forall>k. k \<noteq> key 3 \<longrightarrow> k \<noteq> key 4 \<longrightarrow> st k = run_store k)"

lemma run_lookups:
  assumes "run_like st"
  shows "st (key 5) = \<lparr>acc_owner = PUMP_SWAP_PROGRAM_ID, acc_executable = False, acc_data = run_pool\<rparr>"
    "st (key 6) = vault_account (key 48) (key 2) million" "st (key 7) = vault_account (key 48) WSOL_MINT million"
    "st (key 8) = \<lparr>acc_owner = METEORA_DLMM_PROGRAM_ID, acc_executable = False, acc_data = run_pair\<rparr>"
    "st (key 9) = \<lparr>acc_owner = METEORA_DLMM_PROGRAM_ID, acc_executable = False, acc_data = run_array\<rparr>"
    "st (ascii ''global_config'') =
      \<lparr>acc_owner = PUMP_SWAP_PROGRAM_ID, acc_executable = False, acc_data = run_global\<rparr>"
    "st (ascii ''fee_config'') =
      \<lparr>acc_owner = PUMP_FEE_PROGRAM_ID, acc_executable = False, acc_data = run_fee_config\<rparr>"
    "acc_executable (st PUMP_SWAP_PROGRAM_ID)" "acc_executable (st PUMP_FEE_PROGRAM_ID)"
    "acc_executable (st METEORA_DLMM_PROGRAM_ID)" "acc_owner (st WSOL_MINT) = key 40"
    "acc_owner (st (key 2)) = key 40"
  using assms ascii_lengths_differ [of "''global_config''" "''fee_config''"]
  by (simp_all add: run_like_def run_store_def ascii_other [symmetric])

section \<open>Parsed accounts\<close>

lemmas run_bytes = bytes_def take_append drop_append

lemma run_pool_parsed:
  "parse_pump_pool run_pool =
    Ok \<lparr>pool_creator = key 30, pool_base_mint = key 2, pool_coin_creator = zeros 32,
       pool_virtual_quote_reserves = 0\<rparr>"
  by (simp add: parse_pump_pool_def run_pool_def PUMP_POOL_DISCRIMINATOR_def run_bytes
      int_from_le_def i128_to_u64_def key_def)

lemma run_pool_prefix:
  "parse_pump_pool_prefix run_pool =
    Ok \<lparr>prefix_base_mint = key 2, prefix_quote_mint = WSOL_MINT, prefix_base_vault = key 6,
       prefix_quote_vault = key 7, prefix_coin_creator = default_pubkey,
       prefix_is_cashback_coin = False\<rparr>"
proof -
  have "zeros 32 = default_pubkey" by (simp add: zeros_def default_pubkey_def)
  moreover have "run_pool ! 244 = 0"
    by (simp add: run_pool_def PUMP_POOL_DISCRIMINATOR_def nth_append)
  moreover have "length run_pool = 261"
    by (simp add: run_pool_def PUMP_POOL_DISCRIMINATOR_def)
  moreover have "take 8 run_pool = PUMP_POOL_DISCRIMINATOR" "take 32 (drop 43 run_pool) = key 2"
      "take 32 (drop 75 run_pool) = WSOL_MINT" "take 32 (drop 139 run_pool) = key 6"
      "take 32 (drop 171 run_pool) = key 7" "take 32 (drop 211 run_pool) = zeros 32"
    by (simp_all add: run_pool_def PUMP_POOL_DISCRIMINATOR_def run_bytes)
  ultimately show ?thesis
    by (simp add: parse_pump_pool_prefix_def check_discriminator_def read_pubkey_eq slice_def
        require_def)
qed

lemma run_token_parsed:
  "length amount = 8 \<Longrightarrow> length mint = 32 \<Longrightarrow> length owner = 32 \<Longrightarrow> token_amount (run_token mint owner amount) = Ok (word_from_le amount)"
  by (simp add: token_amount_def run_token_def run_bytes read_u64_def)

lemma run_million: "word_from_le million = (1000000 :: u64)" "length million = 8"
  by (simp_all add: million_def word_from_le_def)

lemma run_global_parsed:
  "parse_pump_global_fees run_global =
    Ok \<lparr>lp_fee_bps = 0, protocol_fee_bps = 0, creator_fee_bps = 0\<rparr>"
  by (simp add: parse_pump_global_fees_def run_global_def read_bps_def read_u64_def bytes_def
      word_from_le_def try_narrow_def)

lemma run_fees_selected:
  "select_pump_fees_from_data run_fee_config global False minted base quote =
    Ok \<lparr>lp_fee_bps = 0, protocol_fee_bps = 0, creator_fee_bps = 0\<rparr>"
  by (simp add: select_pump_fees_from_data_def parse_fees_def run_fee_config_def read_bps_def
      read_u64_def bytes_def word_from_le_def try_narrow_def DISCRIMINATOR_LEN_def)

definition run_parsed_pair :: lb_pair_state where
  "run_parsed_pair =
    \<lparr>static_parameters = \<lparr>base_factor = 0, filter_period = 0, decay_period = 0,
       reduction_factor = 0, variable_fee_control = 0, max_volatility_accumulator = 0,
       protocol_share = 0, base_fee_power_factor = 0, function_type = 2, collect_fee_mode = 0\<rparr>,
     variable_parameters = \<lparr>volatility_accumulator = 0, volatility_reference = 0,
       index_reference = 0, last_update_timestamp = 0\<rparr>,
     active_id = 69, bin_step = 0, bitmap = [0, 0, 0, 0, 0, 0, 0, 0, 1, 0, 0, 0, 0, 0, 0, 0],
     rewards_are_empty = True\<rparr>"

lemma run_pair_fields:
  "length run_pair = 712" "take 8 run_pair = METEORA_LB_PAIR_DISCRIMINATOR"
  "take 32 (drop 88 run_pair) = key 2" "take 32 (drop 120 run_pair) = WSOL_MINT"
  "take 32 (drop 152 run_pair) = key 10" "take 32 (drop 184 run_pair) = key 11"
  by (simp_all add: run_pair_def METEORA_LB_PAIR_DISCRIMINATOR_def run_bytes)

lemma run_pair_prefix:
  "parse_meteora_pair run_pair =
    Ok \<lparr>pair_token_x_mint = key 2, pair_token_y_mint = WSOL_MINT, pair_reserve_x = key 10,
       pair_reserve_y = key 11\<rparr>"
  by (simp add: parse_meteora_pair_Ok run_pair_fields)

lemma run_pair_parsed: "parse_lb_pair run_pair = Ok run_parsed_pair"
  by (simp add: parse_lb_pair_def parse_static_parameters_def parse_variable_parameters_def
      run_pair_def METEORA_LB_PAIR_DISCRIMINATOR_def PAIR_BASE_def run_bytes read_u16_def
      read_u32_def read_u64_def read_i32_def read_i64_def get_byte_def word_from_le_def
      int_from_le_def nth_append upt_rec Let_def run_parsed_pair_def)

section \<open>Passed checks\<close>

lemma run_like_store: "run_like run_store"
  by (simp add: run_like_def)

lemma run_like_update: "run_like st \<Longrightarrow> run_like (st(key 3 := a, key 4 := b))"
  by (simp add: run_like_def)

lemmas run_simps = run_route_def plain_info_def info_owner_def info_data_def info_executable_def
  vault_account_def

lemma run_pump_validate:
  assumes "run_like st"
  shows "pump_validate run_env st (pump_accounts run_route) = Ok ()"
  unfolding pump_validate_Ok
  by (rule exI [of _ "\<lparr>prefix_base_mint = key 2, prefix_quote_mint = WSOL_MINT,
      prefix_base_vault = key 6, prefix_quote_vault = key 7, prefix_coin_creator = default_pubkey,
      prefix_is_cashback_coin = False\<rparr>"])
    (simp add: pump_pool_matches_def derived_accounts_match_def pump_accounts_def
      run_simps run_pool_prefix run_lookups [OF assms])

lemma run_array_fields:
  "length run_array = 10224" "take 8 run_array = METEORA_BIN_ARRAY_DISCRIMINATOR"
  "take 32 (drop 24 run_array) = key 8" "take 8 (drop 8 run_array) = zeros 8"
  by (simp_all add: run_array_def METEORA_BIN_ARRAY_DISCRIMINATOR_def million_def run_bytes)

lemma run_bin_arrays_valid:
  assumes "run_like st"
  shows "validate_bin_arrays st run_bin_arrays (key 8) = Ok ()"
  by (simp add: validate_bin_arrays_Ok run_bin_arrays_def bin_array_of_def run_simps
      run_lookups [OF assms] run_array_fields)

lemma run_meteora_validate:
  assumes "run_like st"
  shows "meteora_validate st
    (meteora_accounts_of st run_route (er_user_target run_route) (er_user_wsol run_route))
    run_bin_arrays = Ok ()"
  unfolding meteora_validate_Ok
  by (simp add: meteora_accounts_of_def meteora_pair_matches_def owned_or_sentinel_def run_simps
      run_pair_prefix run_lookups [OF assms] run_bin_arrays_valid [OF assms])

lemma run_route_mints: "validate_route_mints run_env run_route run_exec = Ok ()"
proof -
  note [simp] = run_lookups [OF run_like_store]
  have "run_store (key 3) = token_account WSOL_MINT [136, 19, 0, 0, 0, 0, 0, 0]"
      "run_store (key 4) = token_account (key 2) [5, 0, 0, 0, 0, 0, 0, 0]"
    by (simp_all add: run_store_def)
  then show ?thesis
    by (simp add: validate_route_mints_def validate_route_token_programs_def require_def
        is_supported_token_program_def validate_supported_target_mint_def
        validate_user_token_fields_def run_exec_def run_wsol_def run_target_def run_simps
        run_env_def run_pair_prefix token_account_def)
qed

lemma run_reloads:
  "run_reload (token_account mint amount) =
    Some \<lparr>token_mint = mint, token_owner = key 1, token_balance = word_from_le amount\<rparr>"
  if "length mint = 32" "length amount = 8"
  using that by (simp add: run_reload_def token_account_def run_token_def run_bytes)

text \<open>The whole route on these accounts: WSOL goes from 5000 to 5996.\<close>

lemma run_executes:
  "\<exists>s'. pump_to_meteora_execute run_env run_route run_bin_arrays 1000 500
      (run_exec\<lparr>exec_events := events\<rparr>) = Ok s' \<and>
    token_balance (exec_wsol s') = 5996"
proof -
  let ?st1 = "run_store(key 3 := token_account WSOL_MINT [160, 15, 0, 0, 0, 0, 0, 0],
    key 4 := token_account (key 2) [235, 3, 0, 0, 0, 0, 0, 0])"
  let ?st2 = "?st1(key 3 := token_account WSOL_MINT [108, 23, 0, 0, 0, 0, 0, 0],
    key 4 := token_account (key 2) [5, 0, 0, 0, 0, 0, 0, 0])"
  have env: "env_reload run_env = run_reload" "env_invoke run_env = run_invoke"
    by (simp_all add: run_env_def)
  have like: "run_like ?st1" by (simp add: run_like_update run_like_store)
  have pool: "info_data run_store (ps_pool (pump_accounts run_route)) = run_pool"
    by (simp add: pump_accounts_def run_simps run_lookups [OF run_like_store])
  have first: "pump_buy_exact_quote_in_call run_env run_store (pump_accounts run_route) 1000 1 = Ok ?st1"
    by (simp add: pump_buy_exact_quote_in_call_def run_pump_validate [OF run_like_store]
        append_current_remaining_accounts_def pump_invoke_def pump_infos_def pool run_pool_prefix
        env run_invoke_def Let_def)
  have second: "swap2 run_env ?st1 (meteora_accounts_of ?st1 run_route (er_user_target run_route)
      (er_user_wsol run_route), run_bin_arrays) 998 1500 = Ok ?st2"
    by (simp add: swap2_def run_meteora_validate [OF like] env run_invoke_def Let_def)
  have sums: "checked_increase 5 1003 = Ok 998" "checked_increase 4000 5996 = Ok 1996"
      "required_second_leg_out 5000 4000 500 = Ok 1500" "enforce 5000 5996 500 5 5 = Ok ()"
    by (simp_all add: checked_increase_def required_second_leg_out_def enforce_def eval_defs)
  have words: "word_from_le [160, 15, 0, 0, 0, 0, 0, 0] = (4000 :: u64)"
      "word_from_le [235, 3, 0, 0, 0, 0, 0, 0] = (1003 :: u64)"
      "word_from_le [108, 23, 0, 0, 0, 0, 0, 0] = (5996 :: u64)"
      "word_from_le [5, 0, 0, 0, 0, 0, 0, 0] = (5 :: u64)"
    by (simp_all add: word_from_le_def)
  have keys: "info_key (er_user_wsol run_route) = key 3" "info_key (er_user_target run_route) = key 4"
    by (simp_all add: run_simps)
  obtain s' where s': "route_trace run_env run_route PumpToMeteora
      (\<lambda>st. pump_buy_exact_quote_in_call run_env st (pump_accounts run_route) 1000 1)
      (\<lambda>st. swap2 run_env st (meteora_accounts_of st run_route (er_user_target run_route)
        (er_user_wsol run_route), run_bin_arrays))
      500 (run_exec\<lparr>exec_events := events\<rparr>) s' ?st1 \<lparr>token_mint = key 2, token_owner = key 1, token_balance = 1003\<rparr>
      \<lparr>token_mint = WSOL_MINT, token_owner = key 1, token_balance = 4000\<rparr> 998 1500 1996"
    "token_balance (exec_wsol s') = 5996"
    by (rule that [of "\<lparr>exec_store = ?st2,
        exec_wsol = \<lparr>token_mint = WSOL_MINT, token_owner = key 1, token_balance = 5996\<rparr>,
        exec_target = run_target, exec_events = _\<rparr>"])
      (simp_all add: route_trace_def first second keys env run_reloads words sums run_exec_def
        run_wsol_def run_target_def)
  from execute_legs_complete [OF s'(1)] s'(2) show ?thesis
    unfolding pump_to_meteora_execute_def by blast
qed

end
