(* ===== verification/Best_Direction.thy ===== *)
theory Best_Direction
  imports Sample_Accounts
begin

text \<open>
  \<^verbatim>\<open>instructions/best_direction.rs\<close>: both directions are quoted from the raw account bytes, the
  better one that reaches the demanded profit is chosen, and its route is executed.  The quote over
  raw accounts is shown to be the snapshot quote over the parsed accounts; the choice is shown to be
  optimal among the directions that qualify.
\<close>

section \<open>Checks\<close>

definition validate_quote_accounts ::
    "env \<Rightarrow> store \<Rightarrow> execute_route \<Rightarrow> account_info list \<Rightarrow> (program_error, unit) result" where
  "validate_quote_accounts env st r bin_arrays =
    and_then (pump_validate env st (pump_accounts r)) (\<lambda>_.
    and_then (ensure (length bin_arrays \<le> MAX_BEST_DIRECTION_BIN_ARRAYS)
      InvalidRemainingAccounts) (\<lambda>_.
    and_then (ensure (info_owner st (er_pump_global_config r) = PUMP_SWAP_PROGRAM_ID)
      InvalidPool) (\<lambda>_.
    and_then (ensure (info_owner st (er_pump_fee_config r) = PUMP_FEE_PROGRAM_ID)
      InvalidPool) (\<lambda>_.
    and_then (ensure (info_key (er_pump_global_config r) =
        env_find_program_address env [ascii ''global_config''] PUMP_SWAP_PROGRAM_ID)
      InvalidPool) (\<lambda>_.
    and_then (ensure (info_key (er_pump_fee_config r) =
        env_find_program_address env [ascii ''fee_config'', PUMP_SWAP_PROGRAM_ID]
          PUMP_FEE_PROGRAM_ID)
      InvalidPool) (\<lambda>_.
    and_then
      (if info_key (er_meteora_bin_array_bitmap_extension r) \<noteq> METEORA_DLMM_PROGRAM_ID
       then
         and_then (ensure (info_owner st (er_meteora_bin_array_bitmap_extension r) =
             METEORA_DLMM_PROGRAM_ID) InvalidPool) (\<lambda>_.
         ensure (info_key (er_meteora_bin_array_bitmap_extension r) =
             env_find_program_address env
               [ascii ''bitmap'', info_key (er_meteora_lb_pair r)] METEORA_DLMM_PROGRAM_ID)
           InvalidPool)
       else Ok ()) (\<lambda>_.
    validate_bin_arrays st bin_arrays (info_key (er_meteora_lb_pair r)))))))))"

section \<open>Quoting from account bytes\<close>

record account_data_quote =
  adq_amount_out :: u64
  adq_used_indices :: "i64 list"
  adq_used_len :: usize

text \<open>The mutable locals of \<open>quote_dlmm_from_accounts\<close>; \<open>used_indices\<close> is an array of two.\<close>

record account_walk =
  aw_id :: i32
  aw_remaining :: u64
  aw_out :: u64
  aw_indices :: "i64 list"
  aw_len :: usize
  aw_variable :: dlmm_variable_parameters

definition incomplete :: "quote_error \<Rightarrow> program_error" where
  "incomplete e = Arb BestDirectionQuoteIncomplete"

definition mark_used_index ::
    "i64 \<Rightarrow> i64 list \<Rightarrow> usize \<Rightarrow> (program_error, i64 list \<times> usize) result" where
  "mark_used_index index indices len =
    and_then (if len = 0 then Ok True
      else map_ok (\<lambda>previous. previous \<noteq> index) (nth_or_panic indices (len - 1))) (\<lambda>fresh.
    if fresh
    then
      and_then (ensure (len < MAX_QUOTE_BIN_ARRAYS_PER_DIRECTION) BestDirectionQuoteIncomplete) (\<lambda>_.
      if len < length indices then Ok (indices[len := index], len + 1) else Panic)
    else Ok (indices, len))"

text \<open>The second half of the loop body spends on the bin found by the first half.\<close>

definition account_spend ::
    "lb_pair_state \<Rightarrow> bool \<Rightarrow> bool \<Rightarrow> account_walk \<Rightarrow> bin \<Rightarrow> i64 list \<Rightarrow> usize
      \<Rightarrow> (program_error, account_walk) result" where
  "account_spend pair swap_for_y on_input w b indices len =
    (let variable = update_volatility_accumulator (aw_id w) (aw_variable w)
       (static_parameters pair) in
     and_then (map_err incomplete (dlmm_quote_exact_in_partial (aw_remaining w) [b] swap_for_y
         on_input (dlmm_fee_parameters_of pair variable))) (\<lambda>partial.
     and_then (ok_or (Arb ArithmeticOverflow)
         (checked_sub (aw_remaining w) (quote_amount_in partial))) (\<lambda>remaining.
     and_then (ok_or (Arb ArithmeticOverflow)
         (checked_add (aw_out w) (quote_amount_out partial))) (\<lambda>amount_out.
     Ok \<lparr>aw_id = (if remaining \<noteq> 0 then next_id swap_for_y (aw_id w) else aw_id w),
        aw_remaining = remaining, aw_out = amount_out, aw_indices = indices, aw_len = len,
        aw_variable = variable\<rparr>))))"

definition account_step ::
    "store \<Rightarrow> lb_pair_state \<Rightarrow> account_info list \<Rightarrow> u8 list option \<Rightarrow> bool \<Rightarrow> bool \<Rightarrow> bool
      \<Rightarrow> account_walk \<Rightarrow> (program_error, account_walk) result" where
  "account_step st pair arrays bitmap_extension swap_for_y on_input limit_orders w =
    (let index = bin_array_index (aw_id w) in
     and_then (map_err incomplete (array_initialized pair bitmap_extension index)) (\<lambda>initialized.
     if \<not> initialized then Ok (w \<lparr>aw_id := next_id swap_for_y (aw_id w)\<rparr>)
     else
     and_then (ok_or (Arb BestDirectionQuoteIncomplete)
       (find (\<lambda>a. parse_bin_array_index (info_data st a) = Ok index) arrays)) (\<lambda>account.
     and_then (mark_used_index index (aw_indices w) (aw_len w)) (\<lambda>(indices, len).
     and_then (map_err incomplete
       (parse_bin_for_id (info_data st account) (aw_id w) index)) (\<lambda>b.
     account_spend pair swap_for_y on_input w (if limit_orders then b else without_limit_orders b)
       indices len)))))"

fun account_loop ::
    "store \<Rightarrow> lb_pair_state \<Rightarrow> account_info list \<Rightarrow> u8 list option \<Rightarrow> bool \<Rightarrow> bool \<Rightarrow> bool
      \<Rightarrow> nat \<Rightarrow> account_walk \<Rightarrow> (program_error, account_walk) result" where
  "account_loop st pair arrays ext d i l 0 w = Ok w"
| "account_loop st pair arrays ext d i l (Suc n) w =
    (if aw_remaining w = 0 then Ok w
     else and_then (account_step st pair arrays ext d i l w)
       (account_loop st pair arrays ext d i l n))"

definition quote_dlmm_from_accounts ::
    "store \<Rightarrow> u64 \<Rightarrow> lb_pair_state \<Rightarrow> account_info list \<Rightarrow> u8 list option \<Rightarrow> bool \<Rightarrow> i64
      \<Rightarrow> (program_error, account_data_quote) result" where
  "quote_dlmm_from_accounts st amount_in pair arrays bitmap_extension swap_for_y timestamp =
    (let variable = update_reference (active_id pair) (variable_parameters pair)
       (static_parameters pair) timestamp in
     and_then (map_err incomplete (fee_on_input pair swap_for_y)) (\<lambda>on_input.
     and_then (map_err incomplete (supports_limit_orders pair)) (\<lambda>limit_orders.
     and_then (account_loop st pair arrays bitmap_extension swap_for_y on_input limit_orders
         MAX_QUOTE_VISITED_BINS_PER_DIRECTION
         \<lparr>aw_id = active_id pair, aw_remaining = amount_in, aw_out = 0, aw_indices = [0, 0],
          aw_len = 0, aw_variable = variable\<rparr>) (\<lambda>w.
     and_then (ensure (aw_remaining w = 0) BestDirectionQuoteIncomplete) (\<lambda>_.
     Ok \<lparr>adq_amount_out = aw_out w, adq_used_indices = aw_indices w,
        adq_used_len = aw_len w\<rparr>)))))"

section \<open>Choosing a direction\<close>

definition choose_direction ::
    "u64 option \<Rightarrow> u64 option \<Rightarrow> u64 \<Rightarrow> (program_error, route_direction) result" where
  "choose_direction forward_out reverse_out required_out =
    and_then (ensure (forward_out \<noteq> None \<or> reverse_out \<noteq> None) BestDirectionQuoteIncomplete) (\<lambda>_.
    let enough = (\<lambda>quoted. case quoted of None \<Rightarrow> None
          | Some amount_out \<Rightarrow> if required_out \<le> amount_out then Some amount_out else None);
        forward_out = enough forward_out;
        reverse_out = enough reverse_out in
    and_then (ensure (forward_out \<noteq> None \<or> reverse_out \<noteq> None) NoProfitableDirection) (\<lambda>_.
    case (forward_out, reverse_out) of
      (Some forward, Some reverse) \<Rightarrow> Ok (if forward < reverse then MeteoraToPump else PumpToMeteora)
    | (Some _, None) \<Rightarrow> Ok PumpToMeteora
    | (None, Some _) \<Rightarrow> Ok MeteoraToPump
    | (None, None) \<Rightarrow> Panic))"

definition account_error :: "quote_error \<Rightarrow> program_error" where
  "account_error e = Arb InvalidAccountData"

text \<open>The bitmap extension account, or \<open>None\<close> for the sentinel.\<close>

definition bitmap_extension_data :: "store \<Rightarrow> execute_route \<Rightarrow> u8 list option" where
  "bitmap_extension_data st r =
    (if info_key (er_meteora_bin_array_bitmap_extension r) = METEORA_DLMM_PROGRAM_ID then None
     else Some (info_data st (er_meteora_bin_array_bitmap_extension r)))"

text \<open>The account reads at the start of \<open>select_direction\<close>: pool, reserves, fees and pair.\<close>

record pool_inputs =
  in_base_reserve :: u64
  in_quote_reserve :: u64
  in_virtual_quote_reserves :: u64
  in_fees :: pump_fees
  in_pair :: lb_pair_state
  in_target_is_x :: bool

definition read_inputs ::
    "env \<Rightarrow> store \<Rightarrow> execute_route \<Rightarrow> (program_error, pool_inputs) result" where
  "read_inputs env st r =
    and_then (map_err account_error (parse_pump_pool (info_data st (er_pump_pool r)))) (\<lambda>pool.
    and_then (map_err account_error
      (token_amount (info_data st (er_pump_pool_base_token_account r)))) (\<lambda>base_reserve.
    and_then (map_err account_error
      (token_amount (info_data st (er_pump_pool_quote_token_account r)))) (\<lambda>quote_reserve.
    and_then (ok_or (Arb ArithmeticOverflow)
      (checked_add quote_reserve (pool_virtual_quote_reserves pool))) (\<lambda>effective_quote_reserve.
    let expected_pump_creator = env_find_program_address env
      [ascii ''pool-authority'', info_key (er_target_mint r)] PUMP_PROGRAM_ID in
    and_then (map_err account_error
      (parse_pump_global_fees (info_data st (er_pump_global_config r)))) (\<lambda>global.
    and_then (map_err incomplete
      (select_pump_fees_from_data (info_data st (er_pump_fee_config r)) global
        (pool_creator pool = expected_pump_creator) (er_target_mint_supply r) base_reserve
        effective_quote_reserve)) (\<lambda>fees.
    let fees = (if pool_coin_creator pool = replicate 32 0 then fees \<lparr>creator_fee_bps := 0\<rparr>
      else fees) in
    and_then (map_err account_error (parse_lb_pair (info_data st (er_meteora_lb_pair r)))) (\<lambda>pair.
    and_then (parse_meteora_pair (info_data st (er_meteora_lb_pair r))) (\<lambda>prefix.
    Ok \<lparr>in_base_reserve = base_reserve, in_quote_reserve = quote_reserve,
       in_virtual_quote_reserves = pool_virtual_quote_reserves pool, in_fees = fees,
       in_pair = pair,
       in_target_is_x = (pair_token_x_mint prefix = info_key (er_target_mint r))\<rparr>))))))))"

definition pump_buy_quote :: "pool_inputs \<Rightarrow> u64 \<Rightarrow> (quote_error, quote_result) result" where
  "pump_buy_quote p amount =
    pump_buy_exact_quote_in amount (in_base_reserve p) (in_quote_reserve p)
      (in_virtual_quote_reserves p) (lp_fee_bps (in_fees p)) (protocol_fee_bps (in_fees p))
      (creator_fee_bps (in_fees p))"

definition pump_sell_quote :: "pool_inputs \<Rightarrow> u64 \<Rightarrow> (quote_error, quote_result) result" where
  "pump_sell_quote p amount =
    pump_sell_base_in amount (in_base_reserve p) (in_quote_reserve p)
      (in_virtual_quote_reserves p) (lp_fee_bps (in_fees p)) (protocol_fee_bps (in_fees p))
      (creator_fee_bps (in_fees p))"

definition forward_quote ::
    "store \<Rightarrow> pool_inputs \<Rightarrow> account_info list \<Rightarrow> u8 list option \<Rightarrow> u64 \<Rightarrow> i64
      \<Rightarrow> (program_error, account_data_quote option) result" where
  "forward_quote st p arrays ext amount_in timestamp =
    and_then (ok (pump_buy_quote p amount_in)) (\<lambda>bought.
    case bought of
      None \<Rightarrow> Ok None
    | Some pump_buy \<Rightarrow> ok (quote_dlmm_from_accounts st (quote_amount_out pump_buy) (in_pair p) arrays
        ext (in_target_is_x p) timestamp))"

definition reverse_quote ::
    "store \<Rightarrow> pool_inputs \<Rightarrow> account_info list \<Rightarrow> u8 list option \<Rightarrow> u64 \<Rightarrow> i64
      \<Rightarrow> (program_error, (u64 \<times> account_data_quote) option) result" where
  "reverse_quote st p arrays ext amount_in timestamp =
    and_then (ok (quote_dlmm_from_accounts st amount_in (in_pair p) arrays ext
      (\<not> in_target_is_x p) timestamp)) (\<lambda>quoted.
    case quoted of
      None \<Rightarrow> Ok None
    | Some dlmm_quote \<Rightarrow>
        map_ok (map_option (\<lambda>pump_sell. (quote_amount_out pump_sell, dlmm_quote)))
          (ok (pump_sell_quote p (adq_amount_out dlmm_quote))))"

definition select_direction ::
    "env \<Rightarrow> store \<Rightarrow> execute_route \<Rightarrow> account_info list \<Rightarrow> u64 \<Rightarrow> u64 \<Rightarrow> i64
      \<Rightarrow> (program_error, route_direction \<times> i64 list) result" where
  "select_direction env st r arrays amount_in min_profit timestamp =
    (let ext = bitmap_extension_data st r in
     and_then (read_inputs env st r) (\<lambda>p.
     and_then (forward_quote st p arrays ext amount_in timestamp) (\<lambda>forward.
     and_then (cashback_sell_is_ready st (pump_accounts r)) (\<lambda>ready.
     and_then (if ready then reverse_quote st p arrays ext amount_in timestamp else Ok None)
       (\<lambda>reverse.
     and_then (ok_or (Arb ArithmeticOverflow) (checked_add amount_in min_profit)) (\<lambda>required_out.
     and_then (choose_direction (map_option adq_amount_out forward) (map_option fst reverse)
       required_out) (\<lambda>direction.
     if direction = PumpToMeteora
     then
       and_then (ok_or (Arb BestDirectionQuoteIncomplete) forward) (\<lambda>forward.
       Ok (PumpToMeteora, take (adq_used_len forward) (adq_used_indices forward)))
     else
       and_then (ok_or (Arb BestDirectionQuoteIncomplete) reverse) (\<lambda>(_, reverse).
       Ok (MeteoraToPump, take (adq_used_len reverse) (adq_used_indices reverse))))))))))"

definition ordered_bin_arrays ::
    "store \<Rightarrow> account_info list \<Rightarrow> i64 list \<Rightarrow> (program_error, account_info list) result" where
  "ordered_bin_arrays st accounts indices =
    collect (\<lambda>wanted. ok_or (Arb BestDirectionQuoteIncomplete)
      (find (\<lambda>a. parse_bin_array_index (info_data st a) = Ok wanted) accounts)) indices"

definition execute_direction ::
    "env \<Rightarrow> execute_route \<Rightarrow> account_info list \<Rightarrow> u64 \<Rightarrow> u64 \<Rightarrow> route_direction \<Rightarrow> exec
      \<Rightarrow> (program_error, exec) result" where
  "execute_direction env r bin_arrays amount min_profit direction s =
    (case direction of
      PumpToMeteora \<Rightarrow> pump_to_meteora_execute env r bin_arrays amount min_profit s
    | MeteoraToPump \<Rightarrow> meteora_to_pump_execute env r bin_arrays amount min_profit s)"

definition best_direction_handler ::
    "env \<Rightarrow> execute_route \<Rightarrow> account_info list \<Rightarrow> route_args \<Rightarrow> exec \<Rightarrow> (program_error, exec) result" where
  "best_direction_handler env r remaining args s =
    (let st = exec_store s; amount = wsol_amount_in args; min_profit = min_profit_lamports args in
     and_then (validate_args amount min_profit) (\<lambda>_.
     and_then (validate_route_mints env r s) (\<lambda>_.
     and_then (validate_quote_accounts env st r remaining) (\<lambda>_.
     and_then (ok_or ClockUnavailable (env_clock env)) (\<lambda>timestamp.
     and_then (select_direction env st r remaining amount min_profit timestamp)
       (\<lambda>(direction, used).
     and_then (ordered_bin_arrays st remaining used) (\<lambda>selected_bin_arrays.
     execute_direction env r selected_bin_arrays amount min_profit direction s)))))))"

lemmas [eval_defs] =
  validate_quote_accounts_def incomplete_def mark_used_index_def account_spend_def account_step_def
  quote_dlmm_from_accounts_def choose_direction_def account_error_def bitmap_extension_data_def
  read_inputs_def pump_buy_quote_def pump_sell_quote_def forward_quote_def reverse_quote_def
  select_direction_def ordered_bin_arrays_def execute_direction_def best_direction_handler_def

section \<open>Raw accounts and parsed arrays\<close>

lemma parse_bin_array_index_of:
  "parse_bin_array data = Ok arr \<Longrightarrow> parse_bin_array_index data = Ok (array_index arr)"
  by (auto simp: parse_bin_array_def result_iff Let_def)

definition parsed_as :: "store \<Rightarrow> account_info \<Rightarrow> parsed_bin_array \<Rightarrow> bool" where
  "parsed_as st a arr \<longleftrightarrow> parse_bin_array (info_data st a) = Ok arr"

lemma find_parsed:
  assumes "list_all2 (parsed_as st) accounts arrays"
  shows "rel_option (\<lambda>a arr. parsed_as st a arr \<and> array_index arr = index)
    (find (\<lambda>a. parse_bin_array_index (info_data st a) = Ok index) accounts)
    (find (\<lambda>arr. array_index arr = index) arrays)"
  using assms
  by (induction rule: list_all2_induct) (auto simp: parsed_as_def parse_bin_array_index_of)

lemma find_upt: "k < n \<Longrightarrow> find (\<lambda>i. i = k) [0..<n] = Some k"
  unfolding find_Some_iff by (intro exI [of _ k]) simp

lemma of_nat_u8_eq:
  assumes "j < 256" "k < 256"
  shows "(of_nat j :: u8) = of_nat k \<longleftrightarrow> j = k"
proof -
  have "unat (of_nat j :: u8) = j" "unat (of_nat k :: u8) = k"
    using assms by (intro unat_of_nat_small, simp)+
  then show ?thesis by metis
qed

lemma find_bin_parsed:
  assumes "in_i32 i" "parse_bin_array data = Ok arr" "array_index arr = bin_array_index i"
  shows "find_bin arr i = Ok (bin_at data (56 + 144 * nat (i mod 70)))"
proof -
  let ?off = "nat (i mod 70)"
  have off: "bin_offset i (bin_array_index i) = Ok ?off"
    using bin_offset_iff [OF assms(1)] by simp
  have small: "?off < 70" by simp
  have eq: "(of_nat ?off :: u8) = of_nat k \<longleftrightarrow> k = ?off" if "k < 70" for k
    using of_nat_u8_eq [of ?off k] that small by (simp only:) auto
  have bins: "array_bins arr = map (\<lambda>i. (of_nat i, bin_at data (56 + 144 * i))) [0..<70]"
    using assms(2) by (auto simp: parse_bin_array_eq split: if_splits)
  have "find (\<lambda>k. (of_nat k :: u8) = of_nat ?off) [0..<70] = find (\<lambda>k. k = ?off) [0..<70]"
    by (intro find_cong) (auto simp: eq [symmetric])
  then show ?thesis
    by (simp add: find_bin_def assms(3) off bins find_map_option find_upt [OF small] comp_def)
qed

lemma parsed_bin:
  assumes "in_i32 i" "parsed_as st a arr" "array_index arr = bin_array_index i"
  shows "\<exists>b. find_bin arr i = Ok b \<and> parse_bin_for_id (info_data st a) i (bin_array_index i) = Ok b"
proof -
  let ?data = "info_data st a"
  from assms(2) have arr: "parse_bin_array ?data = Ok arr" and long: "56 + 69 * 144 + 141 \<le> length ?data"
    by (auto simp: parsed_as_def parse_bin_array_eq split: if_splits)
  have "nat (i mod 70) < 70" "bin_offset i (bin_array_index i) = Ok (nat (i mod 70))"
    using bin_offset_iff [OF assms(1)] by simp_all
  then have "parse_bin_for_id ?data i (bin_array_index i) = Ok (bin_at ?data (56 + 144 * nat (i mod 70)))"
    using long by (simp add: parse_bin_for_id_def BIN_ARRAY_HEADER_SIZE_def parse_bin_eq)
  then show ?thesis using find_bin_parsed [OF assms(1) arr assms(3)] by simp
qed

text \<open>The snapshot also sums the fees; the sum never overflows, since a fee on the input is part of the
  input and a fee on the output is at most a ninth of the output and one.\<close>

lemma fee_up_tenth: "r \<le> 100000000 \<Longrightarrow> 10 * fee_up r n \<le> n + 9"
proof -
  assume "r \<le> 100000000"
  then have "n * r \<le> n * 100000000" by simp
  moreover have "fee_up r n * 1000000000 < n * r + 1000000000"
    unfolding fee_up_def by (rule ceil_nat_upper) simp
  ultimately show ?thesis by linarith
qed

lemma partial_fee_bound:
  assumes "dlmm_quote_exact_in_partial a [b] d on_input f = Ok q"
  shows "if on_input then unat (quote_fee q) \<le> unat (quote_amount_in q)
    else 9 * unat (quote_fee q) \<le> unat (quote_amount_out q) + 9"
proof -
  from assms obtain r s where r: "dlmm_total_fee_rate f = Ok r" "unat r < 1000000000" and
    s: "fill_bin d on_input r (start_fill a) b = Ok s" and
    q: "q = \<lparr>quote_amount_in = fill_total_in s, quote_amount_out = fill_total_out s,
          quote_fee = fill_total_fee s\<rparr>"
    by (rule partial_one_bin_Ok)
  have small: "unat r \<le> 100000000"
    using dlmm_total_fee_rate_OkD [OF r(1)] by linarith
  show ?thesis using r(2) s
  proof (cases rule: fill_bin_take)
    case skip
    then show ?thesis by (simp add: q start_fill_def)
  next
    case (taken spent paid)
    have "fee_up (unat r) spent \<le> spent" using small by (intro fee_up_le) simp
    moreover have "9 * fee_up (unat r) paid \<le> net_of_fee (unat r) paid + 9"
      using fee_up_tenth [OF small, of paid] by (simp add: net_of_fee_def)
    ultimately show ?thesis
      using taken(5-7) by (simp add: q start_fill_def paid_out_def step_fee_def)
  qed
qed

definition fee_bounded :: "bool \<Rightarrow> nat \<Rightarrow> u64 \<Rightarrow> walk \<Rightarrow> bool" where
  "fee_bounded on_input k amount v \<longleftrightarrow>
    (if on_input then unat (walk_fee v) + unat (walk_remaining v) \<le> unat amount
     else 9 * unat (walk_fee v) \<le> unat (walk_out v) + 9 * k)"

definition same_walk :: "account_walk \<Rightarrow> walk \<Rightarrow> bool" where
  "same_walk w v \<longleftrightarrow>
    in_i32 (walk_id v) \<and> aw_id w = walk_id v \<and> aw_remaining w = walk_remaining v \<and>
    aw_out w = walk_out v \<and> aw_variable w = walk_variable v \<and>
    aw_len w = length (walk_used v) \<and> length (walk_used v) \<le> 2 \<and> length (aw_indices w) = 2 \<and>
    take (aw_len w) (aw_indices w) = walk_used v"

lemma mark_used_index_agree:
  assumes "length indices = 2" "len \<le> 2"
  shows "agree (\<lambda>(indices', len') used'. len' = length used' \<and> length used' \<le> 2 \<and>
      length indices' = 2 \<and> take len' indices' = used')
    (mark_used_index index indices len) (mark_used index (take len indices))"
proof -
  from assms(1) obtain a b where indices: "indices = [a, b]"
    by (auto simp: length_Suc_conv numeral_2_eq_2)
  from assms(2) have "len = 0 \<or> len = 1 \<or> len = 2" by linarith
  then show ?thesis
    by (auto simp: indices mark_used_index_def mark_used_def nth_or_panic_def require_def
        MAX_QUOTE_BIN_ARRAYS_PER_DIRECTION_def)
qed

lemma spend_agree:
  assumes "same_walk w v" "fee_bounded on_input k amount v" "k < 16"
    and "len = length used" "length used \<le> 2" "length indices = 2" "take len indices = used"
  shows "agree (\<lambda>w' v'. same_walk w' v' \<and> fee_bounded on_input (Suc k) amount v')
    (account_spend pair d on_input w b indices len)
    (spend_on_bin pair d on_input v b used)"
proof -
  let ?f = "dlmm_fee_parameters_of pair (update_volatility_accumulator (walk_id v)
    (walk_variable v) (static_parameters pair))"
  let ?quote = "dlmm_quote_exact_in_partial (walk_remaining v) [b] d on_input ?f"
  have total: "checked_add (walk_fee v) (quote_fee q) = Some (walk_fee v + quote_fee q) \<and>
      unat (walk_fee v + quote_fee q) = unat (walk_fee v) + unat (quote_fee q)"
    if "?quote = Ok q" "checked_sub (walk_remaining v) (quote_amount_in q) = Some rem"
      "checked_add (walk_out v) (quote_amount_out q) = Some out" for q rem out
  proof -
    have "unat (walk_fee v) + unat (quote_fee q) < 2 ^ 64"
      using partial_fee_bound [OF that(1)] assms(2,3) that(2,3) unat_lt_exp [of amount]
        unat_lt_exp [of out]
      by (cases on_input) (auto simp: fee_bounded_def checked_sub_Some checked_add_Some)
    then show ?thesis by (simp add: checked_add_def unat_add_small)
  qed
  note same = assms(1) [unfolded same_walk_def]
  show ?thesis
  proof (cases ?quote)
    case (Ok q)
    show ?thesis
    proof (cases "checked_sub (walk_remaining v) (quote_amount_in q)")
      case None
      then show ?thesis
        by (simp add: account_spend_def spend_on_bin_def Let_def same Ok)
    next
      case (Some rem)
      note sub = Some
      show ?thesis
      proof (cases "checked_add (walk_out v) (quote_amount_out q)")
        case None
        then show ?thesis
          by (simp add: account_spend_def spend_on_bin_def Let_def same Ok sub)
      next
        case (Some out)
        note sum = total [OF Ok sub Some]
        have "fee_bounded on_input (Suc k) amount v'"
          if "walk_fee v' = walk_fee v + quote_fee q" "walk_remaining v' = rem" "walk_out v' = out" for v'
          using partial_fee_bound [OF Ok] assms(2) conjunct2 [OF sum] sub Some
          by (cases on_input) (simp_all add: fee_bounded_def that checked_sub_Some checked_add_Some)
        then show ?thesis
          by (simp add: account_spend_def spend_on_bin_def Let_def same Ok sub Some sum same_walk_def
              assms(4-6) assms(7) [unfolded assms(4)] next_id_in_i32)
      qed
    qed
  qed (simp_all add: account_spend_def spend_on_bin_def Let_def same)
qed

lemma snapshot_step_flat:
  "snapshot_step pair arrays ext d i l v =
    and_then (array_initialized pair ext (bin_array_index (walk_id v))) (\<lambda>initialized.
    if \<not> initialized then Ok (v \<lparr>walk_id := next_id d (walk_id v)\<rparr>)
    else
    and_then (ok_or InsufficientLiquidity
      (find (\<lambda>arr. array_index arr = bin_array_index (walk_id v)) arrays)) (\<lambda>arr.
    and_then (mark_used (bin_array_index (walk_id v)) (walk_used v)) (\<lambda>used.
    and_then (find_bin arr (walk_id v)) (\<lambda>b.
    spend_on_bin pair d i v (if l then b else without_limit_orders b) used))))"
proof (cases "array_initialized pair ext (bin_array_index (walk_id v))")
  case (Ok initialized)
  then show ?thesis
    by (cases initialized) (simp_all add: snapshot_step_def visit_bin_def and_then_assoc Let_def)
qed (simp_all add: snapshot_step_def visit_bin_def Let_def)

lemma step_agree:
  assumes parsed: "list_all2 (parsed_as st) accounts arrays"
    and same: "same_walk w v" and fee: "fee_bounded i k amount v" "k < 16"
  shows "agree (\<lambda>w' v'. same_walk w' v' \<and> fee_bounded i (Suc k) amount v')
    (account_step st pair accounts ext d i l w) (snapshot_step pair arrays ext d i l v)"
proof -
  let ?index = "bin_array_index (walk_id v)"
  note walk = same [unfolded same_walk_def]
  have marked: "agree (\<lambda>(indices', len') used'. len' = length used' \<and> length used' \<le> 2 \<and>
      length indices' = 2 \<and> take len' indices' = used')
    (mark_used_index ?index (aw_indices w) (aw_len w)) (mark_used ?index (walk_used v))"
    using mark_used_index_agree [of "aw_indices w" "aw_len w" ?index] walk by metis
  have skip: "same_walk (w \<lparr>aw_id := next_id d (walk_id v)\<rparr>) (v \<lparr>walk_id := next_id d (walk_id v)\<rparr>) \<and>
      fee_bounded i (Suc k) amount (v \<lparr>walk_id := next_id d (walk_id v)\<rparr>)"
    using walk fee(1) by (auto simp: same_walk_def fee_bounded_def next_id_in_i32)
  note steps = account_step_def snapshot_step_flat Let_def conjunct1 [OF conjunct2 [OF walk]]
  show ?thesis
  proof (cases "array_initialized pair ext ?index")
    case (Ok initialized)
    note init = Ok
    show ?thesis
    proof (cases initialized)
      case True
      from find_parsed [OF parsed, of ?index] show ?thesis
      proof (cases rule: option.rel_cases)
        case None
        with True init show ?thesis by (simp add: steps)
      next
        case (Some a arr)
        with parsed_bin [OF conjunct1 [OF walk]] obtain b where
          "find_bin arr (walk_id v) = Ok b"
          "parse_bin_for_id (info_data st a) (walk_id v) ?index = Ok b"
          by metis
        with True init Some show ?thesis
          by (cases l) (auto simp: steps intro!: agree_and_then [OF marked] spend_agree [OF same fee])
      qed
    qed (use init skip in \<open>simp add: steps\<close>)
  qed (simp_all add: steps)
qed

lemma loop_agree:
  assumes "list_all2 (parsed_as st) accounts arrays"
  shows "same_walk w v \<Longrightarrow> fee_bounded i k amount v \<Longrightarrow> k + n \<le> 16 \<Longrightarrow>
    agree same_walk (account_loop st pair accounts ext d i l n w) (snapshot_loop pair arrays ext d i l n v)"
proof (induction n arbitrary: w v k)
  case (Suc n)
  have "aw_remaining w = walk_remaining v" using Suc.prems(1) by (simp add: same_walk_def)
  moreover have "agree same_walk
      (and_then (account_step st pair accounts ext d i l w) (account_loop st pair accounts ext d i l n))
      (and_then (snapshot_step pair arrays ext d i l v) (snapshot_loop pair arrays ext d i l n))"
    using Suc.prems by (intro agree_and_then [OF step_agree [OF assms]]) (auto intro: Suc.IH)
  ultimately show ?case using Suc.prems(1) by simp
qed simp

lemma quotes_agree:
  assumes "in_i32 (active_id pair)" "list_all2 (parsed_as st) accounts arrays"
  shows "agree (\<lambda>q r. adq_amount_out q = quote_amount_out (snapshot_result r) \<and>
      take (adq_used_len q) (adq_used_indices q) = used_array_indices r)
    (quote_dlmm_from_accounts st amount pair accounts ext d t)
    (quote_dlmm_snapshot_with_bitmap amount pair arrays ext d t)"
proof -
  let ?v = "update_reference (active_id pair) (variable_parameters pair) (static_parameters pair) t"
  let ?w = "\<lparr>aw_id = active_id pair, aw_remaining = amount, aw_out = 0, aw_indices = [0, 0],
    aw_len = 0, aw_variable = ?v\<rparr>"
  let ?s = "\<lparr>walk_id = active_id pair, walk_remaining = amount, walk_out = 0, walk_fee = 0,
    walk_used = [], walk_variable = ?v\<rparr>"
  have loop: "agree same_walk (account_loop st pair accounts ext d i l 16 ?w)
      (snapshot_loop pair arrays ext d i l 16 ?s)" for i l
    by (rule loop_agree [OF assms(2), where k = 0 and amount = amount])
      (simp_all add: same_walk_def fee_bounded_def assms(1))
  show ?thesis
    unfolding quote_dlmm_from_accounts_def quote_dlmm_snapshot_with_bitmap_def Let_def
      MAX_QUOTE_VISITED_BINS_PER_DIRECTION_def
    by (rule agree_and_then [where R = "(=)"], simp add: agree_refl)+
      (auto intro!: agree_and_then [OF loop] simp: same_walk_def require_def)
qed

section \<open>The choice\<close>

lemma choose_direction_cases:
  "choose_direction f r required =
    (case (f, r) of
      (None, None) \<Rightarrow> Err (Arb BestDirectionQuoteIncomplete)
    | (Some x, None) \<Rightarrow> if required \<le> x then Ok PumpToMeteora else Err (Arb NoProfitableDirection)
    | (None, Some y) \<Rightarrow> if required \<le> y then Ok MeteoraToPump else Err (Arb NoProfitableDirection)
    | (Some x, Some y) \<Rightarrow>
        if required \<le> max x y then Ok (if x < y then MeteoraToPump else PumpToMeteora)
        else Err (Arb NoProfitableDirection))"
  by (cases f; cases r) (auto simp: choose_direction_def require_def max_def)

lemma choose_direction_no_panic: "choose_direction f r required \<noteq> Panic"
  by (simp add: choose_direction_cases split: option.split)

text \<open>What a direction is quoted to bring back, and the arrays its DLMM quote used.\<close>

definition round_trip ::
    "store \<Rightarrow> execute_route \<Rightarrow> pool_inputs \<Rightarrow> account_info list \<Rightarrow> u64 \<Rightarrow> i64 \<Rightarrow> route_direction
      \<Rightarrow> (program_error, (u64 \<times> i64 list) option) result" where
  "round_trip st r p arrays amount t direction =
    (let ext = bitmap_extension_data st r in
     case direction of
       PumpToMeteora \<Rightarrow>
         map_ok (map_option (\<lambda>q. (adq_amount_out q, take (adq_used_len q) (adq_used_indices q))))
           (forward_quote st p arrays ext amount t)
     | MeteoraToPump \<Rightarrow>
         and_then (cashback_sell_is_ready st (pump_accounts r)) (\<lambda>ready.
         if ready
         then map_ok (map_option (\<lambda>(out, q). (out, take (adq_used_len q) (adq_used_indices q))))
           (reverse_quote st p arrays ext amount t)
         else Ok None))"

fun opposite :: "route_direction \<Rightarrow> route_direction" where
  "opposite PumpToMeteora = MeteoraToPump"
| "opposite MeteoraToPump = PumpToMeteora"

lemma select_direction_Ok:
  assumes "select_direction env st r arrays amount profit t = Ok (d, used)"
  shows "\<exists>p out. read_inputs env st r = Ok p \<and>
    round_trip st r p arrays amount t d = Ok (Some (out, used)) \<and>
    unat amount + unat profit \<le> unat out \<and>
    (\<forall>out' used'. round_trip st r p arrays amount t (opposite d) = Ok (Some (out', used')) \<longrightarrow>
      out' \<le> out)"
proof -
  let ?ext = "bitmap_extension_data st r"
  from assms obtain p f ready v required direction where
    p: "read_inputs env st r = Ok p" and
    f: "forward_quote st p arrays ?ext amount t = Ok f" and
    ready: "cashback_sell_is_ready st (pump_accounts r) = Ok ready" and
    v: "(if ready then reverse_quote st p arrays ?ext amount t else Ok None) = Ok v" and
    required: "checked_add amount profit = Some required" and
    chosen: "choose_direction (map_option adq_amount_out f) (map_option fst v) required = Ok direction" and
    rest: "(if direction = PumpToMeteora
      then and_then (ok_or (Arb BestDirectionQuoteIncomplete) f) (\<lambda>forward.
        Ok (PumpToMeteora, take (adq_used_len forward) (adq_used_indices forward)))
      else and_then (ok_or (Arb BestDirectionQuoteIncomplete) v) (\<lambda>(_, reverse).
        Ok (MeteoraToPump, take (adq_used_len reverse) (adq_used_indices reverse)))) = Ok (d, used)"
    unfolding select_direction_def Let_def and_then_eq_Ok [where f = "\<lambda>p. and_then (f p) (g p)" for f g]
      ok_or_eq_Ok and_then_eq_Ok [where f = "\<lambda>d. if P d then f d else g d" for P f g]
    by blast
  have d: "choose_direction (map_option adq_amount_out f) (map_option fst v) required = Ok d" and
    used: "if d = PumpToMeteora
      then \<exists>q. f = Some q \<and> used = take (adq_used_len q) (adq_used_indices q)
      else \<exists>out q. v = Some (out, q) \<and> used = take (adq_used_len q) (adq_used_indices q)"
    using chosen rest by (cases direction; auto simp: result_iff)+
  have enough: "unat amount + unat profit \<le> unat x" if "required \<le> x" for x
    using that required by (simp add: checked_add_Some word_le_nat_alt)
  have trips: "round_trip st r p arrays amount t PumpToMeteora =
      Ok (map_option (\<lambda>q. (adq_amount_out q, take (adq_used_len q) (adq_used_indices q))) f)"
    "round_trip st r p arrays amount t MeteoraToPump =
      Ok (map_option (\<lambda>(out, q). (out, take (adq_used_len q) (adq_used_indices q))) v)"
    using f ready v by (auto simp: round_trip_def split: if_splits)
  show ?thesis
    using d used enough p
    by (cases d; cases f; cases v)
      (auto simp: trips choose_direction_cases max_def split: if_splits)
qed

lemma ordered_bin_arrays_Ok:
  "ordered_bin_arrays st accounts indices = Ok arrays \<Longrightarrow>
    set arrays \<subseteq> set accounts \<and> length arrays = length indices \<and>
    list_all2 (\<lambda>a index. parse_bin_array_index (info_data st a) = Ok index) arrays indices"
proof -
  assume "ordered_bin_arrays st accounts indices = Ok arrays"
  then have found: "list_all2 (\<lambda>index a. a \<in> set accounts \<and>
      parse_bin_array_index (info_data st a) = Ok index) indices arrays"
    by (auto simp: ordered_bin_arrays_def collect_Ok_iff result_iff find_Some_iff
        elim!: list.rel_mono_strong)
  then show ?thesis
    by (auto simp: list_all2_conv_all_nth set_conv_nth)
qed

lemma execute_direction_profit:
  assumes "execute_direction env r arrays amount profit d s = Ok s'"
  shows "unat (token_balance (exec_wsol s)) + unat profit \<le> unat (token_balance (exec_wsol s')) \<and>
    token_balance (exec_target s') = token_balance (exec_target s)"
proof -
  from assms obtain first second where "execute_legs env r d first second profit s = Ok s'"
    by (cases d) (auto simp: execute_direction_def pump_to_meteora_execute_def
        meteora_to_pump_execute_def)
  from execute_legs_trace [OF this] show ?thesis by (auto simp: route_trace_def enforce_Ok)
qed

lemma execute_direction_events:
  assumes "execute_direction env r arrays amount profit d s = Ok s'"
  shows "\<exists>more. exec_events s' = exec_events s @ more"
proof -
  from assms obtain first second where "execute_legs env r d first second profit s = Ok s'"
    by (cases d) (auto simp: execute_direction_def pump_to_meteora_execute_def
        meteora_to_pump_execute_def)
  from execute_legs_trace [OF this] show ?thesis by (auto simp: route_trace_def)
qed

section \<open>A run on the sample accounts\<close>

lemma account_loop_numeral [eval_defs]:
  "account_loop st pair arrays ext d i l (numeral n) w =
    (if aw_remaining w = 0 then Ok w
     else and_then (account_step st pair arrays ext d i l w)
       (account_loop st pair arrays ext d i l (pred_numeral n)))"
  by (simp add: numeral_eq_Suc)

lemma run_bin: "parse_bin_for_id run_array 69 0 =
    Ok \<lparr>price_q64 = 36893488147419103232, amount_x = 0, amount_y = 1000000,
      open_order_amount = 0, processed_order_remaining_amount = 0, limit_order_ask_side = False\<rparr>"
  by (simp add: parse_bin_for_id_def bin_offset_def checked_i64_def parse_bin_def checked_usize_def
      BIN_SIZE_def BIN_ARRAY_HEADER_SIZE_def run_array_def METEORA_BIN_ARRAY_DISCRIMINATOR_def
      million_def run_bytes read_u64_def read_u128_def get_byte_def word_from_le_def nth_append)

lemma run_array_index: "parse_bin_array_index run_array = Ok 0"
  by (simp add: parse_bin_array_index_def read_i64_def bytes_def run_array_fields int_from_le_def)

lemma run_array_data: "info_data run_store (plain_info (key 9)) = run_array"
  by (simp add: run_simps run_lookups [OF run_like_store])

definition run_inputs :: pool_inputs where
  "run_inputs =
    \<lparr>in_base_reserve = 1000000, in_quote_reserve = 1000000, in_virtual_quote_reserves = 0,
     in_fees = \<lparr>lp_fee_bps = 0, protocol_fee_bps = 0, creator_fee_bps = 0\<rparr>,
     in_pair = run_parsed_pair, in_target_is_x = True\<rparr>"

lemma run_reads: "read_inputs run_env run_store run_route = Ok run_inputs"
proof -
  have [simp]: "key 30 \<noteq> ascii ''pool-authority''" by simp
  show ?thesis
    by (simp add: read_inputs_def run_simps run_lookups [OF run_like_store] run_pool_parsed
        token_account_def run_token_parsed run_million run_global_parsed run_fees_selected
        run_pair_parsed run_pair_prefix run_env_def checked_add_def run_inputs_def)
qed

lemma run_pump_buy: "pump_buy_quote run_inputs 1000 =
    Ok \<lparr>quote_amount_in = 1000, quote_amount_out = 998, quote_fee = 0\<rparr>"
  by (simp add: run_inputs_def eval_defs cong: eval_cong)

lemmas run_dlmm = quote_dlmm_from_accounts_def run_array_data run_array_index run_bin
  run_bin_arrays_def run_parsed_pair_def

lemma run_forward: "quote_dlmm_from_accounts run_store 998 run_parsed_pair run_bin_arrays None True 1000 =
    Ok \<lparr>adq_amount_out = 1996, adq_used_indices = [0, 0], adq_used_len = 1\<rparr>"
  by (simp add: run_bin run_array_data run_array_index run_bin_arrays_def run_parsed_pair_def
      eval_defs del: parse_bin_for_id_def parse_bin_array_index_def cong: eval_cong)

lemma run_reverse: "quote_dlmm_from_accounts run_store 1000 run_parsed_pair run_bin_arrays None False 1000 =
    Err (Arb BestDirectionQuoteIncomplete)"
  by (simp add: run_bin run_array_data run_array_index run_bin_arrays_def run_parsed_pair_def
      eval_defs del: parse_bin_for_id_def parse_bin_array_index_def cong: eval_cong)

lemma run_forward_quote: "forward_quote run_store run_inputs run_bin_arrays None 1000 1000 =
    Ok (Some \<lparr>adq_amount_out = 1996, adq_used_indices = [0, 0], adq_used_len = 1\<rparr>)"
  by (simp add: forward_quote_def run_pump_buy) (simp add: run_inputs_def run_forward)

lemma run_reverse_quote: "reverse_quote run_store run_inputs run_bin_arrays None 1000 1000 = Ok None"
  by (simp add: reverse_quote_def) (simp add: run_inputs_def run_reverse)

lemma run_selects: "select_direction run_env run_store run_route run_bin_arrays 1000 500 1000 =
    Ok (PumpToMeteora, [0])"
proof -
  have ext: "bitmap_extension_data run_store run_route = None"
    by (simp add: bitmap_extension_data_def run_simps)
  have "cashback_sell_is_ready run_store (pump_accounts run_route) = Ok True"
    by (simp add: cashback_sell_is_ready_def pump_accounts_def run_simps run_pool_prefix
        run_lookups [OF run_like_store])
  then show ?thesis
    by (simp add: select_direction_def run_forward_quote run_reverse_quote run_reads ext checked_add_def choose_direction_cases)
qed

lemma run_no_events: "run_exec\<lparr>exec_events := []\<rparr> = run_exec"
  by (simp add: run_exec_def)

lemma run_quote_accounts: "validate_quote_accounts run_env run_store run_route run_bin_arrays = Ok ()"
proof -
  have lens: "length run_bin_arrays = 1" by (simp add: run_bin_arrays_def)
  have keys: "info_key (er_meteora_lb_pair run_route) = key 8"
      "info_key (er_meteora_bin_array_bitmap_extension run_route) = METEORA_DLMM_PROGRAM_ID"
      "er_pump_global_config run_route = plain_info (ascii ''global_config'')"
      "er_pump_fee_config run_route = plain_info (ascii ''fee_config'')"
    by (simp_all add: run_simps)
  show ?thesis
    by (simp add: validate_quote_accounts_def run_pump_validate [OF run_like_store] keys lens
        run_bin_arrays_valid [OF run_like_store] require_def MAX_BEST_DIRECTION_BIN_ARRAYS_def)
      (simp add: run_simps run_lookups [OF run_like_store] run_env_def)
qed

lemma run_ordered: "ordered_bin_arrays run_store run_bin_arrays [0] = Ok run_bin_arrays"
  by (simp add: ordered_bin_arrays_def run_bin_arrays_def run_array_data run_array_index)

lemma run_best_direction:
  "\<exists>s'. best_direction_handler run_env run_route run_bin_arrays
      \<lparr>wsol_amount_in = 1000, min_profit_lamports = 500\<rparr> run_exec = Ok s' \<and>
    token_balance (exec_wsol s') = 5996"
proof -
  have store: "exec_store run_exec = run_store" by (simp add: run_exec_def)
  show ?thesis
    using run_executes [of "[]"]
    by (simp add: run_no_events run_quote_accounts best_direction_handler_def store run_route_mints
        validate_args_def require_def run_selects execute_direction_def)
      (simp add: run_env_def run_ordered run_selects [unfolded run_env_def])
qed


section \<open>Properties\<close>

text \<open>C21. Quoting the DLMM leg straight from the account bytes gives, for every amount, direction and
  time, the output and the used arrays of the snapshot quote over the parsed accounts, and fails
  exactly when the snapshot quote fails; the snapshot's additional fee sum can never overflow.\<close>

theorem account_quote_is_snapshot:
  assumes "in_i32 (active_id pair)"
    and "list_all2 (\<lambda>a arr. parse_bin_array (info_data st a) = Ok arr) accounts arrays"
  shows "ok (map_ok (\<lambda>q. (adq_amount_out q, take (adq_used_len q) (adq_used_indices q)))
      (quote_dlmm_from_accounts st amount pair accounts ext d t)) =
    ok (map_ok (\<lambda>r. (quote_amount_out (snapshot_result r), used_array_indices r))
      (quote_dlmm_snapshot_with_bitmap amount pair arrays ext d t))"
proof -
  from assms(2) have "list_all2 (parsed_as st) accounts arrays"
    by (simp add: parsed_as_def [abs_def])
  from quotes_agree [OF assms(1) this] show ?thesis
    by (intro agree_ok) simp
qed

theorem account_quote_is_snapshot_witness:
  "\<exists>arr. parse_bin_array run_array = Ok arr \<and>
    ok (map_ok (\<lambda>r. (quote_amount_out (snapshot_result r), used_array_indices r))
      (quote_dlmm_snapshot_with_bitmap 998 run_parsed_pair [arr] None True 1000)) =
    (Ok (Some (1996, [0])) :: (unit, _) result)"
proof -
  obtain arr where arr: "parse_bin_array run_array = Ok arr"
    using run_array_fields(1) by (simp add: parse_bin_array_eq)
  have "in_i32 (active_id run_parsed_pair)" by (simp add: run_parsed_pair_def in_i32_def)
  from account_quote_is_snapshot [OF this, of run_store "[plain_info (key 9)]" "[arr]" 998 None True 1000] arr
  have "(Ok (Some (1996, [0])) :: (unit, _) result) =
    ok (map_ok (\<lambda>r. (quote_amount_out (snapshot_result r), used_array_indices r))
      (quote_dlmm_snapshot_with_bitmap 998 run_parsed_pair [arr] None True 1000))"
    by (simp add: run_array_data run_forward [unfolded run_bin_arrays_def])
  from this [symmetric] arr show ?thesis by blast
qed

text \<open>The direction chosen from two quotes, on every input: incomplete when neither direction could
  be quoted, unprofitable when no quote reaches the demand, otherwise the better of the
  quotes, the forward direction on a tie; the \<open>unreachable!\<close> is unreachable.\<close>

theorem direction_choice_exact:
  "choose_direction f r required =
    (case (f, r) of
      (None, None) \<Rightarrow> Err (Arb BestDirectionQuoteIncomplete)
    | (Some x, None) \<Rightarrow> if required \<le> x then Ok PumpToMeteora else Err (Arb NoProfitableDirection)
    | (None, Some y) \<Rightarrow> if required \<le> y then Ok MeteoraToPump else Err (Arb NoProfitableDirection)
    | (Some x, Some y) \<Rightarrow>
        if required \<le> max x y then Ok (if x < y then MeteoraToPump else PumpToMeteora)
        else Err (Arb NoProfitableDirection))"
  by (rule choose_direction_cases)

text \<open>C22. Whatever direction is selected, its quote brings back at least the input plus the demanded
  profit, no other direction that could be quoted brings back more, and the arrays that are
  passed on are those its DLMM quote used.\<close>

theorem direction_selected_optimal:
  assumes "select_direction env st r arrays amount profit t = Ok (d, used)"
  shows "\<exists>p out. read_inputs env st r = Ok p \<and>
    round_trip st r p arrays amount t d = Ok (Some (out, used)) \<and>
    unat amount + unat profit \<le> unat out \<and>
    (\<forall>out' used'. round_trip st r p arrays amount t (opposite d) = Ok (Some (out', used')) \<longrightarrow>
      out' \<le> out)"
  using assms by (rule select_direction_Ok)

theorem direction_selected_optimal_witness:
  "\<exists>p out. read_inputs run_env run_store run_route = Ok p \<and>
    round_trip run_store run_route p run_bin_arrays 1000 1000 PumpToMeteora = Ok (Some (out, [0])) \<and>
    unat (1000 :: u64) + unat (500 :: u64) \<le> unat out"
  using direction_selected_optimal [OF run_selects] by blast

text \<open>C23. A completed best-direction instruction has executed the selected direction over given
  bin arrays, exactly those of the indices its quote used, in that order; and it leaves the trader with at least the initial WSOL plus the demanded profit and the initial
  target balance.\<close>

theorem best_direction_guarantee:
  assumes "best_direction_handler env r remaining args s = Ok s'"
  shows "\<exists>t d used arrays. env_clock env = Some t \<and>
    select_direction env (exec_store s) r remaining (wsol_amount_in args) (min_profit_lamports args) t
      = Ok (d, used) \<and>
    set arrays \<subseteq> set remaining \<and>
    list_all2 (\<lambda>a index. parse_bin_array_index (info_data (exec_store s) a) = Ok index) arrays used \<and>
    execute_direction env r arrays (wsol_amount_in args) (min_profit_lamports args) d s = Ok s' \<and>
    unat (token_balance (exec_wsol s)) + unat (min_profit_lamports args)
      \<le> unat (token_balance (exec_wsol s')) \<and>
    token_balance (exec_target s') = token_balance (exec_target s)"
proof -
  from assms obtain t d used arrays where run:
    "env_clock env = Some t"
    "select_direction env (exec_store s) r remaining (wsol_amount_in args) (min_profit_lamports args) t
      = Ok (d, used)"
    "ordered_bin_arrays (exec_store s) remaining used = Ok arrays"
    "execute_direction env r arrays (wsol_amount_in args) (min_profit_lamports args) d s = Ok s'"
    by (auto simp: best_direction_handler_def Let_def result_iff split: prod.splits)
  from execute_direction_profit [OF run(4)] ordered_bin_arrays_Ok [OF run(3)] run show ?thesis
    by blast
qed

theorem best_direction_guarantee_witness:
  "\<exists>s'. best_direction_handler run_env run_route run_bin_arrays
      \<lparr>wsol_amount_in = 1000, min_profit_lamports = 500\<rparr> run_exec = Ok s' \<and>
    token_balance (exec_wsol s') = 5996 \<and>
    unat (token_balance (exec_wsol run_exec)) + unat (500 :: u64)
      \<le> unat (token_balance (exec_wsol s')) \<and>
    token_balance (exec_target s') = token_balance (exec_target run_exec)"
proof -
  obtain s' where run: "best_direction_handler run_env run_route run_bin_arrays
      \<lparr>wsol_amount_in = 1000, min_profit_lamports = 500\<rparr> run_exec = Ok s'"
    "token_balance (exec_wsol s') = 5996"
    using run_best_direction by blast
  with best_direction_guarantee [OF run(1)] show ?thesis by auto
qed

end
