(* ===== verification/Bin_Capacity.thy ===== *)
theory Bin_Capacity
  imports Dlmm_Quote
begin

text \<open>
  What the capacity quote of one bin says about smaller and larger amounts: above the capacity a
  bin gives its whole output and takes its capacity, or one unit more when the fee swallows it.
  The curve of the dynamic route rests on it.
\<close>

section \<open>Bins without dust\<close>

text \<open>
  A bin that the curve and the walk treat alike.  A bin whose whole output is worth nothing after
  fees, or that would take nearly all of \<open>u64\<close> to empty, is skipped by the curve (its capacity
  quote fails or saturates) while the walk spends on it.
\<close>

definition plain_bin :: "bool \<Rightarrow> bool \<Rightarrow> bin \<Rightarrow> bool" where
  "plain_bin d on_input b \<longleftrightarrow> bin_liquidity d b = 0 \<or>
    in_at_price d (unat (price_q64 b)) (bin_liquidity d b) \<le> 2 ^ 63 \<and>
    (on_input \<or> 2 \<le> bin_liquidity d b)"

lemma gross_small:
  assumes "r \<le> 100000000" "c \<le> 2 ^ 63"
  shows "gross_of_fee r c < 2 ^ 64 - 2"
proof -
  have "c * 1000000000 \<le> 2 ^ 63 * 1000000000" using assms(2) by simp
  moreover have "(2 ^ 64 - 3) * 900000000 \<le> (2 ^ 64 - 3) * (1000000000 - r)" using assms(1) by simp
  ultimately have "c \<le> net_of_fee r (2 ^ 64 - 3)"
    using assms(1) by (subst le_net_of_fee_iff) auto
  then have "gross_of_fee r c \<le> 2 ^ 64 - 3" using assms(1) by (subst gross_net_adjoint) auto
  then show ?thesis by simp
qed

lemma net_positive: "r \<le> 100000000 \<Longrightarrow> 2 \<le> m \<Longrightarrow> 0 < net_of_fee r m"
  using le_net_of_fee_iff [of r 1 m] mult_le_mono [of 2 m 900000000 "1000000000 - r"] by fastforce

lemma in_at_price_pos: "0 < p \<Longrightarrow> 0 < m \<Longrightarrow> 0 < in_at_price d p m"
  using price_adjoint [of p d m 0] by (cases "in_at_price d p m"; cases d) (simp_all add: out_at_price_def)

lemma net_edge:
  assumes "r \<le> 100000000" "net_of_fee r a = c" "gross_of_fee r c < a"
  shows "0 < r" "a = gross_of_fee r c + 1"
proof -
  let ?g = "gross_of_fee r c"
  have "c \<le> net_of_fee r ?g" using assms(1) gross_net_adjoint [of r c ?g] by simp
  then have "c * 1000000000 \<le> ?g * (1000000000 - r)" using assms(1) by (simp add: le_net_of_fee_iff)
  moreover have "2 * 900000000 \<le> 2 * (1000000000 - r)" using assms(1) by simp
  ultimately have "(c + 1) * 1000000000 \<le> (?g + 2) * (1000000000 - r)"
    unfolding add_mult_distrib by linarith
  then have "c + 1 \<le> net_of_fee r (?g + 2)" using assms(1) by (subst le_net_of_fee_iff) auto
  moreover have "net_of_fee r (?g + 2) \<le> net_of_fee r a" if "?g + 2 \<le> a"
    using assms(1) that by (intro pool_fee.get_mono) auto
  ultimately show "a = ?g + 1" using assms(2,3) by fastforce
  show "0 < r"
  proof (rule ccontr)
    assume "\<not> 0 < r"
    then have "net_of_fee r x = x" for x by (simp add: net_of_fee_def fee_up_def)
    with assms(2,3) \<open>\<not> 0 < r\<close> net_gross [of 0 c] show False by simp
  qed
qed

lemma fill_bin_parts:
  assumes "excluded_fee_amount a r = Ok (n, g)" "bin_max_out b d = Ok m" "m \<noteq> 0"
    "amount_in_for_out m (price_q64 b) d = Ok c" "excluded_fee_amount m r = Ok (w, h)"
    "i \<Longrightarrow> included_fee_amount c r = Ok (inc, part)"
    "c \<le> (if i then n else a)" "if i then inc \<le> a else c \<le> a"
  shows "map_ok (\<lambda>s. (fill_total_in s, fill_total_out s)) (fill_bin d i r (start_fill a) b) =
    Ok (if i then if c = n then a else inc else c, if i then m else w)"
proof (cases i)
  case True
  with assms show ?thesis
    by (cases "c = n") (auto simp: fill_bin_def start_fill_def min_def checked_sub_def)
next
  case False
  with assms show ?thesis
    by (auto simp: fill_bin_def start_fill_def min_def checked_sub_def)
qed

lemma plain_take:
  assumes r: "r \<le> 100000000" and take: "dlmm_take d i r p m (2 ^ 64 - 1) = (spent, paid)"
    and small: "in_at_price d p m \<le> 2 ^ 63"
  shows "spent < 2 ^ 64 - 1" "paid = m"
    "spent = (if i then gross_of_fee r (in_at_price d p m) else in_at_price d p m)"
proof -
  let ?c = "in_at_price d p m" and ?top = "2 ^ 64 - 1 :: nat"
  have g: "gross_of_fee r ?c + 1 < ?top" using gross_small [OF r small] by linarith
  then have "gross_of_fee r ?c \<le> ?top" by linarith
  then have "?c \<le> net_of_fee r ?top" using r by (subst gross_net_adjoint [symmetric]) auto
  moreover have "?c \<noteq> net_of_fee r ?top" using net_edge(2) [OF r, of ?top ?c] g by linarith
  ultimately have net: "?c < net_of_fee r ?top" by linarith
  have "?c < ?top" using small by simp
  then show less: "spent < ?top"
    using take net g by (auto simp: dlmm_take_def bin_take_def Let_def split: if_splits)
  show "paid = m" "spent = (if i then gross_of_fee r ?c else ?c)"
    using dlmm_take_filled [OF take less] by auto
qed

lemma capacity_parts:
  assumes cap: "dlmm_bin_quote_capacity b d i f = Ok q" and rate: "dlmm_total_fee_rate f = Ok r"
    and plain: "plain_bin d i b"
  obtains m c where "bin_max_out b d = Ok m" "m \<noteq> 0"
    "amount_in_for_out m (price_q64 b) d = Ok c"
    "unat (quote_amount_in q) = (if i then gross_of_fee (unat r) (unat c) else unat c)"
    "unat (quote_amount_out q) = (if i then unat m else net_of_fee (unat r) (unat m))"
    "unat (quote_amount_in q) < 2 ^ 64 - 1"
proof -
  have r: "unat r < 1000000000" "unat r \<le> 100000000"
    using dlmm_total_fee_rate_OkD [OF rate] by simp_all
  from cap have q: "dlmm_quote_exact_in_partial (- 1) [b] d i f = Ok q" "quote_amount_in q \<noteq> 0"
    by (auto simp: dlmm_bin_quote_capacity_def result_iff split: if_splits)
  then obtain s where s: "fill_bin d i r (start_fill (- 1)) b = Ok s"
      "quote_amount_in q = fill_total_in s" "quote_amount_out q = fill_total_out s"
    by (auto simp: partial_one_bin [OF _ rate] result_iff)
  from r(1) s(1) show thesis
  proof (cases rule: fill_bin_take)
    case skip
    with q(2) s(2) show ?thesis by (simp add: start_fill_def)
  next
    case (taken spent paid)
    obtain m where m: "bin_max_out b d = Ok m" "unat m = bin_liquidity d b"
      using s(1) bin_max_out_Ok by (auto simp: fill_bin_def result_iff split: if_splits)
    then have m0: "m \<noteq> 0" using taken(1) by auto
    obtain c where c: "amount_in_for_out m (price_q64 b) d = Ok c"
        "unat c = in_at_price d (unat (price_q64 b)) (bin_liquidity d b)"
      using s(1) m m0 by (auto simp: fill_bin_def result_iff amount_in_for_out_Ok split: if_splits)
    have small: "unat c \<le> 2 ^ 63" using plain taken(1) c(2) by (simp add: plain_bin_def)
    have "dlmm_take d i (unat r) (unat (price_q64 b)) (bin_liquidity d b) (2 ^ 64 - 1) = (spent, paid)"
      using taken(3) by (simp add: start_fill_def unat_minus_one_word)
    from plain_take [OF r(2) this] small c(2) that [OF m(1) m0 c(1)] taken(5,6) s(2,3) show ?thesis
      by (simp add: start_fill_def paid_out_def m(2))
  qed
qed

lemma partial_above:
  assumes cap: "dlmm_bin_quote_capacity b d i f = Ok q" and rate: "dlmm_total_fee_rate f = Ok r"
    and plain: "plain_bin d i b" and a: "quote_amount_in q < a"
  shows "\<exists>p. dlmm_quote_exact_in_partial a [b] d i f = Ok p \<and>
    quote_amount_out p = quote_amount_out q \<and>
    (quote_amount_in p = quote_amount_in q \<or>
     i \<and> 0 < unat r \<and> quote_amount_in p = a \<and> unat a = unat (quote_amount_in q) + 1)"
proof -
  have r: "unat r < 1000000000" "unat r \<le> 1000000000" "unat r \<le> 100000000"
    using dlmm_total_fee_rate_OkD [OF rate] by simp_all
  obtain m c where m: "bin_max_out b d = Ok m" "m \<noteq> 0" and c: "amount_in_for_out m (price_q64 b) d = Ok c"
    and q: "unat (quote_amount_in q) = (if i then gross_of_fee (unat r) (unat c) else unat c)"
    "unat (quote_amount_out q) = (if i then unat m else net_of_fee (unat r) (unat m))"
    and top: "unat (quote_amount_in q) < 2 ^ 64 - 1"
    by (rule capacity_parts [OF cap rate plain])
  obtain n g where n: "excluded_fee_amount a r = Ok (n, g)" "unat n = net_of_fee (unat r) (unat a)"
    using excluded_fee_amount_fits [OF r(2)] by blast
  obtain w h where w: "excluded_fee_amount m r = Ok (w, h)" "unat w = net_of_fee (unat r) (unat m)"
    using excluded_fee_amount_fits [OF r(2)] by blast
  have less: "unat (quote_amount_in q) < unat a" using a by (simp add: word_less_nat_alt)
  have "a \<noteq> 0" using less by auto
  have run: "map_ok (\<lambda>s. (fill_total_in s, fill_total_out s)) (fill_bin d i r (start_fill a) b) =
    map_ok (\<lambda>p. (quote_amount_in p, quote_amount_out p)) (dlmm_quote_exact_in_partial a [b] d i f)"
    by (cases "fill_bin d i r (start_fill a) b") (simp_all add: partial_one_bin [OF \<open>a \<noteq> 0\<close> rate])
  show ?thesis
  proof (cases i)
    case True
    have "gross_of_fee (unat r) (unat c) < 2 ^ 64" using q(1) True top by simp
    then obtain inc part where inc: "included_fee_amount c r = Ok (inc, part)"
      "unat inc = gross_of_fee (unat r) (unat c)"
      using included_fee_amount_Ok [OF r(1), of c "of_nat (gross_of_fee (unat r) (unat c))"
        "of_nat (gross_of_fee (unat r) (unat c) - unat c)"] by (simp add: unat_of_nat_small)
    have "unat c \<le> unat n"
      using less True unfolding n(2) by (subst gross_net_adjoint [OF r(1), symmetric]) (simp add: q(1))
    then have parts: "map_ok (\<lambda>s. (fill_total_in s, fill_total_out s)) (fill_bin d i r (start_fill a) b) =
      Ok (if c = n then a else inc, m)"
      using fill_bin_parts [OF n(1) m c w(1) inc(1), of i] True less q(1) inc(2)
      by (simp add: word_le_nat_alt)
    then obtain p where p: "dlmm_quote_exact_in_partial a [b] d i f = Ok p"
      "quote_amount_in p = (if c = n then a else inc)" "quote_amount_out p = m"
      unfolding run by (auto simp: map_ok_eq_Ok)
    have "0 < unat r \<and> unat a = unat (quote_amount_in q) + 1" if "c = n"
      using net_edge [OF r(3), of "unat a" "unat c"] less True q(1) n(2) that by simp
    with p True q inc(2) show ?thesis by (auto simp: word_unat_eq_iff)
  next
    case False
    then have "map_ok (\<lambda>s. (fill_total_in s, fill_total_out s)) (fill_bin d i r (start_fill a) b) = Ok (c, w)"
      using fill_bin_parts [OF n(1) m c w(1), of i] less q(1) by (simp add: word_le_nat_alt)
    then obtain p where "dlmm_quote_exact_in_partial a [b] d i f = Ok p"
      "quote_amount_in p = c" "quote_amount_out p = w"
      unfolding run by (auto simp: map_ok_eq_Ok)
    with False q w(2) show ?thesis by (auto simp: word_unat_eq_iff)
  qed
qed


lemma arithmetic_errors:
  "excluded_fee_amount a r \<noteq> Err InsufficientLiquidity"
  "included_fee_amount a r \<noteq> Err InsufficientLiquidity"
  "amount_in_for_out y p d \<noteq> Err InsufficientLiquidity"
  "amount_out_for_in y p d \<noteq> Err InsufficientLiquidity"
  "dlmm_total_fee_rate f \<noteq> Err InsufficientLiquidity"
  by (auto simp: excluded_fee_amount_def included_fee_amount_def amount_in_for_out_def
      amount_out_for_in_def dlmm_total_fee_rate_closed result_iff arith_iff ceil_div_def to_u64_def
      sub_or_panic_def or_panic_def split: option.splits)

lemma partial_errors: "dlmm_quote_exact_in_partial a [b] d i f \<noteq> Err InsufficientLiquidity"
  by (auto simp: dlmm_quote_exact_in_partial_def dlmm_quote_exact_in_impl_def fill_bin_def
      bin_max_out_def Let_def result_iff arithmetic_errors split: if_splits prod.splits)

lemma capacity_missing:
  assumes cap: "dlmm_bin_quote_capacity b d i f = Err InsufficientLiquidity"
    and rate: "dlmm_total_fee_rate f = Ok r" and plain: "plain_bin d i b" and a: "a \<noteq> 0"
  shows "\<exists>p. dlmm_quote_exact_in_partial a [b] d i f = Ok p \<and> quote_amount_in p = 0 \<and>
    quote_amount_out p = 0"
proof -
  have r: "unat r < 1000000000" "unat r \<le> 100000000"
    using dlmm_total_fee_rate_OkD [OF rate] by simp_all
  from cap obtain q where q: "dlmm_quote_exact_in_partial (- 1) [b] d i f = Ok q"
      "quote_amount_in q = 0 \<or> quote_amount_out q = 0"
    by (auto simp: dlmm_bin_quote_capacity_def result_iff partial_errors split: if_splits)
  obtain s where s: "fill_bin d i r (start_fill (- 1)) b = Ok s"
      "quote_amount_in q = fill_total_in s" "quote_amount_out q = fill_total_out s"
    using q(1) by (auto simp: partial_one_bin [OF _ rate] result_iff)
  obtain m where m: "bin_max_out b d = Ok m" "unat m = bin_liquidity d b"
    using s(1) bin_max_out_Ok by (auto simp: fill_bin_def result_iff split: if_splits)
  show ?thesis
  proof (cases "m = 0")
    case True
    then show ?thesis
      using fill_bin_skip [OF r(1), of b d] m(1) by (simp add: partial_one_bin [OF a rate] start_fill_def)
  next
    case False
    from r(1) s(1) show ?thesis
    proof (cases rule: fill_bin_take)
      case (taken spent paid)
      let ?p = "unat (price_q64 b)" and ?l = "bin_liquidity d b"
      have l: "0 < ?l" using taken(1) by simp
      have c: "0 < in_at_price d ?p ?l" "in_at_price d ?p ?l \<le> 2 ^ 63" "i \<or> 2 \<le> ?l"
        using in_at_price_pos [OF taken(2) l] plain taken(1) by (auto simp: plain_bin_def)
      have "dlmm_take d i (unat r) ?p ?l (2 ^ 64 - 1) = (spent, paid)"
        using taken(3) by (simp add: start_fill_def unat_minus_one_word)
      note full = plain_take [OF r(2) this c(2)]
      have "in_at_price d ?p ?l \<le> net_of_fee (unat r) (gross_of_fee (unat r) (in_at_price d ?p ?l))"
        using gross_net_adjoint [OF r(1)] by blast
      then have "in_at_price d ?p ?l \<le> gross_of_fee (unat r) (in_at_price d ?p ?l)"
        using net_of_fee_le by (rule order_trans)
      then have "0 < spent \<and> 0 < paid_out i (unat r) paid"
        using full(2,3) c l net_positive [OF r(2), of ?l]
        by (cases i) (auto simp: paid_out_def intro: Nat.gr0I)
      with q(2) s(2,3) taken(5,6) show ?thesis by (auto simp: start_fill_def)
    qed (use m False in \<open>simp add: unat_eq_zero\<close>)
  qed
qed

lemma edge_unit:
  assumes cap: "dlmm_bin_quote_capacity b d True f = Ok q" and rate: "dlmm_total_fee_rate f = Ok r"
    and plain: "plain_bin d True b" and fee: "0 < unat r"
  shows "dlmm_bin_output_within_capacity 1 (quote_amount_in q) (quote_amount_out q) (price_q64 b) d
    True r = Ok 0" "1 < unat (quote_amount_in q)"
proof -
  have r: "unat r < 1000000000" "unat r \<le> 1000000000"
    using dlmm_total_fee_rate_OkD [OF rate] by simp_all
  obtain m c where m: "m \<noteq> 0" and c: "amount_in_for_out m (price_q64 b) d = Ok c"
    and q: "unat (quote_amount_in q) = gross_of_fee (unat r) (unat c)"
    by (rule capacity_parts [OF cap rate plain]) auto
  have p: "price_q64 b \<noteq> 0" "unat c = in_at_price d (unat (price_q64 b)) (unat m)"
    using c by (simp_all add: amount_in_for_out_Ok)
  then have "0 < unat c" using m by (simp add: in_at_price_pos unat_gt_0)
  have one: "net_of_fee (unat r) 1 = 0"
  proof -
    have "0 < fee_up (unat r) 1" unfolding fee_up_def using fee by (subst ceil_nat_less_iff) auto
    then show ?thesis by (simp add: net_of_fee_def)
  qed
  with \<open>0 < unat c\<close> have "\<not> gross_of_fee (unat r) (unat c) \<le> 1"
    by (subst gross_net_adjoint [OF r(1)]) simp
  then show large: "1 < unat (quote_amount_in q)" by (simp add: q)
  obtain n g where n: "excluded_fee_amount 1 r = Ok (n, g)" "unat n = net_of_fee (unat r) 1"
    using excluded_fee_amount_fits [OF r(2), of 1] by auto
  then have "n = 0" using one by (simp add: unat_eq_zero)
  have "amount_out_for_in 0 (price_q64 b) d = Ok 0"
    using p(1) by (simp add: amount_out_for_in_Ok out_at_price_def)
  moreover have "quote_amount_out q \<noteq> 0" "quote_amount_in q \<noteq> 0"
    using cap by (auto simp: dlmm_bin_quote_capacity_def result_iff split: if_splits)
  moreover have "\<not> quote_amount_in q < 1" "1 \<noteq> quote_amount_in q"
    using large by (auto simp: word_less_nat_alt)
  ultimately show "dlmm_bin_output_within_capacity 1 (quote_amount_in q) (quote_amount_out q) (price_q64 b) d
    True r = Ok 0"
    using n(1) \<open>n = 0\<close> by (simp add: dlmm_bin_output_within_capacity_def)
qed

end
