(* ===== verification/Dlmm_Curve.thy ===== *)
theory Dlmm_Curve
  imports Best_Direction Bin_Capacity
begin

text \<open>
  The DLMM curve of \<^verbatim>\<open>instructions/dynamic_amount.rs\<close>: one walk over the bins records a segment
  per bin that can be traded, and every amount up to the last segment's end is then quoted by a
  binary search in the segments.  The curve is shown to be well formed, the search to find the
  first segment that covers the amount, and the quote to be the quote of
  \<open>quote_dlmm_from_accounts\<close>.
\<close>

section \<open>The curve\<close>

record dlmm_segment =
  input_start :: u64
  input_end :: u64
  output_start :: u64
  output_end :: u64
  segment_price_q64 :: u128
  segment_fee_rate :: u64
  segment_swap_for_y :: bool
  segment_fee_on_input :: bool
  segment_used_indices :: "i64 list"
  segment_used_len :: usize

definition EMPTY :: dlmm_segment where
  "EMPTY = \<lparr>input_start = 0, input_end = 0, output_start = 0, output_end = 0,
     segment_price_q64 = 0, segment_fee_rate = 0, segment_swap_for_y = False,
     segment_fee_on_input = False,
     segment_used_indices = replicate MAX_QUOTE_BIN_ARRAYS_PER_DIRECTION 0, segment_used_len = 0\<rparr>"

definition input_capacity :: "dlmm_segment \<Rightarrow> ('e, u64) result" where
  "input_capacity s = sub_or_panic (input_end s) (input_start s)"

definition output_capacity :: "dlmm_segment \<Rightarrow> ('e, u64) result" where
  "output_capacity s = sub_or_panic (output_end s) (output_start s)"

datatype curve_stop_reason =
  InputLimitReached | MissingBinArray | BinArrayLimitReached | VisitedBinLimitReached
  | NoUsableLiquidity

text \<open>\<open>segments\<close> is the fixed array, of which the first \<open>len\<close> entries are in use.\<close>

record dlmm_curve =
  segments :: "dlmm_segment list"
  curve_len :: usize
  curve_visited_bins :: u8
  curve_stop :: curve_stop_reason

record curve_quote =
  cq_amount_out :: u64
  cq_used_indices :: "i64 list"
  cq_used_len :: usize

definition curve_new :: dlmm_curve where
  "curve_new = \<lparr>segments = replicate MAX_QUOTE_VISITED_BINS_PER_DIRECTION EMPTY, curve_len = 0,
     curve_visited_bins = 0, curve_stop = VisitedBinLimitReached\<rparr>"

definition curve_clear :: "dlmm_curve \<Rightarrow> dlmm_curve" where
  "curve_clear c = c \<lparr>curve_len := 0, curve_visited_bins := 0, curve_stop := VisitedBinLimitReached\<rparr>"

definition curve_push :: "dlmm_curve \<Rightarrow> dlmm_segment \<Rightarrow> (program_error, dlmm_curve) result" where
  "curve_push c s =
    and_then (ensure (curve_len c < length (segments c)) BestDirectionQuoteIncomplete) (\<lambda>_.
    Ok (c \<lparr>segments := (segments c)[curve_len c := s], curve_len := curve_len c + 1\<rparr>))"

definition as_slice :: "dlmm_curve \<Rightarrow> ('e, dlmm_segment list) result" where
  "as_slice c =
    (if curve_len c \<le> length (segments c) then Ok (take (curve_len c) (segments c)) else Panic)"

definition largest_complete_input :: "dlmm_curve \<Rightarrow> ('e, u64) result" where
  "largest_complete_input c = map_ok (\<lambda>s. if s = [] then 0 else input_end (last s)) (as_slice c)"

function search_segment ::
    "dlmm_segment list \<Rightarrow> u64 \<Rightarrow> usize \<Rightarrow> usize \<Rightarrow> ('e, usize) result" where
  "search_segment ss amount_in lower upper =
    (if lower < upper then
       let midpoint = lower + (upper - lower) div 2 in
       and_then (nth_or_panic ss midpoint) (\<lambda>segment.
       if amount_in \<le> input_end segment then search_segment ss amount_in lower midpoint
       else search_segment ss amount_in (midpoint + 1) upper)
     else Ok lower)"
  by pat_completeness auto

termination search_segment
  by (relation "measure (\<lambda>(_, _, lower, upper). upper - lower)") auto

declare search_segment.simps [simp del]

definition curve_quote_at :: "dlmm_curve \<Rightarrow> u64 \<Rightarrow> (quote_error, curve_quote) result" where
  "curve_quote_at c amount_in =
    (if amount_in = 0 then Err InvalidInput
     else
       and_then (as_slice c) (\<lambda>ss.
       and_then (search_segment ss amount_in 0 (length ss)) (\<lambda>lower.
       and_then (ok_or InsufficientLiquidity
         (if lower < length ss then Some (ss ! lower) else None)) (\<lambda>segment.
       and_then (ok_or MathOverflow (checked_sub amount_in (input_start segment))) (\<lambda>remaining.
       and_then
         (if remaining = 0 then Ok (output_start segment)
          else
            and_then (input_capacity segment) (\<lambda>capacity_in.
            and_then (output_capacity segment) (\<lambda>capacity_out.
            and_then (dlmm_bin_output_within_capacity remaining capacity_in capacity_out
              (segment_price_q64 segment) (segment_swap_for_y segment)
              (segment_fee_on_input segment) (ucast (segment_fee_rate segment))) (\<lambda>within.
            ok_or MathOverflow (checked_add (output_start segment) within)))))
         (\<lambda>amount_out.
       Ok \<lparr>cq_amount_out = amount_out, cq_used_indices = segment_used_indices segment,
          cq_used_len = segment_used_len segment\<rparr>))))))"

section \<open>Building it\<close>

text \<open>The mutable locals of \<open>build_curve\<close>, and how one round of its loop ends: with the next round
  (\<open>continue\<close> and the end of the body) or with \<open>break\<close> and a stop reason.\<close>

record curve_walk =
  cw_id :: i32
  cw_in :: u64
  cw_out :: u64
  cw_indices :: "i64 list"
  cw_len :: usize
  cw_variable :: dlmm_variable_parameters
  cw_visited :: u8
  cw_curve :: dlmm_curve

datatype flow = Continue curve_walk | Break curve_walk curve_stop_reason

definition next_bin :: "i32 \<Rightarrow> bool \<Rightarrow> i32" where
  "next_bin i swap_for_y = (if swap_for_y then saturate_i32 (i - 1) else saturate_i32 (i + 1))"

text \<open>The array of the bin is recorded, or the limit of arrays is reached (\<open>None\<close>).\<close>

definition note_index ::
    "i64 \<Rightarrow> i64 list \<Rightarrow> usize \<Rightarrow> (program_error, (i64 list \<times> usize) option) result" where
  "note_index index indices len =
    and_then (if len = 0 then Ok True
      else map_ok (\<lambda>previous. previous \<noteq> index) (nth_or_panic indices (len - 1))) (\<lambda>fresh.
    if fresh
    then
      if len = MAX_QUOTE_BIN_ARRAYS_PER_DIRECTION then Ok None
      else if len < length indices then Ok (Some (indices[len := index], len + 1)) else Panic
    else Ok (Some (indices, len)))"

text \<open>The end of the body: fee state, fee rate, capacity of the bin, new segment.\<close>

definition push_bin ::
    "lb_pair_state \<Rightarrow> bool \<Rightarrow> bool \<Rightarrow> u64 \<Rightarrow> curve_walk \<Rightarrow> bin \<Rightarrow> (program_error, flow) result" where
  "push_bin pair swap_for_y on_input input_limit w b =
    (let variable = update_volatility_accumulator (cw_id w) (cw_variable w) (static_parameters pair);
         parameters = dlmm_fee_parameters_of pair variable;
         w = w \<lparr>cw_variable := variable\<rparr> in
     and_then (map_err incomplete (dlmm_total_fee_rate parameters)) (\<lambda>rate.
     and_then (ok_or (Arb BestDirectionQuoteIncomplete) (try_narrow rate)) (\<lambda>fee_rate.
     case dlmm_bin_quote_capacity b swap_for_y on_input parameters of
       Ok capacity \<Rightarrow>
         and_then (ok_or (Arb ArithmeticOverflow)
           (checked_add (cw_in w) (quote_amount_in capacity))) (\<lambda>input_end.
         and_then (ok_or (Arb ArithmeticOverflow)
           (checked_add (cw_out w) (quote_amount_out capacity))) (\<lambda>output_end.
         and_then (curve_push (cw_curve w)
           \<lparr>input_start = cw_in w, input_end = input_end, output_start = cw_out w,
            output_end = output_end, segment_price_q64 = price_q64 b, segment_fee_rate = fee_rate,
            segment_swap_for_y = swap_for_y, segment_fee_on_input = on_input,
            segment_used_indices = cw_indices w, segment_used_len = cw_len w\<rparr>) (\<lambda>curve.
         let w = w \<lparr>cw_in := input_end, cw_out := output_end, cw_curve := curve\<rparr> in
         Ok (if input_limit \<le> input_end then Break w InputLimitReached
           else Continue (w \<lparr>cw_id := next_bin (cw_id w) swap_for_y\<rparr>)))))
     | Err InsufficientLiquidity \<Rightarrow> Ok (Continue (w \<lparr>cw_id := next_bin (cw_id w) swap_for_y\<rparr>))
     | Err _ \<Rightarrow> Err (Arb BestDirectionQuoteIncomplete)
     | Panic \<Rightarrow> Panic)))"

definition curve_step ::
    "store \<Rightarrow> lb_pair_state \<Rightarrow> account_info list \<Rightarrow> u8 list option \<Rightarrow> bool \<Rightarrow> bool \<Rightarrow> bool \<Rightarrow> u64
      \<Rightarrow> curve_walk \<Rightarrow> (program_error, flow) result" where
  "curve_step st pair arrays bitmap_extension swap_for_y on_input limit_orders input_limit w =
    (let w = w \<lparr>cw_visited := saturating_add (cw_visited w) 1\<rparr>;
         index = bin_array_index (cw_id w) in
     and_then (map_err incomplete (array_initialized pair bitmap_extension index)) (\<lambda>initialized.
     if \<not> initialized then Ok (Continue (w \<lparr>cw_id := next_bin (cw_id w) swap_for_y\<rparr>))
     else
     case find (\<lambda>a. parse_bin_array_index (info_data st a) = Ok index) arrays of
       None \<Rightarrow> Ok (Break w MissingBinArray)
     | Some account \<Rightarrow>
         and_then (note_index index (cw_indices w) (cw_len w)) (\<lambda>noted.
         case noted of
           None \<Rightarrow> Ok (Break w BinArrayLimitReached)
         | Some (indices, len) \<Rightarrow>
             and_then (map_err incomplete
               (parse_bin_for_id (info_data st account) (cw_id w) index)) (\<lambda>b.
             push_bin pair swap_for_y on_input input_limit
               (w \<lparr>cw_indices := indices, cw_len := len\<rparr>)
               (if limit_orders then b else without_limit_orders b)))))"

fun curve_loop ::
    "store \<Rightarrow> lb_pair_state \<Rightarrow> account_info list \<Rightarrow> u8 list option \<Rightarrow> bool \<Rightarrow> bool \<Rightarrow> bool \<Rightarrow> u64
      \<Rightarrow> nat \<Rightarrow> curve_walk \<Rightarrow> (program_error, curve_walk \<times> curve_stop_reason) result" where
  "curve_loop st pair arrays ext d i l limit 0 w = Ok (w, VisitedBinLimitReached)"
| "curve_loop st pair arrays ext d i l limit (Suc n) w =
    and_then (curve_step st pair arrays ext d i l limit w) (\<lambda>f.
    case f of
      Continue w \<Rightarrow> curve_loop st pair arrays ext d i l limit n w
    | Break w reason \<Rightarrow> Ok (w, reason))"

definition build_curve ::
    "dlmm_curve \<Rightarrow> store \<Rightarrow> lb_pair_state \<Rightarrow> account_info list \<Rightarrow> u8 list option \<Rightarrow> bool \<Rightarrow> i64 \<Rightarrow> u64
      \<Rightarrow> (program_error, dlmm_curve) result" where
  "build_curve curve st pair arrays bitmap_extension swap_for_y timestamp input_limit =
    (let curve = curve_clear curve;
         variable = update_reference (active_id pair) (variable_parameters pair)
           (static_parameters pair) timestamp in
     and_then (map_err incomplete (fee_on_input pair swap_for_y)) (\<lambda>on_input.
     and_then (map_err incomplete (supports_limit_orders pair)) (\<lambda>limit_orders.
     and_then (curve_loop st pair arrays bitmap_extension swap_for_y on_input limit_orders input_limit
         MAX_QUOTE_VISITED_BINS_PER_DIRECTION
         \<lparr>cw_id = active_id pair, cw_in = 0, cw_out = 0, cw_indices = [0, 0], cw_len = 0,
          cw_variable = variable, cw_visited = 0, cw_curve = curve\<rparr>) (\<lambda>(w, reason).
     and_then (as_slice (cw_curve w)) (\<lambda>ss.
     Ok (cw_curve w \<lparr>curve_visited_bins := cw_visited w,
       curve_stop := (if ss = [] \<and> reason = VisitedBinLimitReached then NoUsableLiquidity
         else reason)\<rparr>))))))"

lemmas [eval_defs] =
  EMPTY_def input_capacity_def output_capacity_def curve_new_def curve_clear_def curve_push_def
  as_slice_def largest_complete_input_def curve_quote_at_def next_bin_def note_index_def push_bin_def
  curve_step_def build_curve_def

lemma curve_loop_numeral [eval_defs]:
  "curve_loop st pair arrays ext d i l limit (numeral n) w =
    and_then (curve_step st pair arrays ext d i l limit w) (\<lambda>f.
    case f of
      Continue w \<Rightarrow> curve_loop st pair arrays ext d i l limit (pred_numeral n) w
    | Break w reason \<Rightarrow> Ok (w, reason))"
  by (simp add: numeral_eq_Suc)

section \<open>The segments in use\<close>

definition curve_ok :: "dlmm_curve \<Rightarrow> bool" where
  "curve_ok c \<longleftrightarrow> length (segments c) = 16 \<and> curve_len c \<le> 16"

definition in_use :: "dlmm_curve \<Rightarrow> dlmm_segment list" where
  "in_use c = take (curve_len c) (segments c)"

lemma as_slice_in_use: "curve_ok c \<Longrightarrow> as_slice c = Ok (in_use c)"
  by (simp add: as_slice_def in_use_def curve_ok_def)

lemma curve_push_Ok:
  assumes "curve_ok c" "curve_push c s = Ok c'"
  shows "curve_ok c'" "in_use c' = in_use c @ [s]"
  using assms
  by (auto simp: curve_push_def curve_ok_def in_use_def result_iff take_Suc_conv_app_nth)

lemma curve_new_ok: "curve_ok curve_new" "in_use curve_new = []"
  by (simp_all add: curve_new_def curve_ok_def in_use_def MAX_QUOTE_VISITED_BINS_PER_DIRECTION_def)

lemma curve_clear_ok: "curve_ok c \<Longrightarrow> curve_ok (curve_clear c)" "in_use (curve_clear c) = []"
  by (simp_all add: curve_clear_def curve_ok_def in_use_def)

text \<open>Each segment starts where the one before it ends, and takes and gives something.\<close>

fun chain :: "u64 \<Rightarrow> u64 \<Rightarrow> dlmm_segment list \<Rightarrow> bool" where
  "chain i out [] = True"
| "chain i out (s # ss) \<longleftrightarrow> input_start s = i \<and> output_start s = out \<and> i < input_end s \<and>
     out < output_end s \<and> chain (input_end s) (output_end s) ss"

fun chain_end :: "u64 \<Rightarrow> dlmm_segment list \<Rightarrow> u64" where
  "chain_end i [] = i"
| "chain_end i (s # ss) = chain_end (input_end s) ss"

lemma chain_end_last: "chain_end i ss = (if ss = [] then i else input_end (last ss))"
  by (induction ss arbitrary: i) auto

lemma chain_above: "chain i out ss \<Longrightarrow> s \<in> set ss \<Longrightarrow> i < input_end s \<and> out < output_end s"
  by (induction ss arbitrary: i out) (fastforce dest: less_trans)+

lemma chain_sorted: "chain i out ss \<Longrightarrow> sorted_wrt (<) (map input_end ss)"
  by (induction ss arbitrary: i out) (auto dest: chain_above)

lemma chain_segment: "chain i out ss \<Longrightarrow> s \<in> set ss \<Longrightarrow> input_start s < input_end s \<and> output_start s < output_end s"
  by (induction ss arbitrary: i out) auto

section \<open>The binary search\<close>

lemma search_segment_least:
  assumes "sorted_wrt (<) (map input_end ss)" "lower \<le> upper" "upper \<le> length ss"
    "\<forall>j < lower. input_end (ss ! j) < a" "\<forall>j. upper \<le> j \<longrightarrow> j < length ss \<longrightarrow> a \<le> input_end (ss ! j)"
  shows "\<exists>k. search_segment ss a lower upper = Ok k \<and> k \<le> length ss \<and>
    (\<forall>j < k. input_end (ss ! j) < a) \<and> (k < length ss \<longrightarrow> a \<le> input_end (ss ! k))"
  using assms(2-)
proof (induction "upper - lower" arbitrary: lower upper rule: less_induct)
  case less
  show ?case
  proof (cases "lower < upper")
    case True
    let ?m = "lower + (upper - lower) div 2"
    have m: "lower \<le> ?m" "?m < upper" "?m < length ss" using True less.prems(2) by auto
    have mono: "input_end (ss ! j) < input_end (ss ! k)" if "j < k" "k < length ss" for j k
      using sorted_wrt_nth_less [OF assms(1), of j k] that by simp
    have step: "search_segment ss a lower upper =
      (if a \<le> input_end (ss ! ?m) then search_segment ss a lower ?m else search_segment ss a (?m + 1) upper)"
      using True m by (simp add: search_segment.simps [of ss a lower upper] Let_def nth_or_panic_def)
    show ?thesis
    proof (cases "a \<le> input_end (ss ! ?m)")
      case below: True
      have "a \<le> input_end (ss ! j)" if "?m \<le> j" "j < length ss" for j
        using below mono [of ?m j] that by (cases "j = ?m") auto
      with less.hyps [of ?m lower] less.prems m below show ?thesis by (simp add: step)
    next
      case above: False
      have "input_end (ss ! j) < a" if "j < ?m + 1" for j
        using above mono [of j ?m] that m(3) by (cases "j = ?m") auto
      with less.hyps [of upper "?m + 1"] less.prems m above show ?thesis by (simp add: step)
    qed
  next
    case False
    have stop: "search_segment ss a k k = Ok k" for k by (subst search_segment.simps) simp
    from less.prems False show ?thesis by (simp add: stop)
  qed
qed

lemma search_segment_first:
  assumes "sorted_wrt (<) (map input_end ss)"
  shows "\<exists>k. (search_segment ss a 0 (length ss) :: ('e, usize) result) = Ok k \<and>
    (if k < length ss then Some (ss ! k) else None) = find (\<lambda>s. a \<le> input_end s) ss"
proof -
  obtain k where k: "(search_segment ss a 0 (length ss) :: ('e, usize) result) = Ok k" "k \<le> length ss"
    "\<forall>j < k. input_end (ss ! j) < a" "k < length ss \<longrightarrow> a \<le> input_end (ss ! k)"
    using search_segment_least [OF assms, of 0 "length ss" a] by auto
  have "(if k < length ss then Some (ss ! k) else None) = find (\<lambda>s. a \<le> input_end s) ss"
  proof (cases "k < length ss")
    case True
    with k have "find (\<lambda>s. a \<le> input_end s) ss = Some (ss ! k)"
      unfolding find_Some_iff by (intro exI [of _ k]) (auto simp: not_le)
    with True show ?thesis by simp
  next
    case False
    with k have "find (\<lambda>s. a \<le> input_end s) ss = None"
      unfolding find_None_iff by (auto simp: in_set_conv_nth not_le)
    with False show ?thesis by simp
  qed
  with k(1) show ?thesis by blast
qed

text \<open>The quote from the first segment that reaches the amount.\<close>

definition segment_quote :: "u64 \<Rightarrow> dlmm_segment \<Rightarrow> (quote_error, curve_quote) result" where
  "segment_quote a s =
    and_then
      (and_then (dlmm_bin_output_within_capacity (a - input_start s) (input_end s - input_start s)
          (output_end s - output_start s) (segment_price_q64 s) (segment_swap_for_y s)
          (segment_fee_on_input s) (ucast (segment_fee_rate s))) (\<lambda>within.
        ok_or MathOverflow (checked_add (output_start s) within))) (\<lambda>out.
    Ok \<lparr>cq_amount_out = out, cq_used_indices = segment_used_indices s,
       cq_used_len = segment_used_len s\<rparr>)"

definition quote_in :: "dlmm_segment list \<Rightarrow> u64 \<Rightarrow> (quote_error, curve_quote) result" where
  "quote_in ss a = and_then (ok_or InsufficientLiquidity (find (\<lambda>s. a \<le> input_end s) ss)) (segment_quote a)"

lemma chain_find_start:
  "chain i out ss \<Longrightarrow> i < a \<Longrightarrow> find (\<lambda>s. a \<le> input_end s) ss = Some s \<Longrightarrow> input_start s < a"
  by (induction ss arbitrary: i out) (auto simp: not_le split: if_splits)

lemma curve_quote_first:
  assumes "curve_ok c" "chain 0 0 (in_use c)" "a \<noteq> 0"
  shows "curve_quote_at c a = quote_in (in_use c) a"
proof -
  obtain k where k: "(search_segment (in_use c) a 0 (length (in_use c)) :: (quote_error, usize) result) = Ok k"
    "(if k < length (in_use c) then Some (in_use c ! k) else None) = find (\<lambda>s. a \<le> input_end s) (in_use c)"
    using search_segment_first [OF chain_sorted [OF assms(2)], of a] by blast
  show ?thesis
  proof (cases "find (\<lambda>s. a \<le> input_end s) (in_use c)")
    case None
    with assms(3) k(1) show ?thesis
      by (simp add: curve_quote_at_def as_slice_in_use [OF assms(1)] quote_in_def k(2))
  next
    case (Some s)
    have "s \<in> set (in_use c)" using Some by (auto simp: find_Some_iff)
    with chain_segment [OF assms(2)] have s: "input_start s < input_end s" "output_start s < output_end s"
      by simp_all
    have "input_start s < a" using chain_find_start [OF assms(2) _ Some] assms(3) by (simp add: word_gt_0)
    then have rem: "checked_sub a (input_start s) = Some (a - input_start s)" "a - input_start s \<noteq> 0"
      by (auto simp: checked_sub_def)
    note caps = sub_or_panic_le [OF less_imp_le [OF s(1)]] sub_or_panic_le [OF less_imp_le [OF s(2)]]
    show ?thesis
      using assms(3) k(1) rem
      by (simp add: curve_quote_at_def as_slice_in_use [OF assms(1)] quote_in_def k(2) Some
          input_capacity_def output_capacity_def caps segment_quote_def)
  qed
qed

section \<open>One round of the loop\<close>

lemma next_bin_id: "next_bin i d = next_id d i"
  by (simp add: next_bin_def next_id_def)

lemma try_narrow_back: "(try_narrow (r :: u128) :: u64 option) = Some x \<Longrightarrow> (ucast x :: u128) = r"
  by (auto simp: try_narrow_Some word_unat_eq_iff unat_ucast_u128)

text \<open>The bin at hand, once the bitmaps, the accounts and the array limit let it through.\<close>

definition bin_found ::
    "store \<Rightarrow> lb_pair_state \<Rightarrow> account_info list \<Rightarrow> u8 list option \<Rightarrow> bool \<Rightarrow> i32 \<Rightarrow> i64 list \<Rightarrow> usize
      \<Rightarrow> bin \<Rightarrow> i64 list \<Rightarrow> usize \<Rightarrow> bool" where
  "bin_found st pair arrays ext l i indices len b indices' len' \<longleftrightarrow>
    array_initialized pair ext (bin_array_index i) = Ok True \<and>
    (\<exists>account b'. find (\<lambda>a. parse_bin_array_index (info_data st a) = Ok (bin_array_index i)) arrays = Some account \<and>
      note_index (bin_array_index i) indices len = Ok (Some (indices', len')) \<and>
      parse_bin_for_id (info_data st account) i (bin_array_index i) = Ok b' \<and>
      b = (if l then b' else without_limit_orders b'))"

text \<open>The walk after a bin, and the segment for it.\<close>

definition bin_passed :: "lb_pair_state \<Rightarrow> curve_walk \<Rightarrow> i64 list \<Rightarrow> usize \<Rightarrow> curve_walk" where
  "bin_passed pair w indices len = w \<lparr>cw_visited := saturating_add (cw_visited w) 1,
    cw_indices := indices, cw_len := len,
    cw_variable := update_volatility_accumulator (cw_id w) (cw_variable w) (static_parameters pair)\<rparr>"

definition segment_at ::
    "bool \<Rightarrow> bool \<Rightarrow> u64 \<Rightarrow> u64 \<Rightarrow> bin \<Rightarrow> u64 \<Rightarrow> i64 list \<Rightarrow> usize \<Rightarrow> quote_result \<Rightarrow> dlmm_segment" where
  "segment_at d i total_in total_out b rate indices len q =
    \<lparr>input_start = total_in, input_end = total_in + quote_amount_in q, output_start = total_out,
     output_end = total_out + quote_amount_out q, segment_price_q64 = price_q64 b,
     segment_fee_rate = rate, segment_swap_for_y = d, segment_fee_on_input = i,
     segment_used_indices = indices, segment_used_len = len\<rparr>"

lemma curve_step_cases:
  assumes "curve_step st pair arrays ext d i l limit w = Ok f" "curve_ok (cw_curve w)"
  obtains
    (skip) "array_initialized pair ext (bin_array_index (cw_id w)) = Ok False"
      "f = Continue (w \<lparr>cw_visited := saturating_add (cw_visited w) 1, cw_id := next_id d (cw_id w)\<rparr>)"
  | (stop) reason where "f = Break (w \<lparr>cw_visited := saturating_add (cw_visited w) 1\<rparr>) reason"
      "reason = MissingBinArray \<or> reason = BinArrayLimitReached"
  | (empty) b indices len r where
      "bin_found st pair arrays ext l (cw_id w) (cw_indices w) (cw_len w) b indices len"
      "dlmm_total_fee_rate (fees_at pair (cw_id w) (cw_variable w)) = Ok r"
      "dlmm_bin_quote_capacity b d i (fees_at pair (cw_id w) (cw_variable w)) = Err InsufficientLiquidity"
      "f = Continue ((bin_passed pair w indices len) \<lparr>cw_id := next_id d (cw_id w)\<rparr>)"
  | (segment) b indices len r rate q curve where
      "bin_found st pair arrays ext l (cw_id w) (cw_indices w) (cw_len w) b indices len"
      "dlmm_total_fee_rate (fees_at pair (cw_id w) (cw_variable w)) = Ok r" "try_narrow r = Some rate"
      "dlmm_bin_quote_capacity b d i (fees_at pair (cw_id w) (cw_variable w)) = Ok q"
      "checked_add (cw_in w) (quote_amount_in q) = Some (cw_in w + quote_amount_in q)"
      "checked_add (cw_out w) (quote_amount_out q) = Some (cw_out w + quote_amount_out q)"
      "curve_ok curve"
      "in_use curve = in_use (cw_curve w) @ [segment_at d i (cw_in w) (cw_out w) b rate indices len q]"
      "f = (let w' = (bin_passed pair w indices len) \<lparr>cw_in := cw_in w + quote_amount_in q,
          cw_out := cw_out w + quote_amount_out q, cw_curve := curve\<rparr> in
        if limit \<le> cw_in w + quote_amount_in q then Break w' InputLimitReached
        else Continue (w' \<lparr>cw_id := next_id d (cw_id w)\<rparr>))"
proof -
  let ?index = "bin_array_index (cw_id w)"
  obtain initialized where init: "array_initialized pair ext ?index = Ok initialized"
    using assms(1) by (auto simp: curve_step_def Let_def result_iff)
  show thesis
  proof (cases initialized)
    case False
    with assms(1) init show ?thesis
      by (intro skip) (auto simp: curve_step_def Let_def next_bin_id)
  next
    case True
    then have init: "array_initialized pair ext ?index = Ok True" using init by simp
    show ?thesis
    proof (cases "find (\<lambda>a. parse_bin_array_index (info_data st a) = Ok ?index) arrays")
      case None
      with assms(1) init show ?thesis
        by (intro stop [of MissingBinArray]) (auto simp: curve_step_def Let_def)
    next
      case (Some account)
      note found = Some
      obtain noted where noted: "note_index ?index (cw_indices w) (cw_len w) = Ok noted"
        using assms(1) init found by (auto simp: curve_step_def Let_def result_iff)
      show ?thesis
      proof (cases noted)
        case None
        with assms(1) init found noted show ?thesis
          by (intro stop [of BinArrayLimitReached]) (auto simp: curve_step_def Let_def)
      next
        case (Some pair')
        then obtain indices len where il: "noted = Some (indices, len)" by (cases pair') auto
        obtain b' where b': "parse_bin_for_id (info_data st account) (cw_id w) ?index = Ok b'"
          using assms(1) init found noted il by (auto simp: curve_step_def Let_def result_iff)
        define b where "b = (if l then b' else without_limit_orders b')"
        have bin: "bin_found st pair arrays ext l (cw_id w) (cw_indices w) (cw_len w) b indices len"
          using init found noted il b' by (auto simp: bin_found_def b_def)
        let ?w = "w \<lparr>cw_visited := saturating_add (cw_visited w) 1, cw_indices := indices, cw_len := len\<rparr>"
        have push: "push_bin pair d i limit ?w b = Ok f"
          using assms(1) init found noted il b' by (simp add: curve_step_def Let_def b_def)
        let ?f = "fees_at pair (cw_id w) (cw_variable w)"
        obtain r and rate :: u64 where r: "dlmm_total_fee_rate ?f = Ok r" "try_narrow r = Some rate"
          using push by (auto simp: push_bin_def Let_def result_iff fees_at_def)
        show ?thesis
        proof (cases "dlmm_bin_quote_capacity b d i ?f")
          case (Ok q)
          with push r obtain ie oe curve where ie: "checked_add (cw_in w) (quote_amount_in q) = Some ie"
            and oe: "checked_add (cw_out w) (quote_amount_out q) = Some oe"
            and curve: "curve_push (cw_curve w) ((segment_at d i (cw_in w) (cw_out w) b rate indices len q)
                \<lparr>input_end := ie, output_end := oe\<rparr>) = Ok curve"
            and f: "f = (let w' = (bin_passed pair w indices len) \<lparr>cw_in := ie,
                cw_out := oe, cw_curve := curve\<rparr> in
              if limit \<le> ie then Break w' InputLimitReached
              else Continue (w' \<lparr>cw_id := next_id d (cw_id w)\<rparr>))"
            by (auto simp: push_bin_def Let_def result_iff fees_at_def segment_at_def bin_passed_def
                next_bin_id cong: if_cong)
          note sums = checked_add_sum [OF ie] checked_add_sum [OF oe]
          have seg: "(segment_at d i (cw_in w) (cw_out w) b rate indices len q)
              \<lparr>input_end := ie, output_end := oe\<rparr> = segment_at d i (cw_in w) (cw_out w) b rate indices len q"
            by (simp add: segment_at_def sums)
          show ?thesis
            by (rule segment [OF bin r Ok ie [unfolded sums] oe [unfolded sums]
              curve_push_Ok [OF assms(2) curve [unfolded seg]] f [unfolded sums]])
        next
          case (Err e)
          with push r have "e = InsufficientLiquidity"
            "f = Continue ((bin_passed pair w indices len) \<lparr>cw_id := next_id d (cw_id w)\<rparr>)"
            by (cases e; simp add: push_bin_def Let_def fees_at_def bin_passed_def next_bin_id)+
          with Err show ?thesis using empty [OF bin r(1)] by simp
        next
          case Panic
          with push r show ?thesis by (simp add: push_bin_def Let_def fees_at_def)
        qed
      qed
    qed
  qed
qed

section \<open>The whole loop\<close>

fun out_end :: "u64 \<Rightarrow> dlmm_segment list \<Rightarrow> u64" where
  "out_end out [] = out"
| "out_end out (s # ss) = out_end (output_end s) ss"

lemma chain_append:
  "chain i out (ss @ ts) \<longleftrightarrow> chain i out ss \<and> chain (chain_end i ss) (out_end out ss) ts"
  by (induction ss arbitrary: i out) auto

lemma chain_end_append [simp]: "chain_end i (ss @ ts) = chain_end (chain_end i ss) ts"
  by (induction ss arbitrary: i) auto

lemma out_end_append [simp]: "out_end i (ss @ ts) = out_end (out_end i ss) ts"
  by (induction ss arbitrary: i) auto

definition extends :: "curve_walk \<Rightarrow> dlmm_segment list \<Rightarrow> curve_walk \<Rightarrow> bool" where
  "extends w ss w' \<longleftrightarrow> curve_ok (cw_curve w') \<and> in_use (cw_curve w') = in_use (cw_curve w) @ ss \<and>
    chain (cw_in w) (cw_out w) ss \<and> cw_in w' = chain_end (cw_in w) ss \<and> cw_out w' = out_end (cw_out w) ss"

lemma extends_trans: "extends w ss v \<Longrightarrow> extends v ts u \<Longrightarrow> extends w (ss @ ts) u"
  by (simp add: extends_def chain_append)

fun flow_walk :: "flow \<Rightarrow> curve_walk" where
  "flow_walk (Continue w) = w"
| "flow_walk (Break w reason) = w"

lemma capacity_positive:
  assumes "dlmm_bin_quote_capacity b d i f = Ok q"
  shows "quote_amount_in q \<noteq> 0" "quote_amount_out q \<noteq> 0"
  using assms by (auto simp: dlmm_bin_quote_capacity_def result_iff split: if_splits)

lemma sum_above: "checked_add a b = Some (a + b) \<Longrightarrow> b \<noteq> 0 \<Longrightarrow> a < a + b"
  by (simp add: checked_add_Some word_less_nat_alt unat_gt_0)

lemma curve_step_extends:
  assumes "curve_step st pair arrays ext d i l limit w = Ok f" "curve_ok (cw_curve w)"
  shows "\<exists>ss. length ss \<le> 1 \<and> extends w ss (flow_walk f)"
  using assms
proof (cases rule: curve_step_cases)
  case skip
  with assms(2) show ?thesis by (intro exI [of _ "[]"]) (simp add: extends_def)
next
  case (stop reason)
  with assms(2) show ?thesis by (intro exI [of _ "[]"]) (simp add: extends_def)
next
  case (empty b indices len r)
  with assms(2) show ?thesis by (intro exI [of _ "[]"]) (simp add: extends_def bin_passed_def)
next
  case (segment b indices len r rate q curve)
  note above = sum_above [OF segment(5) capacity_positive(1) [OF segment(4)]]
    sum_above [OF segment(6) capacity_positive(2) [OF segment(4)]]
  show ?thesis
    using segment(7-9) above
    by (intro exI [of _ "[segment_at d i (cw_in w) (cw_out w) b rate indices len q]"])
      (simp add: extends_def bin_passed_def segment_at_def Let_def)
qed

lemma curve_loop_extends:
  "curve_loop st pair arrays ext d i l limit n w = Ok (w', reason) \<Longrightarrow> curve_ok (cw_curve w) \<Longrightarrow>
    \<exists>ss. extends w ss w'"
proof (induction n arbitrary: w)
  case 0
  then show ?case by (intro exI [of _ "[]"]) (simp add: extends_def)
next
  case (Suc n)
  then obtain f where f: "curve_step st pair arrays ext d i l limit w = Ok f"
    "(case f of Continue w \<Rightarrow> curve_loop st pair arrays ext d i l limit n w
      | Break w reason \<Rightarrow> Ok (w, reason)) = Ok (w', reason)"
    by (auto simp: result_iff)
  obtain ss where ss: "extends w ss (flow_walk f)" using curve_step_extends [OF f(1) Suc.prems(2)] by blast
  show ?case
  proof (cases f)
    case (Continue v)
    with f(2) ss Suc.IH [of v] obtain ts where "extends v ts w'" by (auto simp: extends_def)
    with extends_trans [of w ss v] ss Continue show ?thesis by auto
  qed (use f(2) ss in auto)
qed

section \<open>The curve quotes what the walk quotes\<close>

definition plain_arrays ::
    "store \<Rightarrow> account_info list \<Rightarrow> bool \<Rightarrow> bool \<Rightarrow> bool \<Rightarrow> bool" where
  "plain_arrays st arrays d i l \<longleftrightarrow> (\<forall>a \<in> set arrays. \<forall>n b.
    parse_bin_for_id (info_data st a) n (bin_array_index n) = Ok b \<longrightarrow>
    plain_bin d i (if l then b else without_limit_orders b))"

definition charges_fee :: "lb_pair_state \<Rightarrow> bool" where
  "charges_fee pair \<longleftrightarrow> base_factor (static_parameters pair) \<noteq> 0 \<and> bin_step pair \<noteq> 0"

lemma fee_rate_positive:
  assumes "charges_fee pair" "dlmm_total_fee_rate (fees_at pair n v) = Ok r"
  shows "0 < unat r"
proof -
  have "0 < base_fee_rate (fees_at pair n v)"
    using assms(1)
    by (simp add: charges_fee_def base_fee_rate_def fees_at_def dlmm_fee_parameters_of_def unat_gt_0)
  with dlmm_total_fee_rate_OkD [OF assms(2)] show ?thesis by linarith
qed

text \<open>Either every bin charges a fee, or none does.\<close>

definition charges_nothing :: "lb_pair_state \<Rightarrow> bool" where
  "charges_nothing pair \<longleftrightarrow> (base_factor (static_parameters pair) = 0 \<or> bin_step pair = 0) \<and>
    variable_fee_control (static_parameters pair) = 0"

definition uniform_fee :: "lb_pair_state \<Rightarrow> bool" where
  "uniform_fee pair \<longleftrightarrow> charges_fee pair \<or> charges_nothing pair"

lemma uniform_fee_charges:
  assumes "uniform_fee pair" "dlmm_total_fee_rate (fees_at pair n v) = Ok r" "0 < unat r"
  shows "charges_fee pair"
proof (rule ccontr)
  assume "\<not> charges_fee pair"
  then have "charges_nothing pair" using assms(1) by (simp add: uniform_fee_def)
  then have "base_fee_rate (fees_at pair n v) = 0" "variable_fee_rate (fees_at pair n v) = 0"
    by (auto simp: charges_nothing_def base_fee_rate_def variable_fee_rate_def fees_at_def
        dlmm_fee_parameters_of_def)
  with dlmm_total_fee_rate_OkD [OF assms(2)] assms(3) show False by simp
qed

lemma note_index_mark:
  "note_index index indices len = Ok (Some x) \<Longrightarrow> len \<le> 2 \<Longrightarrow> mark_used_index index indices len = Ok x"
  by (cases "len = 0"; cases "nth_or_panic indices (len - 1) :: (program_error, i64) result")
    (auto simp: note_index_def mark_used_index_def require_def MAX_QUOTE_BIN_ARRAYS_PER_DIRECTION_def
      split: if_splits)

lemma note_index_grows:
  "note_index index indices len = Ok (Some (indices', len')) \<Longrightarrow> len \<le> 2 \<Longrightarrow>
    len' \<le> 2 \<and> len \<le> len' \<and> take len indices' = take len indices"
  by (cases "len = 0"; cases "nth_or_panic indices (len - 1) :: (program_error, i64) result")
    (auto simp: note_index_def MAX_QUOTE_BIN_ARRAYS_PER_DIRECTION_def split: if_splits)

definition at_position :: "u64 \<Rightarrow> account_walk \<Rightarrow> curve_walk \<Rightarrow> bool" where
  "at_position a v w \<longleftrightarrow> cw_in w < a \<and> cw_len w \<le> 2 \<and> aw_remaining v = a - cw_in w \<and> aw_out v = cw_out w \<and>
    aw_id v = cw_id w \<and> aw_variable v = cw_variable w \<and> aw_indices v = cw_indices w \<and> aw_len v = cw_len w"

definition quoted :: "curve_quote \<Rightarrow> account_walk \<Rightarrow> bool" where
  "quoted q v \<longleftrightarrow> aw_remaining v = 0 \<and> cq_amount_out q = aw_out v \<and>
    take (aw_len v) (aw_indices v) = take (aw_len v) (cq_used_indices q) \<and> aw_len v \<le> cq_used_len q"

lemma account_step_bin:
  assumes "bin_found st pair arrays ext l (aw_id v) (aw_indices v) (aw_len v) b indices len" "aw_len v \<le> 2"
  shows "account_step st pair arrays ext d i l v = account_spend pair d i v b indices len"
proof -
  let ?index = "bin_array_index (aw_id v)"
  obtain account b' where init: "array_initialized pair ext ?index = Ok True"
    and found: "find (\<lambda>a. parse_bin_array_index (info_data st a) = Ok ?index) arrays = Some account"
    and noted: "note_index ?index (aw_indices v) (aw_len v) = Ok (Some (indices, len))"
    and parse: "parse_bin_for_id (info_data st account) (aw_id v) ?index = Ok b'"
    and b: "b = (if l then b' else without_limit_orders b')"
    using assms(1) unfolding bin_found_def by blast
  show ?thesis
    by (simp add: account_step_def Let_def init found note_index_mark [OF noted assms(2)] parse b)
qed

lemma bin_found_plain:
  assumes "plain_arrays st arrays d i l" "bin_found st pair arrays ext l n indices len b indices' len'"
  shows "plain_bin d i b"
proof -
  from assms(2) obtain account b' where
    "find (\<lambda>a. parse_bin_array_index (info_data st a) = Ok (bin_array_index n)) arrays = Some account"
    "parse_bin_for_id (info_data st account) n (bin_array_index n) = Ok b'"
    "b = (if l then b' else without_limit_orders b')"
    by (auto simp: bin_found_def)
  moreover from this(1) have "account \<in> set arrays" by (auto simp: find_Some_iff)
  ultimately show ?thesis using assms(1) by (auto simp: plain_arrays_def)
qed


text \<open>The segment that covers the amount gives the walk's last step.\<close>

lemma covered:
  assumes pos: "at_position a v w" and rate: "dlmm_total_fee_rate (fees_at pair (cw_id w) (cw_variable w)) = Ok r"
    and narrow: "try_narrow r = Some rate"
    and cap: "dlmm_bin_quote_capacity b d i (fees_at pair (cw_id w) (cw_variable w)) = Ok q"
    and sums: "checked_add (cw_in w) (quote_amount_in q) = Some (cw_in w + quote_amount_in q)"
      "checked_add (cw_out w) (quote_amount_out q) = Some (cw_out w + quote_amount_out q)"
    and plain: "plain_bin d i b" and a: "a \<le> cw_in w + quote_amount_in q"
  shows "agree quoted (segment_quote a (segment_at d i (cw_in w) (cw_out w) b rate indices len q))
    (account_spend pair d i v b indices len)"
proof -
  let ?f = "fees_at pair (cw_id w) (cw_variable w)" and ?rem = "a - cw_in w"
  note pos = pos [unfolded at_position_def]
  have rem: "unat ?rem = unat a - unat (cw_in w)" "?rem \<noteq> 0"
    using pos by (auto simp: unat_sub_small less_imp_le)
  have in_q: "unat (cw_in w + quote_amount_in q) = unat (cw_in w) + unat (quote_amount_in q)"
    using sums(1) by (simp add: checked_add_Some)
  have le: "?rem \<le> quote_amount_in q" using a by (simp add: word_le_nat_alt rem(1) in_q)
  obtain m c where top: "unat (quote_amount_in q) < 2 ^ 64 - 1"
    by (rule capacity_parts [OF cap rate plain]) blast
  then have "quote_amount_in q \<noteq> - 1" by (auto simp: unat_minus_one_word)
  from within_capacity_exact [OF cap rate rem(2) le disjI1 [OF this]]
  have within: "dlmm_bin_output_within_capacity ?rem (quote_amount_in q) (quote_amount_out q) (price_q64 b) d i r =
    map_ok quote_amount_out (dlmm_quote_exact_in_partial ?rem [b] d i ?f)" by simp
  have spend: "account_spend pair d i v b indices len =
    and_then (map_err incomplete (dlmm_quote_exact_in_partial ?rem [b] d i ?f)) (\<lambda>partial.
     and_then (ok_or (Arb ArithmeticOverflow) (checked_sub ?rem (quote_amount_in partial))) (\<lambda>remaining.
     and_then (ok_or (Arb ArithmeticOverflow)
         (checked_add (cw_out w) (quote_amount_out partial))) (\<lambda>amount_out.
     Ok \<lparr>aw_id = (if remaining \<noteq> 0 then next_id d (cw_id w) else cw_id w),
        aw_remaining = remaining, aw_out = amount_out, aw_indices = indices, aw_len = len,
        aw_variable = update_volatility_accumulator (cw_id w) (cw_variable w) (static_parameters pair)\<rparr>)))"
    using pos by (simp add: account_spend_def Let_def fees_at_def cong: if_cong)
  show ?thesis
  proof (cases "dlmm_quote_exact_in_partial ?rem [b] d i ?f")
    case (Ok p)
    have full: "dlmm_quote_exact_in_partial (- 1) [b] d i ?f = Ok q"
      using cap by (auto simp: dlmm_bin_quote_capacity_def result_iff split: if_splits)
    have "quote_amount_in p \<le> ?rem"
      using Ok dlmm_impl_conserves(1) unfolding dlmm_quote_exact_in_partial_def by blast
    with partial_one_bin_mono [OF Ok full] le have "quote_amount_in p = ?rem" by auto
    then show ?thesis
      using Ok within
      by (cases "checked_add (cw_out w) (quote_amount_out p)")
        (simp_all add: spend segment_quote_def segment_at_def try_narrow_back [OF narrow] quoted_def)
  qed (use within in \<open>simp_all add: spend segment_quote_def segment_at_def try_narrow_back [OF narrow]\<close>)
qed

text \<open>Past the capacity: the walk has left the bin and is at the position of the curve, or the fee has
  swallowed the last unit.\<close>

lemma passed:
  assumes pos: "at_position a v w" and rate: "dlmm_total_fee_rate (fees_at pair (cw_id w) (cw_variable w)) = Ok r"
    and cap: "dlmm_bin_quote_capacity b d i (fees_at pair (cw_id w) (cw_variable w)) = Ok q"
    and sums: "checked_add (cw_in w) (quote_amount_in q) = Some (cw_in w + quote_amount_in q)"
      "checked_add (cw_out w) (quote_amount_out q) = Some (cw_out w + quote_amount_out q)"
    and plain: "plain_bin d i b" and a: "cw_in w + quote_amount_in q < a"
    and w': "cw_in w' = cw_in w + quote_amount_in q" "cw_out w' = cw_out w + quote_amount_out q"
      "cw_id w' = next_id d (cw_id w)" "cw_indices w' = indices" "cw_len w' = len"
      "cw_variable w' = update_volatility_accumulator (cw_id w) (cw_variable w) (static_parameters pair)"
    and len: "len \<le> 2"
  shows "\<exists>v'. account_spend pair d i v b indices len = Ok v' \<and>
    (at_position a v' w' \<or>
     i \<and> 0 < unat r \<and> unat a = unat (cw_in w') + 1 \<and> aw_remaining v' = 0 \<and> aw_out v' = cw_out w' \<and>
     aw_indices v' = indices \<and> aw_len v' = len)"
proof -
  let ?f = "fees_at pair (cw_id w) (cw_variable w)" and ?rem = "a - cw_in w"
  note pos = pos [unfolded at_position_def]
  have rem: "unat ?rem = unat a - unat (cw_in w)"
    using pos by (auto simp: unat_sub_small less_imp_le)
  have in_q: "unat (cw_in w + quote_amount_in q) = unat (cw_in w) + unat (quote_amount_in q)"
    using sums(1) by (simp add: checked_add_Some)
  have less: "quote_amount_in q < ?rem" using a by (simp add: word_less_nat_alt rem in_q)
  obtain p where p: "dlmm_quote_exact_in_partial ?rem [b] d i ?f = Ok p"
    "quote_amount_out p = quote_amount_out q"
    "quote_amount_in p = quote_amount_in q \<or>
     i \<and> 0 < unat r \<and> quote_amount_in p = ?rem \<and> unat ?rem = unat (quote_amount_in q) + 1"
    using partial_above [OF cap rate plain less] by blast
  have le: "quote_amount_in p \<le> ?rem" using p(3) less by auto
  have left: "?rem - quote_amount_in q = a - (cw_in w + quote_amount_in q)" by (simp add: algebra_simps)
  have "a - (cw_in w + quote_amount_in q) \<noteq> 0" using a by auto
  moreover have "account_spend pair d i v b indices len =
    Ok \<lparr>aw_id = (if ?rem - quote_amount_in p \<noteq> 0 then next_id d (cw_id w) else cw_id w),
        aw_remaining = ?rem - quote_amount_in p, aw_out = cw_out w + quote_amount_out q,
        aw_indices = indices, aw_len = len,
        aw_variable = update_volatility_accumulator (cw_id w) (cw_variable w) (static_parameters pair)\<rparr>"
    using p(1,2) le pos sums(2)
    by (simp add: account_spend_def Let_def fees_at_def checked_sub_def cong: if_cong)
  ultimately show ?thesis
    using p(3)
  proof (elim disjE)
    assume "quote_amount_in p = quote_amount_in q"
    then show ?thesis
      using \<open>account_spend pair d i v b indices len = _\<close> \<open>a - _ \<noteq> 0\<close> a len by (simp add: left at_position_def w')
  next
    assume "i \<and> 0 < unat r \<and> quote_amount_in p = ?rem \<and> unat ?rem = unat (quote_amount_in q) + 1"
    moreover have "unat (cw_in w) < unat a" using pos by (simp add: word_less_nat_alt)
    ultimately have "i" "0 < unat r" "unat a = unat (cw_in w') + 1" "quote_amount_in p = ?rem"
      unfolding w' in_q rem by auto
    then show ?thesis
      using \<open>account_spend pair d i v b indices len = _\<close> by (simp add: w')
  qed
qed


lemma bin_found_grows:
  assumes "bin_found st pair arrays ext l n indices len b indices' len'" "len \<le> 2"
  shows "len' \<le> 2 \<and> len \<le> len' \<and> take len indices' = take len indices"
  using assms by (auto simp: bin_found_def dest: note_index_grows)

lemma step_segment_extends:
  assumes "(case f of Continue w \<Rightarrow> curve_loop st pair arrays ext d i l limit n w
      | Break w reason \<Rightarrow> Ok (w, reason)) = Ok (w', reason)" "curve_ok (cw_curve (flow_walk f))"
  shows "\<exists>ts. extends (flow_walk f) ts w'"
proof (cases f)
  case (Continue v)
  with assms curve_loop_extends [of st pair arrays ext d i l limit n v] show ?thesis by simp
next
  case (Break v r)
  with assms show ?thesis by (intro exI [of _ "[]"]) (simp add: extends_def)
qed

lemma quote_in_covered:
  "a \<le> input_end s \<Longrightarrow> quote_in (s # ts) a = segment_quote a s"
  by (simp add: quote_in_def)

lemma quote_in_passed:
  "input_end s < a \<Longrightarrow> quote_in (s # ts) a = quote_in ts a"
  by (auto simp: quote_in_def)

lemma loop_edge:
  assumes plain: "plain_arrays st arrays d True l" and fee: "charges_fee pair"
  shows "curve_loop st pair arrays ext d True l limit n w = Ok (w', reason) \<Longrightarrow> curve_ok (cw_curve w) \<Longrightarrow>
    cw_len w \<le> 2 \<Longrightarrow> unat a = unat (cw_in w) + 1 \<Longrightarrow> a \<le> cw_in w' \<Longrightarrow>
    \<exists>ss q. in_use (cw_curve w') = in_use (cw_curve w) @ ss \<and> quote_in ss a = Ok q \<and>
      cq_amount_out q = cw_out w \<and> cw_len w \<le> cq_used_len q \<and>
      take (cw_len w) (cq_used_indices q) = take (cw_len w) (cw_indices w)"
proof (induction n arbitrary: w)
  case 0
  then show ?case by (simp add: word_le_nat_alt)
next
  case (Suc n)
  then obtain f where f: "curve_step st pair arrays ext d True l limit w = Ok f"
    "(case f of Continue w \<Rightarrow> curve_loop st pair arrays ext d True l limit n w
      | Break w reason \<Rightarrow> Ok (w, reason)) = Ok (w', reason)"
    by (auto simp: result_iff)
  from f(1) Suc.prems(2) show ?case
  proof (cases rule: curve_step_cases)
    case skip
    with f(2) Suc.IH [OF _ _ _ _ Suc.prems(5)] Suc.prems(2-4) show ?thesis by fastforce
  next
    case (stop r)
    with f(2) Suc.prems(4,5) show ?thesis by (auto simp: word_le_nat_alt)
  next
    case (empty b indices len r)
    note grows = bin_found_grows [OF empty(1) Suc.prems(3)]
    have "\<exists>ss q. in_use (cw_curve w') = in_use (cw_curve w) @ ss \<and> quote_in ss a = Ok q \<and>
      cq_amount_out q = cw_out w \<and> len \<le> cq_used_len q \<and> take len (cq_used_indices q) = take len indices"
      using Suc.IH [of "(bin_passed pair w indices len) \<lparr>cw_id := next_id d (cw_id w)\<rparr>"]
        f(2) empty(4) Suc.prems grows by (simp add: bin_passed_def)
    then obtain ss q where *: "in_use (cw_curve w') = in_use (cw_curve w) @ ss" "quote_in ss a = Ok q"
      "cq_amount_out q = cw_out w" "len \<le> cq_used_len q" "take len (cq_used_indices q) = take len indices"
      by blast
    have "take (cw_len w) (cq_used_indices q) = take (cw_len w) (take len (cq_used_indices q))"
      using grows by (simp add: min_def)
    also have "\<dots> = take (cw_len w) indices" using grows by (simp add: *(5) min_def)
    finally show ?thesis using * grows by (intro exI [of _ ss] exI [of _ q]) simp
  next
    case (segment b indices len r rate q curve)
    let ?s = "segment_at d True (cw_in w) (cw_out w) b rate indices len q"
    note grows = bin_found_grows [OF segment(1) Suc.prems(3)]
    note unit = edge_unit [OF segment(4,2) bin_found_plain [OF plain segment(1)]
      fee_rate_positive [OF fee segment(2)]]
    have "curve_ok (cw_curve (flow_walk f))" using segment(7,9) by (simp add: Let_def bin_passed_def)
    from step_segment_extends [OF f(2) this] segment(8,9)
    obtain ts where ts: "in_use (cw_curve w') = in_use (cw_curve w) @ ?s # ts"
      by (auto simp: extends_def Let_def bin_passed_def)
    have sum: "unat (cw_in w + quote_amount_in q) = unat (cw_in w) + unat (quote_amount_in q)"
      using segment(5) by (simp add: checked_add_Some)
    then have "a \<le> input_end ?s"
      using Suc.prems(4) unit(2) by (simp add: segment_at_def word_le_nat_alt)
    note quote = quote_in_covered [OF this, of ts]
    have "a - cw_in w = 1"
      using Suc.prems(4) by (simp add: word_unat_eq_iff unat_sub_small word_le_nat_alt)
    then have "segment_quote a ?s = Ok \<lparr>cq_amount_out = cw_out w, cq_used_indices = indices, cq_used_len = len\<rparr>"
      using unit(1)
      by (simp add: segment_quote_def segment_at_def try_narrow_back [OF segment(3)] checked_add_0)
    with ts quote grows show ?thesis by (intro exI [of _ "?s # ts"]) simp
  qed
qed

lemma loop_quotes:
  assumes plain: "plain_arrays st arrays d i l" and fee: "i \<Longrightarrow> uniform_fee pair"
  shows "curve_loop st pair arrays ext d i l limit n w = Ok (w', reason) \<Longrightarrow> curve_ok (cw_curve w) \<Longrightarrow>
    at_position a v w \<Longrightarrow> a \<le> cw_in w' \<Longrightarrow>
    \<exists>ss. in_use (cw_curve w') = in_use (cw_curve w) @ ss \<and>
      agree quoted (quote_in ss a) (account_loop st pair arrays ext d i l n v)"
proof (induction n arbitrary: w v)
  case 0
  then show ?case by (auto simp: at_position_def)
next
  case (Suc n)
  then obtain f where f: "curve_step st pair arrays ext d i l limit w = Ok f"
    "(case f of Continue w \<Rightarrow> curve_loop st pair arrays ext d i l limit n w
      | Break w reason \<Rightarrow> Ok (w, reason)) = Ok (w', reason)"
    by (auto simp: result_iff)
  note pos = Suc.prems(3) [unfolded at_position_def]
  then have rem: "aw_remaining v \<noteq> 0" by auto
  from f(1) Suc.prems(2) show ?case
  proof (cases rule: curve_step_cases)
    case skip
    have "account_step st pair arrays ext d i l v = Ok (v \<lparr>aw_id := next_id d (aw_id v)\<rparr>)"
      using skip(1) pos by (simp add: account_step_def Let_def)
    with rem skip(2) f(2) Suc.prems(2-4) Suc.IH [of "w \<lparr>cw_visited := saturating_add (cw_visited w) 1,
        cw_id := next_id d (cw_id w)\<rparr>" "v \<lparr>aw_id := next_id d (aw_id v)\<rparr>"] show ?thesis
      by (simp add: at_position_def)
  next
    case (stop r)
    with f(2) Suc.prems(3,4) show ?thesis by (auto simp: at_position_def)
  next
    case (empty b indices len r)
    note grows = bin_found_grows [OF empty(1)]
    have step: "account_step st pair arrays ext d i l v = account_spend pair d i v b indices len"
      using empty(1) pos by (intro account_step_bin) auto
    obtain p where p: "dlmm_quote_exact_in_partial (aw_remaining v) [b] d i (fees_at pair (cw_id w) (cw_variable w)) = Ok p"
      "quote_amount_in p = 0" "quote_amount_out p = 0"
      using capacity_missing [OF empty(3,2) bin_found_plain [OF plain empty(1)] rem] by blast
    define v' where "v' = \<lparr>aw_id = next_id d (cw_id w), aw_remaining = aw_remaining v, aw_out = aw_out v,
      aw_indices = indices, aw_len = len,
      aw_variable = update_volatility_accumulator (cw_id w) (cw_variable w) (static_parameters pair)\<rparr>"
    have "account_spend pair d i v b indices len = Ok v'"
      using p pos rem by (simp add: account_spend_def Let_def fees_at_def checked_sub_def checked_add_0 v'_def)
    moreover have "at_position a v' ((bin_passed pair w indices len) \<lparr>cw_id := next_id d (cw_id w)\<rparr>)"
      using pos grows by (simp add: at_position_def v'_def bin_passed_def)
    ultimately show ?thesis
      using rem empty(4) f(2) step Suc.IH Suc.prems(2,4) by (fastforce simp: bin_passed_def)
  next
    case (segment b indices len r rate q curve)
    let ?s = "segment_at d i (cw_in w) (cw_out w) b rate indices len q"
    note grows = bin_found_grows [OF segment(1)]
    note bin_plain = bin_found_plain [OF plain segment(1)]
    have step: "account_loop st pair arrays ext d i l (Suc n) v =
      and_then (account_spend pair d i v b indices len) (account_loop st pair arrays ext d i l n)"
      using segment(1) pos rem account_step_bin [of st pair arrays ext l v b indices len] by simp
    show ?thesis
    proof (cases "a \<le> cw_in w + quote_amount_in q")
      case True
      have "curve_ok (cw_curve (flow_walk f))" using segment(7,9) by (simp add: Let_def bin_passed_def)
      from step_segment_extends [OF f(2) this] segment(8,9)
      obtain ts where ts: "in_use (cw_curve w') = in_use (cw_curve w) @ ?s # ts"
        by (auto simp: extends_def Let_def bin_passed_def)
      have "quote_in (?s # ts) a = segment_quote a ?s"
        using True by (intro quote_in_covered) (simp add: segment_at_def)
      moreover have "agree quoted (segment_quote a ?s) (and_then (account_spend pair d i v b indices len)
          (account_loop st pair arrays ext d i l n))"
      proof -
        have "account_loop st pair arrays ext d i l n u = Ok u" if "aw_remaining u = 0" for u
          using that by (cases n) simp_all
        then show ?thesis
          using covered [OF Suc.prems(3) segment(2-6) bin_plain True, of indices len]
          by (cases "segment_quote a ?s"; cases "account_spend pair d i v b indices len")
            (auto simp: quoted_def)
      qed
      ultimately show ?thesis using ts step by (intro exI [of _ "?s # ts"]) simp
    next
      case False
      let ?w = "(bin_passed pair w indices len) \<lparr>cw_in := cw_in w + quote_amount_in q,
          cw_out := cw_out w + quote_amount_out q, cw_curve := curve, cw_id := next_id d (cw_id w)\<rparr>"
      have loop: "curve_loop st pair arrays ext d i l limit n ?w = Ok (w', reason)"
        using f(2) segment(9) False Suc.prems(4)
        by (auto simp: Let_def bin_passed_def split: if_splits)
      have ok: "curve_ok (cw_curve ?w)" using segment(7) by simp
      have tail: "quote_in (?s # ts) a = quote_in ts a" for ts
        using False by (intro quote_in_passed) (simp add: segment_at_def not_le)
      have "len \<le> 2" using grows pos by simp
      have "\<exists>v'. account_spend pair d i v b indices len = Ok v' \<and>
        (at_position a v' ?w \<or>
         i \<and> 0 < unat r \<and> unat a = unat (cw_in ?w) + 1 \<and> aw_remaining v' = 0 \<and> aw_out v' = cw_out ?w \<and>
         aw_indices v' = indices \<and> aw_len v' = len)"
        using False \<open>len \<le> 2\<close>
        by (intro passed [OF Suc.prems(3) segment(2,4-6) bin_plain]) (simp_all add: not_le bin_passed_def)
      then obtain v' where v': "account_spend pair d i v b indices len = Ok v'"
        and cases: "at_position a v' ?w \<or>
         i \<and> 0 < unat r \<and> unat a = unat (cw_in ?w) + 1 \<and> aw_remaining v' = 0 \<and> aw_out v' = cw_out ?w \<and>
         aw_indices v' = indices \<and> aw_len v' = len" by blast
      from cases show ?thesis
      proof
        assume "at_position a v' ?w"
        from Suc.IH [OF loop ok this Suc.prems(4)] obtain ts where
          "in_use (cw_curve w') = in_use curve @ ts"
          "agree quoted (quote_in ts a) (account_loop st pair arrays ext d i l n v')" by auto
        then show ?thesis
          using segment(8) step v' by (intro exI [of _ "?s # ts"]) (simp add: tail)
      next
        assume edge: "i \<and> 0 < unat r \<and> unat a = unat (cw_in ?w) + 1 \<and> aw_remaining v' = 0 \<and> aw_out v' = cw_out ?w \<and>
         aw_indices v' = indices \<and> aw_len v' = len"
        then have i: "i = True" by simp
        have charges: "charges_fee pair"
          using edge fee by (intro uniform_fee_charges [OF _ segment(2)]) auto
        from loop_edge [OF plain [unfolded i] charges loop [unfolded i] ok _ _ Suc.prems(4)] edge \<open>len \<le> 2\<close>
        obtain ts q' where ts: "in_use (cw_curve w') = in_use curve @ ts" "quote_in ts a = Ok q'"
          "cq_amount_out q' = cw_out ?w" "len \<le> cq_used_len q'" "take len (cq_used_indices q') = take len indices"
          by (auto simp: bin_passed_def)
        have "account_loop st pair arrays ext d i l n v' = Ok v'" using edge by (cases n) simp_all
        then show ?thesis
          using segment(8) step v' ts edge by (intro exI [of _ "?s # ts"]) (simp add: tail [unfolded i] quoted_def)
      qed
    qed
  qed
qed

section \<open>The built curve\<close>

definition reached :: "u64 \<Rightarrow> dlmm_segment list \<Rightarrow> bool" where
  "reached limit ss \<longleftrightarrow> ss \<noteq> [] \<and> limit \<le> input_end (last ss)"

definition visits :: "nat \<Rightarrow> curve_walk \<Rightarrow> bool" where
  "visits k w \<longleftrightarrow> unat (cw_visited w) \<le> k"

lemma visited_step: "visits k w \<Longrightarrow> k < 16 \<Longrightarrow> unat (saturating_add (cw_visited w) 1) \<le> Suc k"
  by (simp add: visits_def unat_saturating_add)

lemma curve_loop_stop:
  "curve_loop st pair arrays ext d i l limit n w = Ok (w', reason) \<Longrightarrow> curve_ok (cw_curve w) \<Longrightarrow>
    \<not> reached limit (in_use (cw_curve w)) \<Longrightarrow> visits k w \<Longrightarrow> k + n \<le> 16 \<Longrightarrow>
    (reason = InputLimitReached \<longleftrightarrow> reached limit (in_use (cw_curve w'))) \<and>
    reason \<noteq> NoUsableLiquidity \<and> visits (k + n) w'"
proof (induction n arbitrary: w k)
  case 0
  then show ?case by auto
next
  case (Suc n)
  then obtain f where f: "curve_step st pair arrays ext d i l limit w = Ok f"
    "(case f of Continue w \<Rightarrow> curve_loop st pair arrays ext d i l limit n w
      | Break w reason \<Rightarrow> Ok (w, reason)) = Ok (w', reason)"
    by (auto simp: result_iff)
  have visited: "unat (saturating_add (cw_visited w) 1) \<le> Suc k"
    using visited_step [OF Suc.prems(4)] Suc.prems(5) by simp
  have more: "visits (Suc k) v \<Longrightarrow> visits (k + Suc n) v" for v by (simp add: visits_def)
  from f(1) Suc.prems(2) show ?case
  proof (cases rule: curve_step_cases)
    case skip
    with f(2) Suc.IH [of "w \<lparr>cw_visited := saturating_add (cw_visited w) 1,
        cw_id := next_id d (cw_id w)\<rparr>" "Suc k"] Suc.prems visited show ?thesis
      by (simp add: visits_def)
  next
    case (stop r)
    with f(2) Suc.prems visited more show ?thesis by (auto simp: visits_def)
  next
    case (empty b indices len r)
    with f(2) Suc.IH [of "(bin_passed pair w indices len) \<lparr>cw_id := next_id d (cw_id w)\<rparr>" "Suc k"]
      Suc.prems visited show ?thesis
      by (simp add: visits_def bin_passed_def)
  next
    case (segment b indices len r rate q curve)
    let ?w = "(bin_passed pair w indices len) \<lparr>cw_in := cw_in w + quote_amount_in q,
          cw_out := cw_out w + quote_amount_out q, cw_curve := curve\<rparr>"
    have at: "reached limit (in_use curve) \<longleftrightarrow> limit \<le> cw_in w + quote_amount_in q"
      by (simp add: reached_def segment(8) segment_at_def)
    have visited: "visits (Suc k) ?w" using visited by (simp add: visits_def bin_passed_def)
    show ?thesis
    proof (cases "limit \<le> cw_in w + quote_amount_in q")
      case True
      with f(2) segment(9) at visited show ?thesis by (auto simp: Let_def visits_def)
    next
      case False
      with f(2) segment(7,9) at visited Suc.prems(5)
        Suc.IH [of "?w \<lparr>cw_id := next_id d (cw_id w)\<rparr>" "Suc k"] show ?thesis
        by (simp add: visits_def Let_def)
    qed
  qed
qed

lemma build_curve_Ok:
  assumes "build_curve c0 st pair arrays ext d t limit = Ok c" "curve_ok c0"
    "fee_on_input pair d = Ok i" "supports_limit_orders pair = Ok l"
  obtains w reason where
    "curve_loop st pair arrays ext d i l limit 16
       \<lparr>cw_id = active_id pair, cw_in = 0, cw_out = 0, cw_indices = [0, 0], cw_len = 0,
        cw_variable = update_reference (active_id pair) (variable_parameters pair) (static_parameters pair) t,
        cw_visited = 0, cw_curve = curve_clear c0\<rparr> = Ok (w, reason)"
    "curve_ok c" "in_use c = in_use (cw_curve w)" "chain 0 0 (in_use c)" "cw_in w = chain_end 0 (in_use c)"
    "curve_visited_bins c = cw_visited w"
    "curve_stop c = (if in_use c = [] \<and> reason = VisitedBinLimitReached then NoUsableLiquidity else reason)"
proof -
  let ?w = "\<lparr>cw_id = active_id pair, cw_in = 0, cw_out = 0, cw_indices = [0, 0], cw_len = 0,
        cw_variable = update_reference (active_id pair) (variable_parameters pair) (static_parameters pair) t,
        cw_visited = 0, cw_curve = curve_clear c0\<rparr>"
  from assms(1,3,4) obtain w reason ss where
    loop: "curve_loop st pair arrays ext d i l limit 16 ?w = Ok (w, reason)" and
    ss: "as_slice (cw_curve w) = (Ok ss :: (program_error, dlmm_segment list) result)" and
    c: "c = cw_curve w \<lparr>curve_visited_bins := cw_visited w,
       curve_stop := (if ss = [] \<and> reason = VisitedBinLimitReached then NoUsableLiquidity else reason)\<rparr>"
    by (auto simp: build_curve_def Let_def result_iff MAX_QUOTE_VISITED_BINS_PER_DIRECTION_def)
  obtain new where "extends ?w new w"
    using curve_loop_extends [OF loop] curve_clear_ok(1) [OF assms(2)] by auto
  then have w: "curve_ok (cw_curve w)" "in_use (cw_curve w) = new" "chain 0 0 new" "cw_in w = chain_end 0 new"
    using curve_clear_ok(2) [of c0] by (simp_all add: extends_def)
  moreover have "ss = new" using ss w(1,2) by (simp add: as_slice_in_use)
  moreover have "curve_ok c" "in_use c = in_use (cw_curve w)" using c w(1) by (simp_all add: curve_ok_def in_use_def)
  ultimately show thesis using loop c by (intro that [of w reason]) auto
qed

lemma build_curve_switches:
  assumes "build_curve c0 st pair arrays ext d t limit = Ok c"
  obtains i l where "fee_on_input pair d = Ok i" "supports_limit_orders pair = Ok l"
  using assms by (auto simp: build_curve_def Let_def result_iff)

lemma largest_input: "curve_ok c \<Longrightarrow> largest_complete_input c = Ok (chain_end 0 (in_use c))"
  by (simp add: largest_complete_input_def as_slice_in_use chain_end_last)

lemma curve_quotes_agree:
  assumes build: "build_curve curve_new st pair arrays ext d t limit = Ok c"
    and i: "fee_on_input pair d = Ok i" and l: "supports_limit_orders pair = Ok l"
    and plain: "plain_arrays st arrays d i l" and fee: "i \<Longrightarrow> uniform_fee pair"
    and a: "a \<noteq> 0" "a \<le> chain_end 0 (in_use c)"
  shows "agree (\<lambda>q r. cq_amount_out q = adq_amount_out r \<and> adq_used_len r \<le> cq_used_len q \<and>
      take (adq_used_len r) (adq_used_indices r) = take (adq_used_len r) (cq_used_indices q))
    (curve_quote_at c a) (quote_dlmm_from_accounts st a pair arrays ext d t)"
proof -
  let ?v = "update_reference (active_id pair) (variable_parameters pair) (static_parameters pair) t"
  let ?w = "\<lparr>cw_id = active_id pair, cw_in = 0, cw_out = 0, cw_indices = [0, 0], cw_len = 0,
        cw_variable = ?v, cw_visited = 0, cw_curve = curve_clear curve_new\<rparr>"
  let ?a = "\<lparr>aw_id = active_id pair, aw_remaining = a, aw_out = 0, aw_indices = [0, 0],
          aw_len = 0, aw_variable = ?v\<rparr>"
  obtain w reason where loop: "curve_loop st pair arrays ext d i l limit 16 ?w = Ok (w, reason)"
    and c: "curve_ok c" "in_use c = in_use (cw_curve w)" "chain 0 0 (in_use c)" "cw_in w = chain_end 0 (in_use c)"
    by (rule build_curve_Ok [OF build curve_new_ok(1) i l]) blast
  have "at_position a ?a ?w" using a(1) by (simp add: at_position_def word_gt_0)
  with loop_quotes [OF plain fee loop, of a ?a] c a(2) curve_clear_ok(1) [OF curve_new_ok(1)] curve_clear_ok(2)
  have "agree quoted (quote_in (in_use c) a) (account_loop st pair arrays ext d i l 16 ?a)" by auto
  then show ?thesis
    unfolding curve_quote_first [OF c(1,3) a(1)] quote_dlmm_from_accounts_def Let_def
    by (cases "quote_in (in_use c) a"; cases "account_loop st pair arrays ext d i l 16 ?a")
      (auto simp: i l MAX_QUOTE_VISITED_BINS_PER_DIRECTION_def quoted_def require_def)
qed

section \<open>A curve on the sample accounts\<close>

lemma run_modes:
  "fee_on_input run_parsed_pair True = Ok True" "supports_limit_orders run_parsed_pair = Ok True"
  "uniform_fee run_parsed_pair"
  by (simp_all add: run_parsed_pair_def fee_on_input_def supports_limit_orders_def uniform_fee_def
      charges_nothing_def)

lemma run_array_window:
  assumes "56 \<le> k" "k + 8 \<le> 9992"
  shows "take 8 (drop k run_array) = zeros 8"
proof -
  define j where "j = k - 56"
  then have "k = 56 + j" "j + 8 \<le> 9936" using assms by simp_all
  moreover obtain A B where array: "run_array = A @ zeros 9936 @ B" and "length A = 56"
    by (rule that [of "METEORA_BIN_ARRAY_DISCRIMINATOR @ zeros 16 @ key 8"])
      (simp_all add: run_array_def METEORA_BIN_ARRAY_DISCRIMINATOR_def)
  ultimately show ?thesis unfolding array by (auto simp: drop_append min_def)
qed

lemma run_array_plain:
  assumes "parse_bin_for_id run_array n (bin_array_index n) = Ok b"
  shows "plain_bin d i b"
proof -
  from assms obtain off where "bin_offset n (bin_array_index n) = Ok off" "parse_bin run_array 56 off = Ok b"
    by (auto simp: parse_bin_for_id_def result_iff BIN_ARRAY_HEADER_SIZE_def)
  moreover from this(1) have "off < 70"
    by (auto simp: bin_offset_def result_iff nat_less_iff split: if_splits)
  ultimately have off: "off < 70" "parse_bin run_array 56 off = Ok b" by simp_all
  have b: "b = bin_at run_array (56 + 144 * off)"
    using off by (simp add: parse_bin_eq split: if_splits)
  show ?thesis
  proof (cases "off = 69")
    case True
    have "parse_bin run_array 56 69 = parse_bin_for_id run_array 69 0"
      by (simp add: parse_bin_for_id_def bin_offset_def checked_i64_def BIN_ARRAY_HEADER_SIZE_def)
    with off(2) True run_bin have "b = \<lparr>price_q64 = 36893488147419103232, amount_x = 0, amount_y = 1000000,
      open_order_amount = 0, processed_order_remaining_amount = 0, limit_order_ask_side = False\<rparr>" by simp
    then show ?thesis by (cases d) (simp_all add: plain_bin_def bin_liquidity_def in_at_price_def ceil_nat_def)
  next
    case False
    then have "off \<le> 68" using off(1) by simp
    then have "bin_liquidity d b = 0"
      by (simp add: b bin_at_def bin_liquidity_def run_array_window word_from_le_def)
    then show ?thesis by (simp add: plain_bin_def)
  qed
qed

lemma run_arrays_plain: "plain_arrays run_store run_bin_arrays d i True"
  by (simp add: plain_arrays_def run_bin_arrays_def run_array_data run_array_plain)

lemma first_written: "xs \<noteq> [] \<Longrightarrow> take (Suc 0) (xs[0 := x]) = [x]"
  by (cases xs) simp_all

lemma max_u64: "(- 1 :: u64) = 18446744073709551615"
  by (rule word_unat_eq_iff [THEN iffD2]) (simp add: unat_minus_one_word)

lemma run_curve:
  assumes "limit \<le> 500000"
  shows "\<exists>c. build_curve curve_new run_store run_parsed_pair run_bin_arrays None True 1000 limit = Ok c \<and>
    in_use c = [\<lparr>input_start = 0, input_end = 500000, output_start = 0, output_end = 1000000,
      segment_price_q64 = 36893488147419103232, segment_fee_rate = 0, segment_swap_for_y = True,
      segment_fee_on_input = True, segment_used_indices = [0, 0], segment_used_len = 1\<rparr>]"
  using assms by (simp add: run_bin run_array_data run_array_index run_bin_arrays_def run_parsed_pair_def
      in_use_def first_written max_u64
      eval_defs del: parse_bin_for_id_def parse_bin_array_index_def cong: eval_cong)

lemma run_curve_back: "\<exists>c. build_curve curve_new run_store run_parsed_pair run_bin_arrays None False 1000 limit = Ok c \<and>
    in_use c = []"
  by (simp add: run_bin run_array_data run_array_index run_bin_arrays_def run_parsed_pair_def
      in_use_def first_written max_u64
      eval_defs del: parse_bin_for_id_def parse_bin_array_index_def cong: eval_cong)

section \<open>Properties\<close>



text \<open>C28. Quoting from the curve is exact: on arrays of plain bins (each empty, or filled by at most
  2 ^ 63 of input, and of two units at least where the fee is taken from the output) and, where the fee
  is taken from the input, a fee that every bin charges or none does, the binary search in the
  curve gives for every positive amount up to the largest complete input the output that walking the account bytes bin by bin gives, over the same arrays, and fails
  exactly when that fails.\<close>

theorem curve_quote_exact:
  assumes "build_curve curve_new st pair arrays ext d t limit = Ok c"
    and "fee_on_input pair d = Ok on_input" "supports_limit_orders pair = Ok limit_orders"
    and "plain_arrays st arrays d on_input limit_orders" "on_input \<Longrightarrow> uniform_fee pair"
    and "amount \<noteq> 0" "largest_complete_input c = (Ok largest :: (quote_error, u64) result)" "amount \<le> largest"
  shows "agree (\<lambda>q r. cq_amount_out q = adq_amount_out r \<and> adq_used_len r \<le> cq_used_len q \<and>
      take (adq_used_len r) (adq_used_indices r) = take (adq_used_len r) (cq_used_indices q))
    (curve_quote_at c amount) (quote_dlmm_from_accounts st amount pair arrays ext d t)"
proof -
  have "curve_ok c" using build_curve_Ok [OF assms(1) curve_new_ok(1) assms(2,3)] by blast
  with assms(7,8) have "amount \<le> chain_end 0 (in_use c)" by (simp add: largest_input)
  from curve_quotes_agree [OF assms(1-6) this] show ?thesis .
qed

theorem curve_quote_exact_witness:
  "\<exists>c. build_curve curve_new run_store run_parsed_pair run_bin_arrays None True 1000 998 = Ok c \<and>
    agree (\<lambda>q r. cq_amount_out q = adq_amount_out r \<and> adq_used_len r \<le> cq_used_len q \<and>
        take (adq_used_len r) (adq_used_indices r) = take (adq_used_len r) (cq_used_indices q))
      (curve_quote_at c 998)
      (quote_dlmm_from_accounts run_store 998 run_parsed_pair run_bin_arrays None True 1000)"
proof -
  obtain c where c: "build_curve curve_new run_store run_parsed_pair run_bin_arrays None True 1000 998 = Ok c"
    "input_end (last (in_use c)) = 500000" "in_use c \<noteq> []"
    using run_curve [of 998] by auto
  have "curve_ok c" using build_curve_Ok [OF c(1) curve_new_ok(1) run_modes(1,2)] by blast
  with c(2,3) have "largest_complete_input c = (Ok 500000 :: (quote_error, u64) result)"
    by (simp add: largest_input chain_end_last)
  from curve_quote_exact [OF c(1) run_modes(1,2) run_arrays_plain run_modes(3) _ this, of 998] c(1) show ?thesis
    by auto
qed

end
