(* ===== verification/Interior_Numbers.thy ===== *)
theory Interior_Numbers
  imports Prelude Complex_Main
begin

text \<open>
  The arithmetic behind the interior candidates of \<^verbatim>\<open>instructions/dynamic_amount.rs\<close>: the integer
  square root, numbers normalised to a 64-bit mantissa, their products, quotients, order and root,
  and the test that rules an interval of roots out.  The integer root is exact; the normalised
  operations are related to real numbers with their rounding errors, which gives that the
  test never rules out a root inside its interval.
\<close>

unbundle bit_operations_syntax

section \<open>Integer square root\<close>

fun bit_length :: "nat \<Rightarrow> nat" where
  "bit_length n = (if n = 0 then 0 else Suc (bit_length (n div 2)))"

declare bit_length.simps [simp del]

definition leading_zeros :: "u128 \<Rightarrow> nat" where
  "leading_zeros v = 128 - bit_length (unat v)"

function newton_sqrt :: "u128 \<Rightarrow> u128 \<Rightarrow> u128 maybe" where
  "newton_sqrt v estimate =
    and_then (div_or_panic v estimate) (\<lambda>quotient.
    and_then (add_or_panic estimate quotient) (\<lambda>sum.
    let next = sum div 2 in
    if estimate \<le> next then Ok estimate else newton_sqrt v next))"
  by pat_completeness auto

termination newton_sqrt
  by (relation "measure (\<lambda>(v, estimate). unat estimate)") (auto simp: not_le word_less_nat_alt)

declare newton_sqrt.simps [simp del]

definition integer_sqrt :: "u128 \<Rightarrow> u128 maybe" where
  "integer_sqrt v =
    (if v < 2 then Ok v
     else newton_sqrt v (push_bit (ceil_nat (128 - leading_zeros v) 2) 1))"

lemma bit_length_bounds: "n \<noteq> 0 \<Longrightarrow> 2 ^ (bit_length n - 1) \<le> n \<and> n < 2 ^ bit_length n \<and> bit_length n \<noteq> 0"
proof (induction n rule: bit_length.induct)
  case (1 n)
  show ?case
  proof (cases "n div 2 = 0")
    case True
    with 1 have "n = 1" by auto
    then show ?thesis by (simp add: bit_length.simps)
  next
    case False
    with 1 have IH: "2 ^ (bit_length (n div 2) - 1) \<le> n div 2" "n div 2 < 2 ^ bit_length (n div 2)"
      "bit_length (n div 2) \<noteq> 0" by auto
    obtain k where k: "bit_length (n div 2) = Suc k" using IH(3) by (cases "bit_length (n div 2)") auto
    have "bit_length n = Suc (Suc k)" using 1(2) k by (simp add: bit_length.simps [of n])
    moreover have "2 ^ Suc k \<le> n" "n < 2 ^ Suc (Suc k)" using IH(1,2) k by auto
    ultimately show ?thesis by simp
  qed
qed

lemma bit_length_le: "n < 2 ^ k \<Longrightarrow> bit_length n \<le> k"
proof (cases "n = 0")
  case False
  assume "n < 2 ^ k"
  with bit_length_bounds [OF False] have "(2::nat) ^ (bit_length n - 1) < 2 ^ k" by linarith
  then have "bit_length n - 1 < k" by (rule power_less_imp_less_exp [rotated]) simp
  then show ?thesis by simp
qed (simp add: bit_length.simps)

text \<open>One step of Newton's iteration stays above the root, and stops only at it.\<close>

lemma newton_above:
  fixes v e r :: nat
  assumes "r * r \<le> v" "0 < e"
  shows "r \<le> (e + v div e) div 2"
proof -
  have "2 * r \<le> e + v div e"
  proof (cases "2 * r \<le> e")
    case False
    define t where "t = 2 * r - e"
    have "t * e \<le> r * r"
    proof -
      have "int t * int e \<le> int r * int r"
        using False sum_power2_ge_zero [of "int r - int e" 0]
        by (simp add: t_def power2_eq_square algebra_simps of_nat_diff)
      then show ?thesis by (metis of_nat_mult of_nat_le_iff)
    qed
    with assms(1) have "t * e \<le> v" by simp
    then have "t \<le> v div e" using assms(2) by (simp add: less_eq_div_iff_mult_less_eq)
    then show ?thesis by (simp add: t_def)
  qed simp
  then show ?thesis by linarith
qed

lemma newton_stops:
  fixes v e :: nat
  assumes "e \<le> (e + v div e) div 2" "0 < e"
  shows "e * e \<le> v"
proof -
  have "e \<le> v div e" using assms(1) by linarith
  then show ?thesis using assms(2) by (simp add: less_eq_div_iff_mult_less_eq)
qed

lemma newton_sqrt_root:
  assumes "r * r \<le> unat v" "unat v < (r + 1) * (r + 1)" "0 < r" "r \<le> unat estimate"
    "unat estimate \<le> 2 ^ 64"
  shows "\<exists>root. newton_sqrt v estimate = Ok root \<and> unat root = r"
  using assms
proof (induction v estimate rule: newton_sqrt.induct)
  case (1 v estimate)
  let ?e = "unat estimate"
  have pos: "0 < ?e" using 1 by linarith
  obtain q where q: "(div_or_panic v estimate :: u128 maybe) = Ok q" "unat q = unat v div ?e"
    using div_or_panic_fits [of estimate v] pos by auto
  have "unat v div ?e \<le> unat v div r" using 1 by (intro div_le_mono2) auto
  also have "\<dots> < r + 3"
  proof -
    have "unat v < (r + 3) * r" using "1.prems"(2,3) by (simp add: algebra_simps)
    then show ?thesis by (simp add: less_mult_imp_div_less)
  qed
  finally have "?e + unat q < 2 ^ LENGTH(128)" using "1.prems"(4,5) q(2) by simp
  then obtain s where s: "(add_or_panic estimate q :: u128 maybe) = Ok s" "unat s = ?e + unat q"
    using checked_add_fits [of estimate q] by (auto simp: add_or_panic_def or_panic_def)
  have half: "unat (s div 2) = (?e + unat v div ?e) div 2"
    by (simp add: unat_div s(2) q(2))
  show ?case
  proof (cases "estimate \<le> s div 2")
    case True
    then have "?e \<le> (?e + unat v div ?e) div 2" by (simp add: word_le_nat_alt half)
    from newton_stops [OF this pos] have "?e * ?e \<le> unat v" .
    with "1.prems"(2) have "?e * ?e < (r + 1) * (r + 1)" by linarith
    then have "?e < r + 1" by (metis mult_le_mono not_le)
    with "1.prems"(4) have "?e = r" by simp
    with True show ?thesis by (simp add: newton_sqrt.simps [of v estimate] q s)
  next
    case False
    have "r \<le> unat (s div 2)" unfolding half using newton_above [OF "1.prems"(1) pos] .
    moreover have "unat (s div 2) \<le> 2 ^ 64"
      using False "1.prems"(5) by (simp add: word_le_nat_alt)
    ultimately have "\<exists>root. newton_sqrt v (s div 2) = Ok root \<and> unat root = r"
      using "1.IH" [OF q(1) s(1) refl False] "1.prems" by simp
    with False show ?thesis by (simp add: newton_sqrt.simps [of v estimate] q s)
  qed
qed

lemma nat_root_exists: "\<exists>r::nat. r * r \<le> v \<and> v < (r + 1) * (r + 1)"
proof (induction v)
  case 0
  then show ?case by (intro exI [of _ 0]) simp
next
  case (Suc v)
  then obtain r where r: "r * r \<le> v" "v < (r + 1) * (r + 1)" by blast
  show ?case
  proof (cases "Suc v < (r + 1) * (r + 1)")
    case True
    with r show ?thesis by (intro exI [of _ r]) simp
  next
    case False
    with r have "Suc v = (r + 1) * (r + 1)" by simp
    then show ?thesis by (intro exI [of _ "r + 1"]) simp
  qed
qed

lemma unat_two_power: "k < 128 \<Longrightarrow> unat (push_bit k 1 :: u128) = 2 ^ k"
proof -
  assume "k < 128"
  then have "(2::nat) ^ k < 2 ^ LENGTH(128)" by (intro power_strict_increasing) auto
  moreover have "(push_bit k 1 :: u128) = of_nat (2 ^ k)" by simp
  ultimately show ?thesis by (simp only: unat_of_nat_small)
qed

lemma integer_sqrt_root:
  "\<exists>root. integer_sqrt v = Ok root \<and> unat root * unat root \<le> unat v \<and>
    unat v < (unat root + 1) * (unat root + 1)"
proof (cases "v < 2")
  case True
  then have "unat v = 0 \<or> unat v = 1" by (auto simp: word_less_nat_alt)
  with True show ?thesis by (auto simp: integer_sqrt_def)
next
  case False
  obtain r where r: "r * r \<le> unat v" "unat v < (r + 1) * (r + 1)" using nat_root_exists by blast
  have v: "2 \<le> unat v" using False by (simp add: word_less_nat_alt)
  have "0 < r" using r(2) v by (cases r) auto
  let ?b = "bit_length (unat v)" and ?k = "ceil_nat (128 - leading_zeros v) 2"
  have b: "?b \<le> 128" using unat_lt_exp [of v] by (intro bit_length_le) simp
  then have k: "?k = (?b + 1) div 2" by (simp add: leading_zeros_def ceil_nat_def)
  then have "?k \<le> 64" using b by linarith
  then have est: "unat (push_bit ?k 1 :: u128) = 2 ^ ?k" by (intro unat_two_power) simp
  have "r * r < 2 ^ ?k * 2 ^ ?k"
  proof -
    have "r * r < 2 ^ ?b" using bit_length_bounds [of "unat v"] v r(1) by linarith
    also have "(2::nat) ^ ?b \<le> 2 ^ (?k + ?k)" unfolding k by (intro power_increasing) auto
    finally show ?thesis by (simp add: power_add)
  qed
  then have "r < 2 ^ ?k" by (metis mult_le_mono not_le)
  moreover have "(2::nat) ^ ?k \<le> 2 ^ 64" using \<open>?k \<le> 64\<close> by (intro power_increasing) auto
  ultimately obtain root where "newton_sqrt v (push_bit ?k 1) = Ok root" "unat root = r"
    using newton_sqrt_root [OF r \<open>0 < r\<close>, of "push_bit ?k 1"] est by auto
  with False r show ?thesis by (auto simp: integer_sqrt_def)
qed

section \<open>Normalised numbers\<close>

text \<open>\<open>mantissa / 2^63 * 2^exponent\<close>.  What the source does with \<open>?\<close> on an option is \<open>ok_or ()\<close> here;
  a panic of a shift or a division is \<open>Panic\<close>.\<close>

datatype normalized = Normalized (mantissa: u64) (exponent: i32)

datatype ordering = Less | Equal | Greater

definition from_u128 :: "u128 \<Rightarrow> normalized maybe" where
  "from_u128 value =
    (if value = 0 then Err ()
     else
       and_then (ok_or () (checked_i32 (128 - int (leading_zeros value)))) (\<lambda>bits.
       and_then (ok_or () (checked_i32 (bits - 1))) (\<lambda>e.
       let m = (if bits \<le> 64 then ucast (push_bit (nat (64 - bits)) value)
         else ucast (drop_bit (nat (bits - 64)) value)) in
       Ok (Normalized m e))))"

definition multiply :: "normalized \<Rightarrow> normalized \<Rightarrow> normalized maybe" where
  "multiply a b =
    and_then (ok_or () (checked_mul (ucast (mantissa a)) (ucast (mantissa b)))) (\<lambda>product :: u128.
    and_then (ok_or () (checked_i32 (exponent a + exponent b))) (\<lambda>e.
    let m = drop_bit 63 product in
    and_then
      (if 2 ^ 64 \<le> m then map_ok (Pair (drop_bit 1 m)) (ok_or () (checked_i32 (e + 1)))
       else Ok (m, e)) (\<lambda>(m, e).
    map_ok (\<lambda>m. Normalized m e) (ok_or () (try_narrow m)))))"

definition divide_by :: "normalized \<Rightarrow> normalized \<Rightarrow> normalized maybe" where
  "divide_by a b =
    and_then (div_or_panic (push_bit 63 (ucast (mantissa a))) (ucast (mantissa b))) (\<lambda>quotient :: u128.
    and_then (ok_or () (checked_i32 (exponent a - exponent b))) (\<lambda>e.
    and_then
      (if quotient < 2 ^ 63
       then map_ok (Pair (push_bit 1 quotient)) (ok_or () (checked_i32 (e - 1)))
       else Ok (quotient, e)) (\<lambda>(m, e).
    map_ok (\<lambda>m. Normalized m e) (ok_or () (try_narrow m)))))"

definition compare_to :: "normalized \<Rightarrow> normalized \<Rightarrow> ordering" where
  "compare_to a b =
    (if exponent a < exponent b then Less
     else if exponent b < exponent a then Greater
     else if mantissa a < mantissa b then Less
     else if mantissa b < mantissa a then Greater
     else Equal)"

text \<open>\<open>checked_shl\<close> fails only on the shift amount: bits may be shifted out.  The exponent is even when
  it is halved.\<close>

definition checked_shl :: "u128 \<Rightarrow> nat \<Rightarrow> u128 option" where
  "checked_shl v n = (if n < 128 then Some (push_bit n v) else None)"

definition shr_or_panic :: "u128 \<Rightarrow> nat \<Rightarrow> ('e, u128) result" where
  "shr_or_panic v n = (if n < 128 then Ok (drop_bit n v) else Panic)"

definition sqrt_floor :: "normalized \<Rightarrow> u128 maybe" where
  "sqrt_floor a =
    and_then
      (if exponent a mod 2 \<noteq> 0
       then and_then (ok_or () (checked_mul (ucast (mantissa a)) 2)) (\<lambda>m.
         map_ok (Pair m) (ok_or () (checked_i32 (exponent a - 1))))
       else Ok (ucast (mantissa a), exponent a)) (\<lambda>(m, e).
    and_then (integer_sqrt (push_bit 63 m)) (\<lambda>scaled_root.
    and_then (ok_or () (checked_i32 (e div 2 - 63))) (\<lambda>shift.
    if 0 \<le> shift then ok_or () (checked_shl scaled_root (nat shift))
    else shr_or_panic scaled_root (nat (- shift)))))"

fun multiply_all :: "normalized \<Rightarrow> u128 list \<Rightarrow> normalized maybe" where
  "multiply_all value [] = Ok value"
| "multiply_all value (numerator # rest) =
    and_then (from_u128 numerator) (\<lambda>n. and_then (multiply value n) (\<lambda>value. multiply_all value rest))"

fun divide_all :: "normalized \<Rightarrow> u128 list \<Rightarrow> normalized maybe" where
  "divide_all value [] = Ok value"
| "divide_all value (denominator # rest) =
    and_then (from_u128 denominator) (\<lambda>n. and_then (divide_by value n) (\<lambda>value. divide_all value rest))"

definition normalized_product_ratio :: "u128 list \<Rightarrow> u128 list \<Rightarrow> normalized maybe" where
  "normalized_product_ratio numerators denominators =
    and_then (from_u128 1) (\<lambda>value.
    and_then (multiply_all value numerators) (\<lambda>value. divide_all value denominators))"

definition normalized_square :: "u128 \<Rightarrow> normalized maybe" where
  "normalized_square value = and_then (from_u128 value) (\<lambda>n. multiply n n)"

definition INTERIOR_ROOT_PREFILTER_MARGIN :: u128 where "INTERIOR_ROOT_PREFILTER_MARGIN = 32"

definition sqrt_interval_definitely_excludes ::
    "normalized \<Rightarrow> u128 \<Rightarrow> u128 \<Rightarrow> bool maybe" where
  "sqrt_interval_definitely_excludes squared_value lower_root upper_root =
    (let conservative_lower = saturating_sub lower_root INTERIOR_ROOT_PREFILTER_MARGIN;
         conservative_upper = saturating_add upper_root INTERIOR_ROOT_PREFILTER_MARGIN in
     and_then (map_ok (\<lambda>lower_squared. case lower_squared of None \<Rightarrow> False
         | Some square \<Rightarrow> compare_to squared_value square \<noteq> Greater)
       (ok (normalized_square conservative_lower))) (\<lambda>below.
     map_ok (\<lambda>upper_squared. below \<or> (case upper_squared of None \<Rightarrow> False
         | Some square \<Rightarrow> compare_to squared_value square \<noteq> Less))
       (ok (normalized_square conservative_upper))))"

text \<open>The order of the source is a linear order.\<close>

instantiation normalized :: linorder
begin

definition less_eq_normalized :: "normalized \<Rightarrow> normalized \<Rightarrow> bool" where
  "a \<le> b \<longleftrightarrow> compare_to a b \<noteq> Greater"

definition less_normalized :: "normalized \<Rightarrow> normalized \<Rightarrow> bool" where
  "a < b \<longleftrightarrow> compare_to a b = Less"

instance
  by standard
    (auto simp: less_eq_normalized_def less_normalized_def compare_to_def normalized.expand
      split: if_splits)

end

lemma compare_to_iff:
  "compare_to a b \<noteq> Greater \<longleftrightarrow> a \<le> b" "compare_to a b \<noteq> Less \<longleftrightarrow> b \<le> a"
  by (auto simp: less_eq_normalized_def compare_to_def)

section \<open>The numbers they stand for\<close>

definition scaled :: "nat \<Rightarrow> int \<Rightarrow> real" where
  "scaled m e = real m * 2 powi (e - 63)"

definition val :: "normalized \<Rightarrow> real" where
  "val a = scaled (unat (mantissa a)) (exponent a)"

definition normal :: "normalized \<Rightarrow> bool" where
  "normal a \<longleftrightarrow> 2 ^ 63 \<le> unat (mantissa a)"

definition eps :: real where "eps = 1 / 2 ^ 63"

lemma scaled_pos: "0 < m \<Longrightarrow> 0 < scaled m e"
  by (simp add: scaled_def)

lemma scaled_shift: "scaled m (e + int k) = scaled (m * 2 ^ k) e"
proof -
  have "(2 :: real) powi ((e - 63) + int k) = 2 powi (e - 63) * 2 ^ k"
    by (subst power_int_add) auto
  moreover have "e + int k - 63 = (e - 63) + int k" by simp
  ultimately have "(2 :: real) powi (e + int k - 63) = 2 powi (e - 63) * 2 ^ k" by metis
  then show ?thesis by (simp add: scaled_def)
qed

lemma scaled_mono: "m \<le> n \<Longrightarrow> scaled m e \<le> scaled n e"
  by (simp add: scaled_def)

lemma scaled_increasing: "e \<le> e' \<Longrightarrow> scaled m e \<le> scaled m e'"
  unfolding scaled_def by (intro mult_left_mono power_int_increasing) auto

lemma normal_mono:
  assumes "normal a" "normal b" "a \<le> b"
  shows "val a \<le> val b"
proof -
  have "exponent a < exponent b \<or> exponent a = exponent b \<and> unat (mantissa a) \<le> unat (mantissa b)"
    using assms(3) by (auto simp: less_eq_normalized_def compare_to_def word_le_nat_alt
        word_less_nat_alt split: if_splits)
  then show ?thesis
  proof
    assume less: "exponent a < exponent b"
    have "val a \<le> scaled (2 ^ 64) (exponent a)"
      unfolding val_def using unat_u64_bound [of "mantissa a"] by (intro scaled_mono) simp
    also have "\<dots> = scaled (2 ^ 63) (exponent a + int 1)"
      unfolding scaled_shift by simp
    also have "\<dots> \<le> scaled (2 ^ 63) (exponent b)"
      using less by (intro scaled_increasing) simp
    also have "\<dots> \<le> val b"
      unfolding val_def using assms(2) by (intro scaled_mono) (simp add: normal_def)
    finally show ?thesis .
  next
    assume "exponent a = exponent b \<and> unat (mantissa a) \<le> unat (mantissa b)"
    then show ?thesis unfolding val_def by (metis scaled_mono)
  qed
qed

text \<open>A mantissa of 64 bits that is rounded down is off by a factor of less than \<open>1 + eps\<close>.\<close>

lemma rounded_down:
  assumes "2 ^ 63 \<le> m" "real m \<le> x" "x < real m + 1"
  shows "scaled m e \<le> x * 2 powi (e - 63)" "x * 2 powi (e - 63) < scaled m e * (1 + eps)"
proof -
  show "scaled m e \<le> x * 2 powi (e - 63)"
    using assms(2) by (simp add: scaled_def)
  have "(2 :: real) ^ 63 \<le> real m" using assms(1) by (metis of_nat_le_iff of_nat_numeral of_nat_power)
  then have "1 \<le> real m * eps" by (simp add: eps_def field_simps)
  then have "x < real m * (1 + eps)" using assms(3) by (simp add: algebra_simps)
  then show "x * 2 powi (e - 63) < scaled m e * (1 + eps)"
    by (simp add: scaled_def mult_ac)
qed

lemma real_div_bounds:
  assumes "0 < d"
  shows "real (n div d) \<le> real n / real d" "real n / real d < real (n div d) + 1"
proof -
  have "real n = real (n div d) * real d + real (n mod d)"
    by (metis div_mult_mod_eq of_nat_add of_nat_mult)
  moreover have "real (n mod d) < real d" using assms by simp
  ultimately show "real (n div d) \<le> real n / real d" "real n / real d < real (n div d) + 1"
    using assms by (simp_all add: field_simps)
qed

lemma rounded_product:
  assumes "2 ^ 63 \<le> n div 2 ^ k"
  shows "scaled (n div 2 ^ k) (e + int k) \<le> scaled n e"
    "scaled n e < scaled (n div 2 ^ k) (e + int k) * (1 + eps)"
proof -
  have "real n / real (2 ^ k) * 2 powi (e + int k - 63) = scaled n e"
    using scaled_shift [of n e k] by (simp add: scaled_def field_simps)
  with rounded_down [OF assms real_div_bounds, of "e + int k"]
  show "scaled (n div 2 ^ k) (e + int k) \<le> scaled n e"
    "scaled n e < scaled (n div 2 ^ k) (e + int k) * (1 + eps)"
    by simp_all
qed

lemma unat_ucast_u64: "unat w < 2 ^ 64 \<Longrightarrow> unat (ucast (w :: u128) :: u64) = unat w"
  by (simp add: unsigned_ucast_eq take_bit_nat_eq_self)

lemma unat_push_bit_small:
  "unat v * 2 ^ k < 2 ^ 128 \<Longrightarrow> unat (push_bit k (v :: u128)) = unat v * 2 ^ k"
  unfolding unsigned_push_bit_eq by (simp add: push_bit_eq_mult take_bit_nat_eq_self)

lemma unat_drop_bit: "unat (drop_bit k (v :: u128)) = unat v div 2 ^ k"
  unfolding unsigned_drop_bit_eq by (simp add: drop_bit_eq_div take_bit_nat_eq_self unat_u128_bound)

lemma real_scaled: "real n = scaled n 63"
  by (simp add: scaled_def)

lemma from_u128_bits:
  assumes "v \<noteq> 0"
  shows "from_u128 v = Ok (Normalized
      (if bit_length (unat v) \<le> 64 then ucast (push_bit (64 - bit_length (unat v)) v)
       else ucast (drop_bit (bit_length (unat v) - 64) v))
      (int (bit_length (unat v)) - 1))"
proof -
  have b: "bit_length (unat v) \<le> 128" using unat_lt_exp [of v] by (intro bit_length_le) simp
  then have "128 - int (leading_zeros v) = int (bit_length (unat v))" by (simp add: leading_zeros_def)
  moreover have "nat (64 - int (bit_length (unat v))) = 64 - bit_length (unat v)"
    "nat (int (bit_length (unat v)) - 64) = bit_length (unat v) - 64" by simp_all
  ultimately show ?thesis
    using assms b by (simp add: from_u128_def checked_i32_def)
qed

lemma from_u128_spec:
  assumes "v \<noteq> 0"
  shows "\<exists>n. from_u128 v = Ok n \<and> normal n \<and> 0 \<le> exponent n \<and> exponent n \<le> 127 \<and>
    val n \<le> real (unat v) \<and> real (unat v) < val n * (1 + eps)"
proof -
  let ?v = "unat v" and ?b = "bit_length (unat v)"
  have v: "?v \<noteq> 0" using assms by (simp add: unat_eq_zero)
  note bounds = bit_length_bounds [OF v]
  have b: "1 \<le> ?b" "?b \<le> 128" using bounds unat_lt_exp [of v] by (auto intro!: bit_length_le)
  have pos: "0 < eps" by (simp add: eps_def)
  show ?thesis
  proof (cases "?b \<le> 64")
    case True
    let ?m = "?v * 2 ^ (64 - ?b)"
    let ?n = "Normalized (ucast (push_bit (64 - ?b) v)) (int ?b - 1)"
    have "?m < 2 ^ ?b * 2 ^ (64 - ?b)" using bounds by simp
    also have "\<dots> = 2 ^ 64" using True by (simp flip: power_add)
    finally have small: "?m < 2 ^ 64" .
    then have mantissa: "unat (mantissa ?n) = ?m"
      by (simp add: unat_push_bit_small unat_ucast_u64)
    have "2 ^ 63 = 2 ^ (?b - 1) * (2 :: nat) ^ (64 - ?b)"
      using True b(1) by (simp flip: power_add)
    also have "\<dots> \<le> ?m" using bounds by simp
    finally have large: "2 ^ 63 \<le> ?m" .
    have "63 + int (?b - 1) - 63 = int ?b - 1" using b(1) by simp
    have "?m * 2 ^ (?b - 1) = ?v * (2 ^ (64 - ?b) * 2 ^ (?b - 1))" by simp
    also have "(2 :: nat) ^ (64 - ?b) * 2 ^ (?b - 1) = 2 ^ 63"
      using True b(1) by (simp flip: power_add)
    finally have split: "?m * 2 ^ (?b - 1) = ?v * 2 ^ 63" .
    have "val ?n = scaled ?m (0 + int (?b - 1))"
      using b(1) unfolding val_def mantissa by simp
    also have "\<dots> = scaled (?v * 2 ^ 63) 0" unfolding scaled_shift split ..
    also have "\<dots> = real ?v" using scaled_shift [of ?v 0 63] by (simp add: real_scaled)
    finally have exact: "val ?n = real ?v" .
    have "normal ?n" unfolding normal_def mantissa by (rule large)
    moreover have "from_u128 v = Ok ?n" using True by (simp add: from_u128_bits [OF assms])
    moreover have "0 < real ?v * eps" using v pos by (intro mult_pos_pos) (simp_all only: of_nat_0_less_iff)
    ultimately show ?thesis
      using b True exact by (intro exI [of _ ?n]) (simp add: distrib_left)
  next
    case False
    let ?k = "?b - 64" let ?m = "?v div 2 ^ (?b - 64)"
    let ?n = "Normalized (ucast (drop_bit ?k v)) (int ?b - 1)"
    have "?b - 1 = 63 + ?k" "?b = 64 + ?k" using False by simp_all
    then have "2 ^ 63 * 2 ^ ?k = (2 :: nat) ^ (?b - 1)" "2 ^ 64 * 2 ^ ?k = (2 :: nat) ^ ?b"
      by (metis power_add)+
    then have large: "2 ^ 63 \<le> ?m"
      using bounds by (simp add: less_eq_div_iff_mult_less_eq)
    have "?m < 2 ^ 64"
      using bounds \<open>2 ^ 64 * 2 ^ ?k = (2 :: nat) ^ ?b\<close> by (simp add: less_mult_imp_div_less)
    then have mantissa: "unat (mantissa ?n) = ?m" by (simp add: unat_ucast_u64 unat_drop_bit)
    have "63 + int ?k = int ?b - 1" using False by simp
    then have "val ?n = scaled ?m (63 + int ?k)" unfolding val_def mantissa by simp
    with rounded_product [OF large, of 63] have "val ?n \<le> real ?v" "real ?v < val ?n * (1 + eps)"
      unfolding real_scaled by simp_all
    moreover have "normal ?n" unfolding normal_def mantissa by (rule large)
    moreover have "from_u128 v = Ok ?n" using False by (simp add: from_u128_bits [OF assms])
    ultimately show ?thesis using b by (intro exI [of _ ?n]) simp
  qed
qed

definition in_range :: "normalized \<Rightarrow> int \<Rightarrow> int \<Rightarrow> bool" where
  "in_range a lo hi \<longleftrightarrow> normal a \<and> lo \<le> exponent a \<and> exponent a \<le> hi"

lemma eps_pos: "0 < eps"
  by (simp add: eps_def)

lemma scaled_times: "scaled m e * scaled n f = scaled (m * n) (e + f - 63)"
proof -
  have "(2 :: real) powi (e + f - 63 - 63) = 2 powi ((e - 63) + (f - 63))" by (simp add: algebra_simps)
  also have "\<dots> = 2 powi (e - 63) * 2 powi (f - 63)" by (rule power_int_add) simp
  finally show ?thesis by (simp add: scaled_def)
qed

lemma normal_product:
  assumes "normal a" "normal b"
  shows "2 ^ 126 \<le> unat (mantissa a) * unat (mantissa b)"
    "unat (mantissa a) * unat (mantissa b) < 2 ^ 128"
proof -
  have "(2 :: nat) ^ 63 * 2 ^ 63 \<le> unat (mantissa a) * unat (mantissa b)"
    using assms unfolding normal_def by (rule mult_le_mono)
  then show "2 ^ 126 \<le> unat (mantissa a) * unat (mantissa b)" by simp
  have "unat (mantissa a) * unat (mantissa b) < 2 ^ 64 * 2 ^ 64"
    using unat_u64_bound [of "mantissa a"] unat_u64_bound [of "mantissa b"] by (intro mult_strict_mono) auto
  then show "unat (mantissa a) * unat (mantissa b) < 2 ^ 128" by simp
qed

lemma multiply_spec:
  assumes "normal a" "normal b" "- (2 ^ 30) < exponent a" "exponent a < 2 ^ 29"
    "- (2 ^ 30) < exponent b" "exponent b < 2 ^ 29"
  shows "\<exists>c. multiply a b = Ok c \<and> normal c \<and> exponent a + exponent b \<le> exponent c \<and>
    exponent c \<le> exponent a + exponent b + 1 \<and>
    val c \<le> val a * val b \<and> val a * val b < val c * (1 + eps)"
proof -
  let ?p = "unat (mantissa a) * unat (mantissa b)" and ?e = "exponent a + exponent b"
  note p = normal_product [OF assms(1,2)]
  have product: "val a * val b = scaled ?p (?e - 63)"
    unfolding val_def scaled_times ..
  obtain w where w: "checked_mul (ucast (mantissa a)) (ucast (mantissa b) :: u128) = Some w" "unat w = ?p"
    using checked_mul_fits [of "ucast (mantissa a) :: u128" "ucast (mantissa b)"] p
    by (auto simp: unat_ucast_u128)
  have i32: "checked_i32 ?e = Some ?e" "checked_i32 (?e + 1) = Some (?e + 1)"
    using assms by (auto simp: checked_i32_def)
  have drop: "unat (drop_bit 63 w) = ?p div 2 ^ 63" by (simp add: unat_drop_bit w)
  show ?thesis
  proof (cases "2 ^ 64 \<le> drop_bit 63 w")
    case True
    then have large: "2 ^ 64 \<le> ?p div 2 ^ 63" by (simp add: word_le_nat_alt drop)
    have half: "unat (drop_bit 1 (drop_bit 63 w)) = ?p div 2 ^ 64"
      unfolding unat_drop_bit w(2) by (simp add: div_mult2_eq [symmetric])
    have lo: "2 ^ 63 \<le> ?p div 2 ^ 64"
      using large div_le_mono [OF large, of 2] by (simp add: div_mult2_eq [symmetric])
    have "?p div 2 ^ 64 < 2 ^ 64" using p by (simp add: less_mult_imp_div_less)
    then obtain m :: u64 where m: "try_narrow (drop_bit 1 (drop_bit 63 w)) = Some m" "unat m = ?p div 2 ^ 64"
      using try_narrow_fits [of "drop_bit 1 (drop_bit 63 w)", where 'b = 64] unfolding half by auto
    have "multiply a b = Ok (Normalized m (?e + 1))"
      using True by (simp add: multiply_def w i32 m Let_def del: drop_bit_drop_bit One_nat_def)
    moreover have "val (Normalized m (?e + 1)) = scaled (?p div 2 ^ 64) (?e - 63 + int 64)"
      unfolding val_def by (simp add: m algebra_simps)
    moreover note rounded_product [OF lo, of "?e - 63"] product
    moreover have "normal (Normalized m (?e + 1))" using lo by (simp add: normal_def m)
    ultimately show ?thesis by (intro exI [of _ "Normalized m (?e + 1)"]) simp
  next
    case False
    then have hi: "?p div 2 ^ 63 < 2 ^ 64" by (simp add: word_less_nat_alt not_le drop)
    have lo: "2 ^ 63 \<le> ?p div 2 ^ 63" using p by (simp add: less_eq_div_iff_mult_less_eq)
    obtain m :: u64 where m: "try_narrow (drop_bit 63 w) = Some m" "unat m = ?p div 2 ^ 63"
      using try_narrow_fits [of "drop_bit 63 w", where 'b = 64] hi unfolding drop by auto
    have "multiply a b = Ok (Normalized m ?e)"
      using False by (simp add: multiply_def w i32 m Let_def)
    moreover have "val (Normalized m ?e) = scaled (?p div 2 ^ 63) (?e - 63 + int 63)"
      unfolding val_def by (simp add: m algebra_simps)
    moreover note rounded_product [OF lo, of "?e - 63"] product
    moreover have "normal (Normalized m ?e)" using lo by (simp add: normal_def m)
    ultimately show ?thesis by (intro exI [of _ "Normalized m ?e"]) simp
  qed
qed


lemma divide_spec:
  assumes "normal a" "normal b" "- (2 ^ 29) < exponent a" "exponent a < 2 ^ 30"
    "- (2 ^ 29) < exponent b" "exponent b < 2 ^ 30"
  shows "\<exists>c. divide_by a b = Ok c \<and> normal c \<and> exponent a - exponent b - 1 \<le> exponent c \<and>
    exponent c \<le> exponent a - exponent b"
proof -
  let ?a = "unat (mantissa a)" and ?b = "unat (mantissa b)" and ?e = "exponent a - exponent b"
  let ?q = "?a * 2 ^ 63 div ?b"
  have a: "2 ^ 63 \<le> ?a" "?a < 2 ^ 64" and b: "2 ^ 63 \<le> ?b" "?b < 2 ^ 64"
    using assms(1,2) unat_u64_bound [of "mantissa a"] unat_u64_bound [of "mantissa b"]
    by (simp_all add: normal_def)
  have "unat (push_bit 63 (ucast (mantissa a)) :: u128) = ?a * 2 ^ 63"
    using a by (simp add: unat_push_bit_small unat_ucast_u128)
  then obtain w :: u128 where w: "div_or_panic (push_bit 63 (ucast (mantissa a))) (ucast (mantissa b))
      = (Ok w :: u128 maybe)" "unat w = ?q"
    using div_or_panic_fits [of "ucast (mantissa b) :: u128" "push_bit 63 (ucast (mantissa a))"] b
    by (auto simp: unat_ucast_u128)
  have "?b * 2 ^ 62 \<le> ?a * 2 ^ 63" using a b by simp
  then have lo: "2 ^ 62 \<le> ?q" using b by (simp add: less_eq_div_iff_mult_less_eq mult.commute)
  have "?a * 2 ^ 63 < 2 ^ 64 * ?b" using a b by simp
  then have hi: "?q < 2 ^ 64" by (simp add: less_mult_imp_div_less)
  have i32: "checked_i32 ?e = Some ?e" "checked_i32 (?e - 1) = Some (?e - 1)"
    using assms by (auto simp: checked_i32_def)
  show ?thesis
  proof (cases "w < 2 ^ 63")
    case True
    then have small: "?q < 2 ^ 63" by (simp add: word_less_nat_alt w)
    then have double: "unat (push_bit 1 w) = ?q * 2" using w(2) by (subst unat_push_bit_small) auto
    obtain m :: u64 where m: "try_narrow (push_bit 1 w) = Some m" "unat m = ?q * 2"
      using try_narrow_fits [of "push_bit 1 w", where 'b = 64] small unfolding double by auto
    have "divide_by a b = Ok (Normalized m (?e - 1))"
      unfolding divide_by_def w(1) using True by (simp add: i32 m(1) del: One_nat_def)
    moreover have "normal (Normalized m (?e - 1))" using lo by (simp add: normal_def m(2))
    ultimately show ?thesis by (intro exI [of _ "Normalized m (?e - 1)"]) simp
  next
    case False
    then have large: "2 ^ 63 \<le> ?q" by (simp add: word_less_nat_alt not_less w)
    obtain m :: u64 where m: "try_narrow w = Some m" "unat m = ?q"
      using try_narrow_fits [of w, where 'b = 64] hi unfolding w(2) by auto
    have "divide_by a b = Ok (Normalized m ?e)"
      unfolding divide_by_def w(1) using False by (simp add: i32 m(1))
    moreover have "normal (Normalized m ?e)" using large by (simp add: normal_def m(2))
    ultimately show ?thesis by (intro exI [of _ "Normalized m ?e"]) simp
  qed
qed

lemma scaled_square:
  assumes "even e"
  shows "scaled m e = real (m * 2 ^ 63) * (2 powi (e div 2 - 63))\<^sup>2"
proof -
  have "e - 63 = int 63 + ((e div 2 - 63) + (e div 2 - 63))" using assms by auto
  then have "(2 :: real) powi (e - 63) = 2 powi (int 63) * (2 powi ((e div 2 - 63) + (e div 2 - 63)))"
    by (metis power_int_add zero_neq_numeral)
  also have "2 powi ((e div 2 - 63) + (e div 2 - 63)) = (2 powi (e div 2 - 63) :: real)\<^sup>2"
    unfolding power2_eq_square by (rule power_int_add) simp
  finally show ?thesis by (simp add: scaled_def)
qed

lemma root_between:
  fixes s root :: real
  assumes "r * r \<le> n" "n < (r + 1) * (r + 1)" "0 < s"
    "0 \<le> root" "root \<le> real r * s" "real r * s + s \<le> bound"
  shows "root\<^sup>2 \<le> real n * s\<^sup>2" "real n * s\<^sup>2 < bound\<^sup>2"
proof -
  have "root\<^sup>2 \<le> (real r * s)\<^sup>2" using assms by (intro power_mono)
  also have "\<dots> = real (r * r) * s\<^sup>2" by (simp add: power2_eq_square)
  also have "\<dots> \<le> real n * s\<^sup>2" using assms(1) by (intro mult_right_mono) (simp_all only: of_nat_le_iff zero_le_power2)
  finally show "root\<^sup>2 \<le> real n * s\<^sup>2" .
  have "real n * s\<^sup>2 < real ((r + 1) * (r + 1)) * s\<^sup>2"
    using assms(2,3) by (intro mult_strict_right_mono) (simp_all only: of_nat_less_iff zero_less_power)
  also have "\<dots> = (real r * s + s)\<^sup>2" by (simp add: power2_eq_square algebra_simps)
  also have "\<dots> \<le> bound\<^sup>2" using assms(3,6) by (intro power_mono) auto
  finally show "real n * s\<^sup>2 < bound\<^sup>2" .
qed

lemma powi_shift: "0 \<le> i \<Longrightarrow> (2 :: real) powi i = 2 ^ nat i" "i < 0 \<Longrightarrow> (2 :: real) powi i = 1 / 2 ^ nat (- i)"
  by (simp_all add: power_int_def field_simps)

definition near_root :: "nat \<Rightarrow> real \<Rightarrow> bool" where
  "near_root r x \<longleftrightarrow> (real r)\<^sup>2 \<le> x \<and> x < (real r + 1 + real r * eps)\<^sup>2"

lemma near_root_up:
  assumes "r * r \<le> n" "n < (r + 1) * (r + 1)" "2 ^ 63 \<le> r"
  shows "near_root (r * 2 ^ k) (real n * (2 ^ k)\<^sup>2)"
proof -
  have "(2 :: real) ^ 63 \<le> real r" using assms(3) by (metis of_nat_le_iff of_nat_numeral of_nat_power)
  then have "1 \<le> real r * eps" by (simp add: eps_def)
  then have "2 ^ k \<le> real r * eps * 2 ^ k" by simp
  moreover have "real (r * 2 ^ k) = real r * 2 ^ k" "real (r * 2 ^ k) * eps = real r * eps * 2 ^ k" by simp_all
  ultimately have "real r * 2 ^ k + 2 ^ k \<le> real (r * 2 ^ k) + 1 + real (r * 2 ^ k) * eps" by linarith
  from root_between [OF assms(1,2) _ _ _ this, of "r * 2 ^ k"] show ?thesis by (simp add: near_root_def)
qed

lemma near_root_down:
  assumes "r * r \<le> n" "n < (r + 1) * (r + 1)"
  shows "near_root (r div 2 ^ k) (real n * (1 / 2 ^ k)\<^sup>2)"
proof -
  have "r + 1 \<le> (r div 2 ^ k + 1) * 2 ^ k"
    unfolding distrib_right using div_mult_mod_eq [of r "2 ^ k"] mod_less_divisor [of "2 ^ k" r, OF zero_less_power [OF pos2]]
    by linarith
  then have "real (r + 1) \<le> real ((r div 2 ^ k + 1) * 2 ^ k)" by (simp only: of_nat_le_iff)
  then have "real r * (1 / 2 ^ k) + 1 / 2 ^ k \<le> real (r div 2 ^ k) + 1" by (simp add: field_simps)
  moreover have "0 \<le> real (r div 2 ^ k) * eps" using eps_pos by (intro mult_nonneg_nonneg) auto
  ultimately have "real r * (1 / 2 ^ k) + 1 / 2 ^ k \<le> real (r div 2 ^ k) + 1 + real (r div 2 ^ k) * eps"
    by linarith
  from root_between [OF assms _ _ _ this, of "r div 2 ^ k"] real_div_bounds(1) [of "2 ^ k" r]
  show ?thesis by (simp add: near_root_def)
qed

definition even_form :: "normalized \<Rightarrow> nat \<times> int" where
  "even_form a = (if odd (exponent a) then (unat (mantissa a) * 2, exponent a - 1)
     else (unat (mantissa a), exponent a))"

lemma even_form_spec:
  assumes "even_form a = (m, e)" "in_range a (-128) 252"
  shows "even e" "-128 \<le> e" "e \<le> 252" "2 ^ 63 \<le> m" "m < 2 ^ 65"
    "val a = real (m * 2 ^ 63) * (2 powi (e div 2 - 63))\<^sup>2"
proof -
  show even: "even e" and "e \<le> 252" and "2 ^ 63 \<le> m" and "m < 2 ^ 65"
    using assms unat_u64_bound [of "mantissa a"]
    by (auto simp: even_form_def in_range_def normal_def split: if_splits)
  show "-128 \<le> e" using assms by (auto simp: even_form_def in_range_def split: if_splits) presburger
  have "val a = scaled m e"
    using assms(1) scaled_shift [of "unat (mantissa a)" "exponent a - 1" 1]
    by (auto simp: even_form_def val_def split: if_splits)
  then show "val a = real (m * 2 ^ 63) * (2 powi (e div 2 - 63))\<^sup>2"
    by (simp only: scaled_square [OF even])
qed

lemma sqrt_floor_even_form:
  assumes "even_form a = (m, e)" "in_range a (-128) 252"
  shows "\<exists>w. unat w = m * 2 ^ 63 \<and> sqrt_floor a = and_then (integer_sqrt w) (\<lambda>root.
    if 0 \<le> e div 2 - 63 then ok_or () (checked_shl root (nat (e div 2 - 63)))
    else shr_or_panic root (nat (- (e div 2 - 63))))"
proof -
  note spec = even_form_spec [OF assms]
  have "\<exists>w :: u128. unat w = m \<and> (if exponent a mod 2 \<noteq> 0
       then and_then (ok_or () (checked_mul (ucast (mantissa a)) 2)) (\<lambda>m.
         map_ok (Pair m) (ok_or () (checked_i32 (exponent a - 1))))
       else Ok (ucast (mantissa a), exponent a)) = (Ok (w, e) :: (u128 \<times> i32) maybe)"
  proof (cases "odd (exponent a)")
    case True
    moreover obtain w :: u128 where "checked_mul (ucast (mantissa a)) 2 = Some w" "unat w = unat (mantissa a) * 2"
      using checked_mul_fits [of "ucast (mantissa a) :: u128" 2] unat_u64_bound [of "mantissa a"]
      by (auto simp: unat_ucast_u128)
    ultimately show ?thesis
      using assms by (auto simp: even_form_def in_range_def checked_i32_def odd_iff_mod_2_eq_one)
  next
    case False
    then show ?thesis
      using assms by (auto simp: even_form_def unat_ucast_u128 even_iff_mod_2_eq_zero)
  qed
  then obtain w :: u128 where w: "unat w = m" and start: "(if exponent a mod 2 \<noteq> 0
       then and_then (ok_or () (checked_mul (ucast (mantissa a)) 2)) (\<lambda>m.
         map_ok (Pair m) (ok_or () (checked_i32 (exponent a - 1))))
       else Ok (ucast (mantissa a), exponent a)) = (Ok (w, e) :: (u128 \<times> i32) maybe)" by blast
  have "unat (push_bit 63 w) = m * 2 ^ 63"
    using spec(5) by (subst unat_push_bit_small) (simp_all add: w)
  moreover have "checked_i32 (e div 2 - 63) = Some (e div 2 - 63)"
    using spec(2,3) unfolding checked_i32_def by auto
  ultimately show ?thesis
    by (intro exI [of _ "push_bit 63 w"]) (simp only: sqrt_floor_def start and_then.simps prod.case ok_or.simps simp_thms)
qed

lemma sqrt_floor_spec:
  assumes "in_range a (-128) 252"
  shows "\<exists>root. sqrt_floor a = Ok root \<and> near_root (unat root) (val a)"
proof -
  obtain m e where form: "even_form a = (m, e)" by (cases "even_form a")
  note spec = even_form_spec [OF form assms]
  obtain w where w: "unat w = m * 2 ^ 63" and run: "sqrt_floor a = and_then (integer_sqrt w) (\<lambda>root.
    if 0 \<le> e div 2 - 63 then ok_or () (checked_shl root (nat (e div 2 - 63)))
    else shr_or_panic root (nat (- (e div 2 - 63))))"
    using sqrt_floor_even_form [OF form assms] by blast
  obtain r where r: "integer_sqrt w = Ok r" "unat r * unat r \<le> m * 2 ^ 63"
    "m * 2 ^ 63 < (unat r + 1) * (unat r + 1)"
    using integer_sqrt_root [of w] unfolding w by blast
  have lo: "2 ^ 63 \<le> unat r"
  proof (rule ccontr)
    assume "\<not> 2 ^ 63 \<le> unat r"
    then have "unat r + 1 \<le> 2 ^ 63" by simp
    from mult_le_mono [OF this this] have "(unat r + 1) * (unat r + 1) \<le> 2 ^ 63 * 2 ^ 63" .
    also have "\<dots> \<le> m * 2 ^ 63" using spec(4) by (rule mult_le_mono1)
    finally show False using r(3) by linarith
  qed
  have hi: "unat r < 2 ^ 64"
  proof (rule ccontr)
    assume "\<not> unat r < 2 ^ 64"
    then have "2 ^ 64 \<le> unat r" by simp
    from mult_le_mono [OF this this] have "2 ^ 64 * 2 ^ 64 \<le> m * 2 ^ 63" using r(2) by (rule le_trans)
    with spec(5) show False by simp
  qed
  show ?thesis
  proof (cases "0 \<le> e div 2 - 63")
    case True
    let ?k = "nat (e div 2 - 63)"
    have k: "?k \<le> 63" using spec(3) by auto
    have "unat r * 2 ^ ?k < 2 ^ 64 * 2 ^ ?k" using hi by simp
    also have "(2 :: nat) ^ 64 * 2 ^ ?k \<le> 2 ^ 64 * 2 ^ 63" using k by (intro mult_le_mono2 power_increasing) auto
    finally have up: "unat (push_bit ?k r) = unat r * 2 ^ ?k" by (subst unat_push_bit_small) auto
    have "near_root (unat (push_bit ?k r)) (val a)"
      unfolding up spec(6) powi_shift(1) [OF True] by (rule near_root_up [OF r(2,3) lo])
    moreover have "sqrt_floor a = Ok (push_bit ?k r)"
      unfolding run r(1) and_then.simps if_P [OF True] using k by (simp add: checked_shl_def)
    ultimately show ?thesis by blast
  next
    case False
    let ?k = "nat (- (e div 2 - 63))"
    have "?k < 128" using spec(2) by auto
    then have "sqrt_floor a = Ok (drop_bit ?k r)"
      unfolding run r(1) and_then.simps if_not_P [OF False] by (simp add: shr_or_panic_def)
    moreover have "near_root (unat (drop_bit ?k r)) (val a)"
      unfolding unat_drop_bit spec(6) powi_shift(2) [OF False [unfolded not_le]]
      by (rule near_root_down [OF r(2,3)])
    ultimately show ?thesis by blast
  qed
qed

lemma from_u128_exponent:
  assumes "from_u128 v = Ok n" "v \<noteq> 0"
  shows "exponent n = int (bit_length (unat v)) - 1"
  using assms by (auto simp: from_u128_bits)

lemma from_u128_zero: "from_u128 0 = Err ()"
  by (simp add: from_u128_def)

abbreviation bits :: "u128 \<Rightarrow> nat" where "bits v \<equiv> bit_length (unat v)"

lemma bits_le: "bits v \<le> 128"
  using unat_lt_exp [of v] by (intro bit_length_le) simp

lemma multiply_all_range:
  assumes "in_range x lo hi" "0 \<le> lo" "hi + 129 * int (length ns) < 2 ^ 28"
  shows "if 0 \<in> set ns then multiply_all x ns = Err ()
    else \<exists>y. multiply_all x ns = Ok y \<and> in_range y (lo + (\<Sum>n\<leftarrow>ns. int (bits n) - 1)) (hi + (\<Sum>n\<leftarrow>ns. int (bits n)))"
  using assms
proof (induction ns arbitrary: x lo hi)
  case (Cons n ns)
  show ?case
  proof (cases "n = 0")
    case True
    then show ?thesis by (simp add: from_u128_zero)
  next
    case False
    obtain b where b: "from_u128 n = Ok b" "normal b" "0 \<le> exponent b" "exponent b \<le> 127"
      using from_u128_spec [OF False] by blast
    note e = from_u128_exponent [OF b(1) False]
    obtain y where y: "multiply x b = Ok y" "normal y" "exponent x + exponent b \<le> exponent y"
      "exponent y \<le> exponent x + exponent b + 1"
      using multiply_spec [of x b] Cons.prems b by (auto simp: in_range_def)
    have "in_range y (lo + (int (bits n) - 1)) (hi + int (bits n))"
      using y Cons.prems e by (simp add: in_range_def)
    moreover have "0 \<le> lo + (int (bits n) - 1)" using Cons.prems(2) b(3) e by linarith
    moreover have "hi + int (bits n) + 129 * int (length ns) < 2 ^ 28"
      using Cons.prems(3) bits_le [of n] by simp
    ultimately show ?thesis
      using Cons.IH [of y "lo + (int (bits n) - 1)" "hi + int (bits n)"] False
      by (auto simp: b(1) y(1) algebra_simps)
  qed
qed simp

lemma divide_all_range:
  assumes "in_range x lo hi" "- (2 ^ 28) + 129 * int (length ds) < lo" "hi < 2 ^ 28"
  shows "if 0 \<in> set ds then divide_all x ds = Err ()
    else \<exists>y. divide_all x ds = Ok y \<and> in_range y (lo - (\<Sum>d\<leftarrow>ds. int (bits d))) hi"
  using assms
proof (induction ds arbitrary: x lo)
  case (Cons d ds)
  show ?case
  proof (cases "d = 0")
    case True
    then show ?thesis by (simp add: from_u128_zero)
  next
    case False
    obtain b where b: "from_u128 d = Ok b" "normal b" "0 \<le> exponent b" "exponent b \<le> 127"
      using from_u128_spec [OF False] by blast
    note e = from_u128_exponent [OF b(1) False]
    obtain y where y: "divide_by x b = Ok y" "normal y" "exponent x - exponent b - 1 \<le> exponent y"
      "exponent y \<le> exponent x - exponent b"
      using divide_spec [of x b] Cons.prems b by (auto simp: in_range_def)
    have "in_range y (lo - int (bits d)) hi"
      using y Cons.prems e b(3) by (simp add: in_range_def)
    moreover have "- (2 ^ 28) + 129 * int (length ds) < lo - int (bits d)"
      using Cons.prems(2) bits_le [of d] by simp
    ultimately show ?thesis
      using Cons.IH [of y "lo - int (bits d)"] False Cons.prems(3)
      by (auto simp: b(1) y(1) algebra_simps)
  qed
qed simp

lemma product_ratio_range:
  assumes "length ns \<le> 100" "length ds \<le> 100"
  shows "if 0 \<in> set ns \<union> set ds then normalized_product_ratio ns ds = Err ()
    else \<exists>y. normalized_product_ratio ns ds = Ok y \<and>
      in_range y ((\<Sum>n\<leftarrow>ns. int (bits n) - 1) - (\<Sum>d\<leftarrow>ds. int (bits d))) (\<Sum>n\<leftarrow>ns. int (bits n))"
proof -
  obtain one where one: "from_u128 1 = Ok one" "normal one"
    using from_u128_spec [of 1] by auto
  have "exponent one = 0" using from_u128_exponent [OF one(1)] by (simp add: bit_length.simps)
  then have start: "in_range one 0 0" using one(2) by (simp add: in_range_def)
  note num = multiply_all_range [OF start, of ns]
  have pos: "0 \<le> (\<Sum>n\<leftarrow>ns. int (bits n) - 1)" if "0 \<notin> set ns"
  proof (rule sum_list_nonneg)
    fix i assume "i \<in> set (map (\<lambda>n. int (bits n) - 1) ns)"
    then obtain n where "n \<in> set ns" "i = int (bits n) - 1" by auto
    with that bit_length_bounds [of "unat n"] show "0 \<le> i" by (auto simp: unat_eq_zero)
  qed
  have "(\<Sum>n\<leftarrow>ns. int (bits n)) \<le> (\<Sum>n\<leftarrow>ns. 128)" using bits_le by (intro sum_list_mono) simp
  then have hi: "(\<Sum>n\<leftarrow>ns. int (bits n)) < 2 ^ 28" using assms(1) by (simp add: sum_list_triv)
  show ?thesis
  proof (cases "0 \<in> set ns")
    case True
    then show ?thesis using num assms(1) by (auto simp: normalized_product_ratio_def one(1))
  next
    case False
    then obtain x where x: "multiply_all one ns = Ok x"
      "in_range x (\<Sum>n\<leftarrow>ns. int (bits n) - 1) (\<Sum>n\<leftarrow>ns. int (bits n))"
      using num assms(1) by auto
    from divide_all_range [OF x(2), of ds] pos [OF False] hi assms(2) False
    show ?thesis by (auto simp: normalized_product_ratio_def one(1) x(1))
  qed
qed

lemma normalized_square_spec:
  assumes "v \<noteq> 0"
  shows "\<exists>s. normalized_square v = Ok s \<and> normal s \<and> val s \<le> (real (unat v))\<^sup>2 \<and>
    (real (unat v))\<^sup>2 < val s * (1 + eps) ^ 3"
proof -
  obtain n where n: "from_u128 v = Ok n" "normal n" "0 \<le> exponent n" "exponent n \<le> 127"
    "val n \<le> real (unat v)" "real (unat v) < val n * (1 + eps)"
    using from_u128_spec [OF assms] by blast
  obtain s where s: "multiply n n = Ok s" "normal s" "val s \<le> val n * val n"
    "val n * val n < val s * (1 + eps)"
    using multiply_spec [OF n(2,2)] n(3,4) by auto
  have pos: "0 \<le> val n" unfolding val_def scaled_def by (intro mult_nonneg_nonneg of_nat_0_le_iff) simp
  have "val s \<le> (real (unat v))\<^sup>2"
    unfolding power2_eq_square by (rule order_trans [OF s(3) mult_mono [OF n(5,5) of_nat_0_le_iff pos]])
  moreover have "(real (unat v))\<^sup>2 < (val n * (1 + eps))\<^sup>2"
    by (rule power_strict_mono [OF n(6) of_nat_0_le_iff pos2])
  moreover have "(val n * (1 + eps))\<^sup>2 \<le> val s * (1 + eps) ^ 3"
    using mult_right_mono [OF less_imp_le [OF s(4)], of "(1 + eps)\<^sup>2"]
    by (simp add: power2_eq_square power3_eq_cube mult_ac)
  ultimately show ?thesis using n(1) s by (intro exI [of _ s]) (simp add: normalized_square_def)
qed

lemma normalized_square_zero: "normalized_square 0 = Err ()"
  by (simp add: normalized_square_def from_u128_zero)

lemma eps_cube: "(1 + eps) ^ 3 \<le> (1 + 2 * eps)\<^sup>2"
proof -
  have "(1 + eps) ^ 3 = 1 + 3 * eps + 3 * eps\<^sup>2 + eps ^ 3"
    by (simp add: power2_eq_square power3_eq_cube algebra_simps)
  moreover have "(1 + 2 * eps)\<^sup>2 = 1 + 4 * eps + 4 * eps\<^sup>2"
    by (simp add: power2_eq_square algebra_simps)
  moreover have "eps ^ 3 \<le> eps" using power_decreasing [of 1 3 eps] by (simp add: eps_def)
  ultimately show ?thesis using zero_le_power2 [of eps] eps_pos by linarith
qed

text \<open>An approximate root that is 33 below a bound of 66 bits has an approximate square below the
  approximate square of the bound.\<close>

lemma near_root_margin:
  assumes "near_root r x" "real r \<le> u - 33" "u < 2 ^ 66" "s \<le> x" "u\<^sup>2 < s * (1 + eps) ^ 3"
  shows False
proof -
  have "real r * eps \<le> 8" using assms(2,3) by (simp add: eps_def)
  then have "real r + 1 + real r * eps \<le> u - 24" using assms(2) by linarith
  moreover have "0 \<le> real r * eps" using eps_pos by simp
  ultimately have "0 \<le> u - 24" "(real r + 1 + real r * eps)\<^sup>2 \<le> (u - 24)\<^sup>2"
    by (linarith, intro power_mono) auto
  then have "s \<le> (u - 24)\<^sup>2" using assms(1,4) by (simp add: near_root_def)
  then have "s * (1 + eps) ^ 3 \<le> (u - 24)\<^sup>2 * (1 + 2 * eps)\<^sup>2"
    using eps_cube eps_pos by (intro mult_mono) auto
  with assms(5) have "u\<^sup>2 < ((u - 24) * (1 + 2 * eps))\<^sup>2" by (simp add: power_mult_distrib)
  moreover have "(u - 24) * (1 + 2 * eps) \<le> u"
  proof -
    have "u * eps \<le> 8" using assms(3) by (simp add: eps_def)
    then show ?thesis using eps_pos by (simp add: algebra_simps)
  qed
  moreover have "0 \<le> (u - 24) * (1 + 2 * eps)" using \<open>0 \<le> u - 24\<close> eps_pos by simp
  ultimately show False using power_mono [of "(u - 24) * (1 + 2 * eps)" u 2] by linarith
qed

lemma excludes_returns: "\<exists>b. sqrt_interval_definitely_excludes x lower upper = Ok b"
proof -
  have "\<exists>s. ok (normalized_square v) = (Ok s :: normalized option maybe)" for v
    using normalized_square_spec [of v] normalized_square_zero by (cases "v = 0") auto
  then show ?thesis unfolding sqrt_interval_definitely_excludes_def Let_def
    by (metis and_then.simps(1) map_ok.simps(1))
qed

lemma excludes_sound:
  assumes "sqrt_interval_definitely_excludes x lower upper = Ok True" "normal x"
    "near_root r (val x)" "unat upper < 2 ^ 66 - 32"
  shows "r \<le> unat lower \<or> unat upper \<le> r"
proof -
  let ?l = "saturating_sub lower INTERIOR_ROOT_PREFILTER_MARGIN"
  let ?u = "saturating_add upper INTERIOR_ROOT_PREFILTER_MARGIN"
  have u: "unat ?u = unat upper + 32" "unat ?l = unat lower - 32"
    using assms(4) by (simp_all add: unat_saturating_add unat_saturating_sub INTERIOR_ROOT_PREFILTER_MARGIN_def)
  from assms(1) consider
    s where "normalized_square ?l = Ok s" "x \<le> s" | s where "normalized_square ?u = Ok s" "s \<le> x"
    unfolding sqrt_interval_definitely_excludes_def Let_def
    by (auto simp: result_iff compare_to_iff split: option.splits)
  then show ?thesis
  proof cases
    case (1 s)
    then have "?l \<noteq> 0" using normalized_square_zero by (metis result.distinct(1))
    then have s: "normal s" "val s \<le> (real (unat ?l))\<^sup>2" using normalized_square_spec [of ?l] 1(1) by auto
    have "(real r)\<^sup>2 \<le> val s"
      using assms(3) normal_mono [OF assms(2) s(1) 1(2)] by (simp add: near_root_def)
    with s(2) have "(real r)\<^sup>2 \<le> (real (unat ?l))\<^sup>2" by linarith
    then have "real r \<le> real (unat ?l)" by (rule power2_le_imp_le) (rule of_nat_0_le_iff)
    then have "r \<le> unat ?l" by (simp only: of_nat_le_iff)
    then show ?thesis unfolding u by linarith
  next
    case (2 s)
    then have "?u \<noteq> 0" using normalized_square_zero by (metis result.distinct(1))
    then have s: "normal s" "(real (unat ?u))\<^sup>2 < val s * (1 + eps) ^ 3"
      using normalized_square_spec [of ?u] 2(1) by auto
    show ?thesis
    proof (rule ccontr)
      assume "\<not> ?thesis"
      then have "r + 33 \<le> unat ?u" "unat ?u < 2 ^ 66" using assms(4) unfolding u by auto
      then have "real (r + 33) \<le> real (unat ?u)" "real (unat ?u) < real (2 ^ 66)"
        by (simp_all only: of_nat_le_iff of_nat_less_iff)
      then show False
        using near_root_margin [OF assms(3) _ _ normal_mono [OF s(1) assms(2) 2(2)] s(2)] by simp
    qed
  qed
qed

section \<open>Property\<close>

text \<open>C24. The Newton iteration of \<open>integer_sqrt\<close> ends on every 128-bit value, without overflow or panic,
  with the integer part of the square root.\<close>

theorem integer_sqrt_exact:
  "\<exists>root. integer_sqrt v = Ok root \<and> unat root * unat root \<le> unat v \<and>
    unat v < (unat root + 1) * (unat root + 1)"
  by (rule integer_sqrt_root)

end
