(* ===== verification/Dynamic_Candidates.thy ===== *)
theory Dynamic_Candidates
  imports Dlmm_Curve Interior_Numbers
begin

text \<open>
  The amounts that \<^verbatim>\<open>instructions/dynamic_amount.rs\<close> tries in one direction: the ends of the
  range, the ends of the curve's segments, and the continuous optimum inside a segment with its
  neighbours; and the exact quote of each, of which the best is kept.

  Functions that return \<open>Option\<close> in the source have the error type \<open>unit\<close> here, \<open>None\<close> being
  \<open>Err ()\<close>.
\<close>

section \<open>The market and the candidates\<close>

definition PUMP_FEE_DENOMINATOR :: u128 where "PUMP_FEE_DENOMINATOR = 10000"
definition INTERIOR_NEIGHBORHOOD :: u64 where "INTERIOR_NEIGHBORHOOD = 1"
definition MAX_DYNAMIC_CANDIDATES :: usize where
  "MAX_DYNAMIC_CANDIDATES = 2 + MAX_QUOTE_VISITED_BINS_PER_DIRECTION * 4"

record market_state =
  pump_base_reserve :: u64
  pump_quote_reserve :: u64
  pump_virtual_quote_reserve :: u64
  market_pump_fees :: pump_fees
  market_pair :: lb_pair_state
  market_target_is_x :: bool

record direction_choice =
  choice_amount_in :: u64
  choice_amount_out :: u64
  choice_profit :: u64
  choice_used_indices :: "i64 list"
  choice_used_len :: usize

record direction_search =
  best :: "direction_choice option"
  complete_seen :: bool
  minimum_quote_complete :: bool
  minimum_amount_out :: u64
  largest_complete :: u64
  boundary_candidates :: u8
  interior_candidates :: u8
  search_visited_bins :: u8
  search_stop :: curve_stop_reason

record evaluation_context =
  ctx_min_amount :: u64
  ctx_min_profit :: u64
  ctx_largest_complete :: u64
  ctx_visited_bins :: u8
  ctx_boundary_candidates :: u8
  ctx_interior_candidates :: u8
  ctx_stop :: curve_stop_reason

text \<open>The fixed array of amounts.  Its length never exceeds the array, since only
  \<open>push_unique\<close> changes it, so the slices of the source cannot panic.\<close>

record candidate_amounts =
  candidate_values :: "u64 list"
  candidate_len :: usize

definition candidates_new :: candidate_amounts where
  "candidates_new = \<lparr>candidate_values = replicate MAX_DYNAMIC_CANDIDATES 0, candidate_len = 0\<rparr>"

definition candidate_slice :: "candidate_amounts \<Rightarrow> u64 list" where
  "candidate_slice c = take (candidate_len c) (candidate_values c)"

definition push_unique :: "u64 \<Rightarrow> candidate_amounts \<Rightarrow> candidate_amounts" where
  "push_unique amount c =
    (if amount = 0 \<or> amount \<in> set (candidate_slice c) then c
     else if candidate_len c < length (candidate_values c)
     then \<lparr>candidate_values = (candidate_values c)[candidate_len c := amount],
           candidate_len = candidate_len c + 1\<rparr>
     else c)"

definition push_neighborhood ::
    "u64 \<Rightarrow> u64 \<Rightarrow> u64 \<Rightarrow> candidate_amounts \<Rightarrow> candidate_amounts" where
  "push_neighborhood amount lo hi c =
    fold (\<lambda>candidate c. if lo \<le> candidate \<and> candidate \<le> hi then push_unique candidate c else c)
      [saturating_sub amount INTERIOR_NEIGHBORHOOD, amount,
       saturating_add amount INTERIOR_NEIGHBORHOOD] c"

section \<open>The Pump side\<close>

definition market_buy :: "market_state \<Rightarrow> u64 \<Rightarrow> (quote_error, quote_result) result" where
  "market_buy m amount_in =
    pump_buy_exact_quote_in amount_in (pump_base_reserve m) (pump_quote_reserve m)
      (pump_virtual_quote_reserve m) (lp_fee_bps (market_pump_fees m))
      (protocol_fee_bps (market_pump_fees m)) (creator_fee_bps (market_pump_fees m))"

definition market_sell :: "market_state \<Rightarrow> u64 \<Rightarrow> (quote_error, quote_result) result" where
  "market_sell m amount_in =
    pump_sell_base_in amount_in (pump_base_reserve m) (pump_quote_reserve m)
      (pump_virtual_quote_reserve m) (lp_fee_bps (market_pump_fees m))
      (protocol_fee_bps (market_pump_fees m)) (creator_fee_bps (market_pump_fees m))"

definition pump_buy_amount_out :: "market_state \<Rightarrow> u64 \<Rightarrow> u64 maybe" where
  "pump_buy_amount_out m amount_in =
    map_ok quote_amount_out (map_err (\<lambda>_. ()) (market_buy m amount_in))"

definition pump_total_fee_bps :: "market_state \<Rightarrow> u64 maybe" where
  "pump_total_fee_bps m =
    ok_or () (Option.bind (checked_add (ucast (lp_fee_bps (market_pump_fees m)))
        (ucast (protocol_fee_bps (market_pump_fees m))))
      (\<lambda>sum. checked_add sum (ucast (creator_fee_bps (market_pump_fees m)))))"

definition u128_div_ceil :: "u128 \<Rightarrow> u128 \<Rightarrow> u128 maybe" where
  "u128_div_ceil numerator denominator =
    (if denominator = 0 then Err ()
     else
       and_then (ok_or () (Option.bind (checked_sub denominator 1) (checked_add numerator))) (\<lambda>sum.
       ok_or () (if denominator = 0 then None else Some (sum div denominator))))"

definition market_effective_quote :: "market_state \<Rightarrow> u128 maybe" where
  "market_effective_quote m =
    ok_or () (checked_add (ucast (pump_quote_reserve m)) (ucast (pump_virtual_quote_reserve m)))"

definition pump_input_at_or_below_target_out :: "market_state \<Rightarrow> u64 \<Rightarrow> u64 maybe" where
  "pump_input_at_or_below_target_out m target_out =
    (if target_out = 0 \<or> pump_base_reserve m \<le> target_out then Err ()
     else
       and_then (market_effective_quote m) (\<lambda>effective_quote_reserve.
       and_then (ok_or () (checked_mul (ucast target_out) effective_quote_reserve)) (\<lambda>product.
       and_then (ok_or () (checked_sub (pump_base_reserve m) target_out)) (\<lambda>base_left.
       and_then (u128_div_ceil product (ucast base_left)) (\<lambda>boundary_curve_input.
       and_then (pump_total_fee_bps m) (\<lambda>total_fee_bps.
       and_then (ok_or () (checked_add PUMP_FEE_DENOMINATOR (ucast total_fee_bps))) (\<lambda>factor.
       and_then (ok_or () (checked_mul boundary_curve_input factor)) (\<lambda>scaled.
       and_then (div_or_panic scaled PUMP_FEE_DENOMINATOR) (\<lambda>gross.
       and_then (ok_or () (try_narrow gross)) (\<lambda>candidate.
       if candidate = 0 then Err ()
       else
         and_then (ok (pump_buy_amount_out m candidate)) (\<lambda>output.
         case output of
           Some out \<Rightarrow> if out < target_out then Ok candidate else Err ()
         | None \<Rightarrow> Err ())))))))))))"

section \<open>Interior candidates\<close>

text \<open>The two functions compute a squared root and an interval for the root, rule the interval out
  if they can, and otherwise turn the root into an amount.  The last step is named, so that the
  first can be compared with no test at all.\<close>

definition forward_amount ::
    "u128 \<Rightarrow> u64 \<Rightarrow> u64 \<Rightarrow> u64 \<Rightarrow> normalized \<Rightarrow> u64 maybe" where
  "forward_amount effective_quote_reserve total_fee_bps segment_start segment_end ratio =
    and_then (sqrt_floor ratio) (\<lambda>root.
    if root \<le> effective_quote_reserve then Err ()
    else
      and_then (ok_or () (checked_sub root effective_quote_reserve)) (\<lambda>above.
      and_then (ok_or () (checked_add PUMP_FEE_DENOMINATOR (ucast total_fee_bps))) (\<lambda>factor.
      and_then (ok_or () (checked_mul above factor)) (\<lambda>scaled.
      and_then (div_or_panic scaled PUMP_FEE_DENOMINATOR) (\<lambda>continuous_input.
      and_then (ok_or () (try_narrow continuous_input)) (\<lambda>candidate.
      if segment_start < candidate \<and> candidate < segment_end then Ok candidate else Err ()))))))"

definition forward_interior_candidate ::
    "market_state \<Rightarrow> dlmm_segment \<Rightarrow> u64 \<Rightarrow> u64 \<Rightarrow> u64 maybe" where
  "forward_interior_candidate m segment segment_start segment_end =
    and_then (pump_total_fee_bps m) (\<lambda>total_fee_bps.
    and_then (market_effective_quote m) (\<lambda>effective_quote_reserve.
    and_then (output_capacity segment) (\<lambda>output_cap.
    and_then (input_capacity segment) (\<lambda>input_cap.
    and_then (ok_or () (checked_add PUMP_FEE_DENOMINATOR (ucast total_fee_bps))) (\<lambda>fee_factor.
    and_then (normalized_product_ratio
      [ucast output_cap, ucast (pump_base_reserve m), PUMP_FEE_DENOMINATOR, effective_quote_reserve]
      [ucast input_cap, fee_factor]) (\<lambda>ratio.
    and_then (ok_or () (checked_mul (ucast segment_start) PUMP_FEE_DENOMINATOR)) (\<lambda>scaled_start.
    and_then (div_or_panic scaled_start fee_factor) (\<lambda>net_start.
    and_then (ok_or () (checked_add effective_quote_reserve net_start)) (\<lambda>lower_root.
    and_then (ok_or () (checked_mul (ucast segment_end) PUMP_FEE_DENOMINATOR)) (\<lambda>scaled_end.
    and_then (u128_div_ceil scaled_end fee_factor) (\<lambda>net_end.
    and_then (ok_or () (checked_add effective_quote_reserve net_end)) (\<lambda>upper_root.
    and_then (sqrt_interval_definitely_excludes ratio lower_root upper_root) (\<lambda>excluded.
    if excluded then Err ()
    else forward_amount effective_quote_reserve total_fee_bps segment_start segment_end ratio)))))))))))))"

definition reverse_amount :: "u64 \<Rightarrow> dlmm_segment \<Rightarrow> normalized \<Rightarrow> u64 maybe" where
  "reverse_amount base_reserve segment ratio =
    and_then (sqrt_floor ratio) (\<lambda>root.
    and_then (ok_or () (checked_sub root (ucast base_reserve))) (\<lambda>target_at_optimum.
    if target_at_optimum \<le> ucast (output_start segment) \<or> ucast (output_end segment) \<le> target_at_optimum
    then Err ()
    else
      and_then (ok_or () (checked_sub target_at_optimum (ucast (output_start segment)))) (\<lambda>target_delta.
      and_then (input_capacity segment) (\<lambda>input_cap.
      and_then (ok_or () (checked_mul target_delta (ucast input_cap))) (\<lambda>scaled.
      and_then (output_capacity segment) (\<lambda>output_cap.
      and_then (div_or_panic scaled (ucast output_cap)) (\<lambda>input_delta.
      and_then (ok_or () (checked_add (ucast (input_start segment)) input_delta)) (\<lambda>amount.
      ok_or () (try_narrow amount)))))))))"

definition reverse_interior_candidate :: "market_state \<Rightarrow> dlmm_segment \<Rightarrow> u64 maybe" where
  "reverse_interior_candidate m segment =
    and_then (pump_total_fee_bps m) (\<lambda>total_fee_bps.
    if PUMP_FEE_DENOMINATOR \<le> ucast total_fee_bps then Err ()
    else
      and_then (market_effective_quote m) (\<lambda>effective_quote_reserve.
      and_then (output_capacity segment) (\<lambda>output_cap.
      and_then (ok_or () (checked_sub PUMP_FEE_DENOMINATOR (ucast total_fee_bps))) (\<lambda>fee_left.
      and_then (input_capacity segment) (\<lambda>input_cap.
      and_then (normalized_product_ratio
        [ucast output_cap, effective_quote_reserve, ucast (pump_base_reserve m), fee_left]
        [ucast input_cap, PUMP_FEE_DENOMINATOR]) (\<lambda>ratio.
      and_then (ok_or () (checked_add (ucast (pump_base_reserve m)) (ucast (output_start segment))))
        (\<lambda>lower_root.
      and_then (ok_or () (checked_add (ucast (pump_base_reserve m)) (ucast (output_end segment))))
        (\<lambda>upper_root.
      and_then (sqrt_interval_definitely_excludes ratio lower_root upper_root) (\<lambda>excluded.
      if excluded then Err ()
      else reverse_amount (pump_base_reserve m) segment ratio)))))))))"

section \<open>Exact quotes\<close>

definition evaluate_forward ::
    "market_state \<Rightarrow> dlmm_curve \<Rightarrow> u64 \<Rightarrow> (quote_error, curve_quote) result" where
  "evaluate_forward m curve amount_in =
    and_then (market_buy m amount_in) (\<lambda>buy. curve_quote_at curve (quote_amount_out buy))"

definition evaluate_reverse ::
    "market_state \<Rightarrow> dlmm_curve \<Rightarrow> u64 \<Rightarrow> (quote_error, curve_quote) result" where
  "evaluate_reverse m curve amount_in =
    and_then (curve_quote_at curve amount_in) (\<lambda>dlmm.
    and_then (market_sell m (cq_amount_out dlmm)) (\<lambda>sell.
    Ok (dlmm \<lparr>cq_amount_out := quote_amount_out sell\<rparr>)))"

text \<open>\<open>is_some_and(|output| output <= capacity)\<close>.\<close>

definition buys_within :: "market_state \<Rightarrow> u64 \<Rightarrow> u64 \<Rightarrow> ('e, bool) result" where
  "buys_within m capacity amount =
    map_ok (\<lambda>output. case output of Some out \<Rightarrow> out \<le> capacity | None \<Rightarrow> False)
      (ok (pump_buy_amount_out m amount))"

function largest_within ::
    "market_state \<Rightarrow> u64 \<Rightarrow> u64 \<Rightarrow> u64 \<Rightarrow> ('e, u64) result" where
  "largest_within m capacity lower upper =
    (if lower < upper then
       and_then (sub_or_panic upper lower) (\<lambda>gap.
       and_then (add_or_panic lower (of_nat (ceil_nat (unat gap) 2))) (\<lambda>midpoint.
       and_then (buys_within m capacity midpoint) (\<lambda>fits.
       if fits then largest_within m capacity midpoint upper
       else and_then (sub_or_panic midpoint 1) (largest_within m capacity lower))))
     else Ok lower)"
  by pat_completeness auto

lemma half_gap: "unat (of_nat (ceil_nat (unat (gap :: u64)) 2) :: u64) = (unat gap + 1) div 2"
proof -
  have "ceil_nat (unat gap) 2 = (unat gap + 1) div 2" by (simp add: ceil_nat_def)
  moreover have "(unat gap + 1) div 2 < 2 ^ LENGTH(64)" using unat_u64_bound [of gap] by simp
  ultimately show ?thesis by (simp only: unat_of_nat_small)
qed

lemma midpoint_between:
  assumes "lower < upper" "sub_or_panic upper lower = Ok gap"
    "add_or_panic lower (of_nat (ceil_nat (unat gap) 2)) = Ok (midpoint :: u64)"
  shows "unat lower < unat midpoint" "unat midpoint \<le> unat upper"
proof -
  have "unat midpoint = unat lower + (unat gap + 1) div 2"
    using add_or_panic_Ok [OF assms(3)] by (simp only: half_gap)
  moreover have "unat lower < unat upper" using assms(1) by (simp add: word_less_nat_alt)
  moreover have "unat gap = unat upper - unat lower" using sub_or_panic_Ok [OF assms(2)] by simp
  ultimately show "unat lower < unat midpoint" "unat midpoint \<le> unat upper" by linarith+
qed

termination largest_within
proof (relation "measure (\<lambda>(_, _, lower, upper). unat upper - unat lower)", goal_cases)
  case (2 m capacity lower upper gap midpoint fits)
  then show ?case using midpoint_between [OF 2(1-3)] by simp
next
  case (3 m capacity lower upper gap midpoint fits below)
  then show ?case using midpoint_between [OF 3(1-3)] sub_or_panic_Ok [OF 3(6)] by simp
qed simp

declare largest_within.simps [simp del]

definition largest_forward_complete_amount ::
    "market_state \<Rightarrow> dlmm_curve \<Rightarrow> u64 \<Rightarrow> ('e, u64) result" where
  "largest_forward_complete_amount m curve max_amount =
    and_then (ok (evaluate_forward m curve max_amount)) (\<lambda>quoted.
    if quoted \<noteq> None then Ok max_amount
    else
      and_then (largest_complete_input curve) (\<lambda>capacity.
      if capacity = 0 \<or> max_amount = 0 then Ok 0
      else largest_within m capacity 0 max_amount))"

section \<open>The best candidate\<close>

definition better_choice :: "direction_choice \<Rightarrow> direction_choice \<Rightarrow> bool" where
  "better_choice candidate current \<longleftrightarrow>
    choice_profit current < choice_profit candidate \<or>
    choice_profit candidate = choice_profit current \<and>
      choice_amount_in candidate < choice_amount_in current"

text \<open>The mutable locals of \<open>evaluate_candidates\<close>, and the body of its loop for a candidate in range
  that could be quoted.\<close>

record evaluation =
  ev_best :: "direction_choice option"
  ev_complete_seen :: bool
  ev_minimum_complete :: bool
  ev_minimum_out :: u64

definition consider_quote ::
    "evaluation_context \<Rightarrow> u64 \<Rightarrow> curve_quote \<Rightarrow> evaluation \<Rightarrow> evaluation" where
  "consider_quote ctx amount_in quote ev =
    (let ev = ev \<lparr>ev_complete_seen := True\<rparr>;
         ev = (if amount_in = ctx_min_amount ctx
           then ev \<lparr>ev_minimum_complete := True, ev_minimum_out := cq_amount_out quote\<rparr> else ev) in
     case checked_sub (cq_amount_out quote) amount_in of
       None \<Rightarrow> ev
     | Some profit \<Rightarrow>
         if profit < ctx_min_profit ctx then ev
         else
           let candidate = \<lparr>choice_amount_in = amount_in, choice_amount_out = cq_amount_out quote,
                 choice_profit = profit, choice_used_indices = cq_used_indices quote,
                 choice_used_len = cq_used_len quote\<rparr> in
           if (case ev_best ev of None \<Rightarrow> True | Some current \<Rightarrow> better_choice candidate current)
           then ev \<lparr>ev_best := Some candidate\<rparr> else ev)"

fun evaluate_loop ::
    "evaluation_context \<Rightarrow> (u64 \<Rightarrow> (quote_error, curve_quote) result) \<Rightarrow> u64 list \<Rightarrow> evaluation
      \<Rightarrow> ('e, evaluation) result" where
  "evaluate_loop ctx evaluate [] ev = Ok ev"
| "evaluate_loop ctx evaluate (amount_in # rest) ev =
    (if ctx_min_amount ctx \<le> amount_in \<and> amount_in \<le> ctx_largest_complete ctx
     then and_then (ok (evaluate amount_in)) (\<lambda>quoted.
       evaluate_loop ctx evaluate rest
         (case quoted of None \<Rightarrow> ev | Some quote \<Rightarrow> consider_quote ctx amount_in quote ev))
     else evaluate_loop ctx evaluate rest ev)"

definition evaluate_candidates ::
    "u64 list \<Rightarrow> evaluation_context \<Rightarrow> (u64 \<Rightarrow> (quote_error, curve_quote) result)
      \<Rightarrow> ('e, direction_search) result" where
  "evaluate_candidates candidates ctx evaluate =
    map_ok (\<lambda>ev. \<lparr>best = ev_best ev, complete_seen = ev_complete_seen ev,
        minimum_quote_complete = ev_minimum_complete ev, minimum_amount_out = ev_minimum_out ev,
        largest_complete = ctx_largest_complete ctx,
        boundary_candidates = ctx_boundary_candidates ctx,
        interior_candidates = ctx_interior_candidates ctx,
        search_visited_bins = ctx_visited_bins ctx, search_stop = ctx_stop ctx\<rparr>)
      (evaluate_loop ctx evaluate candidates
        \<lparr>ev_best = None, ev_complete_seen = False, ev_minimum_complete = False, ev_minimum_out = 0\<rparr>)"

definition incomplete_direction :: "dlmm_curve \<Rightarrow> u64 \<Rightarrow> direction_search" where
  "incomplete_direction curve largest =
    \<lparr>best = None, complete_seen = False, minimum_quote_complete = False, minimum_amount_out = 0,
     largest_complete = largest, boundary_candidates = 0, interior_candidates = 0,
     search_visited_bins = curve_visited_bins curve, search_stop = curve_stop curve\<rparr>"

section \<open>Searching one direction\<close>

text \<open>The mutable locals of the two search functions; the reverse search has no previous end.\<close>

record search_state =
  ss_candidates :: candidate_amounts
  ss_boundary :: u8
  ss_interior :: u8
  ss_previous_end :: "u64 option"

definition start_search :: "u64 \<Rightarrow> u64 \<Rightarrow> search_state" where
  "start_search min_amount largest =
    \<lparr>ss_candidates = push_unique largest (push_unique min_amount candidates_new),
     ss_boundary = 0, ss_interior = 0, ss_previous_end = None\<rparr>"

definition add_boundary :: "u64 \<Rightarrow> u64 \<Rightarrow> u64 \<Rightarrow> search_state \<Rightarrow> search_state" where
  "add_boundary min_amount largest amount s =
    (if min_amount \<le> amount \<and> amount \<le> largest
     then s \<lparr>ss_candidates := push_unique amount (ss_candidates s),
        ss_boundary := saturating_add (ss_boundary s) 1\<rparr>
     else s)"

definition add_interior :: "u64 \<Rightarrow> u64 \<Rightarrow> u64 option \<Rightarrow> search_state \<Rightarrow> search_state" where
  "add_interior min_amount largest interior s =
    (case interior of
      None \<Rightarrow> s
    | Some amount \<Rightarrow>
        if min_amount \<le> amount \<and> amount \<le> largest
        then s \<lparr>ss_candidates := push_neighborhood amount min_amount largest (ss_candidates s),
           ss_interior := saturating_add (ss_interior s) 1\<rparr>
        else s)"

definition forward_segment ::
    "market_state \<Rightarrow> u64 \<Rightarrow> u64 \<Rightarrow> dlmm_segment \<Rightarrow> search_state \<Rightarrow> ('e, search_state) result" where
  "forward_segment m min_amount largest segment s =
    and_then
      (if input_start segment = 0 then Ok (Some 1)
       else case ss_previous_end s of
         Some value \<Rightarrow> Ok (Some value)
       | None \<Rightarrow> ok (pump_input_at_or_below_target_out m (input_start segment))) (\<lambda>start.
    case start of
      None \<Rightarrow> Ok s
    | Some segment_start \<Rightarrow>
        and_then (ok (pump_input_at_or_below_target_out m (input_end segment))) (\<lambda>end_input.
        case end_input of
          None \<Rightarrow> Ok s
        | Some segment_end \<Rightarrow>
            let s = s \<lparr>ss_previous_end := Some segment_end\<rparr> in
            if segment_end < min_amount \<or> largest < segment_start then Ok s
            else
              let s = add_boundary min_amount largest segment_end s in
              map_ok (\<lambda>interior. add_interior min_amount largest interior s)
                (ok (forward_interior_candidate m segment segment_start segment_end))))"

definition reverse_segment ::
    "market_state \<Rightarrow> u64 \<Rightarrow> u64 \<Rightarrow> dlmm_segment \<Rightarrow> search_state \<Rightarrow> ('e, search_state) result" where
  "reverse_segment m min_amount largest segment s =
    (if input_end segment < min_amount \<or> largest < input_start segment then Ok s
     else
       let s = add_boundary min_amount largest (input_end segment) s in
       map_ok (\<lambda>interior. add_interior min_amount largest interior s)
         (ok (reverse_interior_candidate m segment)))"

fun over_segments ::
    "(dlmm_segment \<Rightarrow> search_state \<Rightarrow> ('e, search_state) result) \<Rightarrow> dlmm_segment list \<Rightarrow> search_state
      \<Rightarrow> ('e, search_state) result" where
  "over_segments f [] s = Ok s"
| "over_segments f (segment # rest) s = and_then (f segment s) (over_segments f rest)"

definition evaluate_search ::
    "dlmm_curve \<Rightarrow> u64 \<Rightarrow> u64 \<Rightarrow> u64 \<Rightarrow> (u64 \<Rightarrow> (quote_error, curve_quote) result) \<Rightarrow> search_state
      \<Rightarrow> ('e, direction_search) result" where
  "evaluate_search curve min_amount min_profit largest evaluate s =
    evaluate_candidates (candidate_slice (ss_candidates s))
      \<lparr>ctx_min_amount = min_amount, ctx_min_profit = min_profit, ctx_largest_complete = largest,
       ctx_visited_bins = curve_visited_bins curve, ctx_boundary_candidates = ss_boundary s,
       ctx_interior_candidates = ss_interior s, ctx_stop = curve_stop curve\<rparr> evaluate"

definition search_forward ::
    "market_state \<Rightarrow> dlmm_curve \<Rightarrow> u64 \<Rightarrow> u64 \<Rightarrow> u64 \<Rightarrow> ('e, direction_search) result" where
  "search_forward m curve min_amount max_amount min_profit =
    and_then (largest_forward_complete_amount m curve max_amount) (\<lambda>largest.
    if largest < min_amount then Ok (incomplete_direction curve largest)
    else
      and_then (as_slice curve) (\<lambda>segments.
      and_then (over_segments (forward_segment m min_amount largest) segments
        (start_search min_amount largest))
        (evaluate_search curve min_amount min_profit largest (evaluate_forward m curve))))"

definition search_reverse ::
    "market_state \<Rightarrow> dlmm_curve \<Rightarrow> u64 \<Rightarrow> u64 \<Rightarrow> u64 \<Rightarrow> ('e, direction_search) result" where
  "search_reverse m curve min_amount max_amount min_profit =
    and_then (largest_complete_input curve) (\<lambda>complete.
    let largest = min max_amount complete in
    if largest < min_amount then Ok (incomplete_direction curve largest)
    else
      and_then (as_slice curve) (\<lambda>segments.
      and_then (over_segments (reverse_segment m min_amount largest) segments
        (start_search min_amount largest))
        (evaluate_search curve min_amount min_profit largest (evaluate_reverse m curve))))"

end
