(* ===== verification/Pump_Quote.thy ===== *)
theory Pump_Quote
  imports Quote_Math
begin

text \<open>
  The Pump constant-product quotes of \<^verbatim>\<open>quote/math.rs\<close> against a closed form over natural numbers:
  the checked 128-bit arithmetic never overflows and never panics, so the only failures are the
  documented ones.  From the closed form: the buyer is never charged more than the amount
  quoted, the constant product never shrinks, no side can drain a reserve, and the buy output
  is monotone in the input only up to the rounding of the fees.
\<close>

section \<open>The closed form\<close>

definition fee_sum :: "nat \<Rightarrow> nat \<Rightarrow> nat \<Rightarrow> nat \<Rightarrow> nat" where
  "fee_sum amount lp protocol creator =
    ceil_nat (amount * lp) 10000 + ceil_nat (amount * protocol) 10000
      + ceil_nat (amount * creator) 10000"

text \<open>The quote amount that is left after the fees, before the fees are rounded up.\<close>

definition net_quote :: "nat \<Rightarrow> nat \<Rightarrow> nat \<Rightarrow> nat \<Rightarrow> nat" where
  "net_quote q lp protocol creator = q * 10000 div (10000 + (lp + protocol + creator))"

text \<open>By how much the rounded fees overshoot the amount that may be spent.\<close>

definition fee_excess :: "nat \<Rightarrow> nat \<Rightarrow> nat \<Rightarrow> nat \<Rightarrow> nat" where
  "fee_excess q lp protocol creator =
    (let e = net_quote q lp protocol creator in e + fee_sum e lp protocol creator - q)"

definition effective_quote_in :: "nat \<Rightarrow> nat \<Rightarrow> nat \<Rightarrow> nat \<Rightarrow> nat" where
  "effective_quote_in q lp protocol creator =
    net_quote q lp protocol creator - fee_excess q lp protocol creator"

definition product_out :: "nat \<Rightarrow> nat \<Rightarrow> nat \<Rightarrow> nat" where
  "product_out reserve_out reserve_in amount = reserve_out * amount div (reserve_in + amount)"

lemma net_quote_le: "net_quote q lp protocol creator \<le> q"
proof -
  let ?d = "10000 + (lp + protocol + creator)"
  have "q * 10000 div ?d \<le> q * ?d div ?d"
    by (intro div_le_mono mult_le_mono2) simp
  then show ?thesis by (simp add: net_quote_def)
qed

lemma effective_quote_le: "effective_quote_in q lp protocol creator \<le> q"
  using net_quote_le [of q lp protocol creator] by (simp add: effective_quote_in_def)

lemma product_out_le: "product_out base q c \<le> base"
proof -
  have "base * c div (q + c) \<le> base * (q + c) div (q + c)"
    by (intro div_le_mono mult_le_mono2) simp
  also have "\<dots> \<le> base" by simp
  finally show ?thesis by (simp add: product_out_def)
qed

lemma product_out_less: "0 < q \<Longrightarrow> 0 < base \<Longrightarrow> product_out base q c < base"
  by (simp add: product_out_def div_less_iff_less_mult algebra_simps)

lemma product_out_mono: "c \<le> c' \<Longrightarrow> product_out base q c \<le> product_out base q c'"
proof (cases "q + c = 0")
  case False
  assume "c \<le> c'"
  let ?k = "product_out base q c"
  have "?k * (q + c) \<le> base * c" by (simp add: product_out_def)
  moreover have "?k * (c' - c) \<le> base * (c' - c)"
    by (intro mult_le_mono1 product_out_le)
  ultimately have "?k * (q + c) + ?k * (c' - c) \<le> base * c + base * (c' - c)"
    by (rule add_mono)
  then have "?k * (q + c') \<le> base * c'"
    using \<open>c \<le> c'\<close> by (simp flip: distrib_left)
  then show ?thesis
    using False \<open>c \<le> c'\<close> less_eq_div_iff_mult_less_eq [of "q + c'" ?k "base * c'"]
    by (auto simp: product_out_def)
qed (simp add: product_out_def)

section \<open>The fee closure\<close>

lemma fee_for_fits:
  assumes "unat a < 2 ^ 100"
  shows "\<exists>v. fee_for a bps = Ok v \<and> unat v = ceil_nat (unat a * unat bps) 10000"
proof -
  have "unat a * unat (ucast bps :: u128) \<le> 2 ^ 100 * 2 ^ 16"
    using assms unat_lt_exp [of bps] by (intro mult_mono) (auto simp del: unat_lt_exp)
  then obtain n where n: "checked_mul a (ucast bps) = Some n" "unat n = unat a * unat bps"
      "unat n \<le> 2 ^ 116"
    using checked_mul_fits [of a "ucast bps"] by auto
  obtain v where "ceil_div n 10000 = Ok v" "unat v = ceil_nat (unat n) 10000"
    using ceil_div_fits [of 10000 n] n(3) by auto
  with n show ?thesis by (simp add: fee_for_def)
qed

lemma ceil_fee_le: "bps < 65536 \<Longrightarrow> ceil_nat (a * bps) 10000 \<le> a * 7"
  by (simp add: ceil_nat_le_iff)

lemma ceil_fee_bound:
  assumes "unat (a :: u128) < 2 ^ 100"
  shows "ceil_nat (unat a * unat (bps :: u16)) 10000 < 2 ^ 103"
proof -
  have "ceil_nat (unat a * unat bps) 10000 \<le> unat a * 7"
    using unat_u16_bound by (rule ceil_fee_le)
  also have "\<dots> < 2 ^ 103" using assms by simp
  finally show ?thesis .
qed

lemma add_fee_for_fits:
  assumes "unat a < 2 ^ 100" "unat s < 2 ^ 120"
  shows "\<exists>t. add_fee_for a bps (Some s) = Ok (Some t) \<and>
    unat t = unat s + ceil_nat (unat a * unat bps) 10000"
proof -
  obtain v where v: "fee_for a bps = Ok v" "unat v = ceil_nat (unat a * unat bps) 10000"
    using fee_for_fits [OF assms(1)] by blast
  have "unat s + unat v < 2 ^ LENGTH(128)"
    using ceil_fee_bound [OF assms(1), of bps] assms(2) v(2) by simp
  from checked_add_fits [OF this] v show ?thesis
    by (auto simp: add_fee_for_def)
qed

section \<open>The buy quote\<close>

lemma total_fee_bps_fits:
  "\<exists>f :: u128. Option.bind (checked_add (ucast (lp :: u16)) (ucast (protocol :: u16)))
      (\<lambda>value. checked_add value (ucast (creator :: u16))) = Some f \<and>
    unat f = unat lp + unat protocol + unat creator"
proof -
  note bounds = unat_u16_bound [of lp] unat_u16_bound [of protocol] unat_u16_bound [of creator]
  obtain a :: u128 where
    a: "checked_add (ucast lp) (ucast protocol) = Some a" "unat a = unat lp + unat protocol"
    using checked_add_fits [of "ucast lp :: u128" "ucast protocol"] bounds by auto
  obtain f :: u128 where
    "checked_add a (ucast creator) = Some f" "unat f = unat lp + unat protocol + unat creator"
    using checked_add_fits [of a "ucast creator"] bounds a(2) by auto
  with a show ?thesis by auto
qed

lemma net_quote_fits:
  fixes q :: u64 and f :: u128
  assumes "unat f = unat (lp :: u16) + unat (protocol :: u16) + unat (creator :: u16)"
  shows "\<exists>scaled divisor e. checked_mul (ucast q) 10000 = Some scaled \<and>
    add_or_panic 10000 f = (Ok divisor :: (quote_error, u128) result) \<and>
    div_or_panic scaled divisor = (Ok e :: (quote_error, u128) result) \<and>
    unat e = net_quote (unat q) (unat lp) (unat protocol) (unat creator)"
proof -
  note bounds = unat_u16_bound [of lp] unat_u16_bound [of protocol] unat_u16_bound [of creator]
    unat_u64_bound [of q]
  obtain s :: u128 where s: "checked_mul (ucast q) 10000 = Some s" "unat s = unat q * 10000"
    using checked_mul_fits [of "ucast q :: u128" 10000] bounds by auto
  obtain d :: u128 where d: "checked_add 10000 f = Some d" "unat d = 10000 + unat f"
    using checked_add_fits [of 10000 f] bounds assms by auto
  obtain e where e: "div_or_panic s d = (Ok e :: (quote_error, u128) result)"
      "unat e = unat s div unat d"
    using div_or_panic_fits [of d s] d(2) by auto
  from s d e assms show ?thesis
    by (simp add: add_or_panic_def or_panic_def net_quote_def)
qed

lemma with_fees_fits:
  assumes "unat a < 2 ^ 100" "unat s < 2 ^ 110"
  shows "\<exists>v u t. fee_for a lp = Ok v \<and>
    add_fee_for a protocol (checked_add s v) = Ok u \<and>
    add_fee_for a creator u = Ok (Some t) \<and>
    unat t = unat s + fee_sum (unat a) (unat lp) (unat protocol) (unat creator)"
proof -
  note small = ceil_fee_bound [OF assms(1), of lp] ceil_fee_bound [OF assms(1), of protocol]
  obtain v where v: "fee_for a lp = Ok v" "unat v = ceil_nat (unat a * unat lp) 10000"
    using fee_for_fits [OF assms(1)] by blast
  obtain x where x: "checked_add s v = Some x" "unat x = unat s + unat v"
    using checked_add_fits [of s v] small(1) v(2) assms(2) by auto
  obtain y where y: "add_fee_for a protocol (Some x) = Ok (Some y)"
      "unat y = unat x + ceil_nat (unat a * unat protocol) 10000"
    using add_fee_for_fits [OF assms(1), of x] small(1) v(2) x(2) assms(2) by auto
  obtain t where "add_fee_for a creator (Some y) = Ok (Some t)"
      "unat t = unat y + ceil_nat (unat a * unat creator) 10000"
    using add_fee_for_fits [OF assms(1), of y] small v(2) x(2) y(2) assms(2) by auto
  with v x y show ?thesis by (auto simp: fee_sum_def)
qed

lemma curve_out_fits:
  fixes base quote virt :: u64 and c :: u128
  assumes "unat c < 2 ^ 64" "quote \<noteq> 0" "base \<noteq> 0"
  shows "\<exists>reserve product total out w. checked_add (ucast quote) (ucast virt) = Some reserve \<and>
    checked_mul (ucast base) c = Some product \<and> checked_add reserve c = Some total \<and>
    div_or_panic product total = (Ok out :: (quote_error, u128) result) \<and> to_u64 out = Ok w \<and>
    w = of_nat (product_out (unat base) (unat quote + unat virt) (unat c))"
proof -
  note bounds = unat_u64_bound [of base] unat_u64_bound [of quote] unat_u64_bound [of virt]
  have q0: "0 < unat quote" using assms(2) by (simp add: unat_gt_0)
  obtain r :: u128 where r: "checked_add (ucast quote) (ucast virt) = Some r"
      "unat r = unat quote + unat virt"
    using checked_add_fits [of "ucast quote :: u128" "ucast virt"] bounds by auto
  have "unat base * unat c \<le> 2 ^ 64 * (2 ^ 64 - 1)"
    using bounds(1) assms(1) by (intro mult_mono) auto
  then obtain p :: u128 where p: "checked_mul (ucast base) c = Some p"
      "unat p = unat base * unat c"
    using checked_mul_fits [of "ucast base :: u128" c] by auto
  obtain t where t: "checked_add r c = Some t" "unat t = unat r + unat c"
    using checked_add_fits [of r c] r(2) bounds assms(1) by auto
  obtain d where d: "div_or_panic p t = (Ok d :: (quote_error, u128) result)"
      "unat d = unat p div unat t"
    using div_or_panic_fits [of t p] t(2) r(2) q0 by auto
  have d': "unat d = product_out (unat base) (unat quote + unat virt) (unat c)"
    by (simp add: d p t r product_out_def)
  then have "unat d < 2 ^ 64"
    using product_out_le [of "unat base" "unat quote + unat virt" "unat c"] bounds(1) by simp
  then obtain w where w: "to_u64 d = Ok w" "unat w = unat d"
    using to_u64_fits by blast
  then have "w = of_nat (product_out (unat base) (unat quote + unat virt) (unat c))"
    using d' by (metis word_of_nat_unat)
  with r p t d w show ?thesis by blast
qed

text \<open>What follows the fees: take the overshoot off again, then the constant-product curve.\<close>

definition clamp_quote :: "u64 \<Rightarrow> u128 \<Rightarrow> u128 \<Rightarrow> (quote_error, u128) result" where
  "clamp_quote q w t =
    (if ucast q < t
     then and_then (sub_or_panic t (ucast q)) (\<lambda>excess. ok_or MathOverflow (checked_sub w excess))
     else Ok w)"

definition curve_tail :: "u64 \<Rightarrow> u64 \<Rightarrow> u64 \<Rightarrow> u64 \<Rightarrow> u128 \<Rightarrow> (quote_error, quote_result) result" where
  "curve_tail q base quote virt w =
    and_then (ok_or InvalidInput (checked_sub w 1)) (\<lambda>c.
    and_then (ok_or MathOverflow (checked_add (ucast quote) (ucast virt))) (\<lambda>r.
    and_then (ok_or MathOverflow (checked_mul (ucast base) c)) (\<lambda>p.
    and_then (ok_or MathOverflow (checked_add r c)) (\<lambda>t.
    and_then (div_or_panic p t) (\<lambda>out.
    and_then (to_u64 out) (\<lambda>out.
    and_then (sub_or_panic (ucast q) w) (\<lambda>fee.
    and_then (to_u64 fee) (\<lambda>fee.
      Ok \<lparr>quote_amount_in = q, quote_amount_out = out, quote_fee = fee\<rparr>))))))))"

lemma clamp_quote_Err: "unat w < unat t - unat q \<Longrightarrow> clamp_quote q w t = Err MathOverflow"
proof -
  assume less: "unat w < unat t - unat q"
  then have "unat (ucast q :: u128) \<le> unat t" by simp
  from checked_sub_fits [OF this] obtain x where
    x: "checked_sub t (ucast q) = Some x" "unat x = unat t - unat q" by auto
  then have "checked_sub w x = None" using less by (simp add: arith_iff)
  with x less show ?thesis
    by (simp add: clamp_quote_def word_less_nat_alt sub_or_panic_def or_panic_def)
qed

lemma clamp_quote_Ok:
  assumes "\<not> unat w < unat t - unat q"
  shows "\<exists>y. clamp_quote q w t = Ok y \<and> unat y = unat w - (unat t - unat q)"
proof (cases "unat q < unat t")
  case True
  then obtain x where x: "checked_sub t (ucast q) = Some x" "unat x = unat t - unat q"
    using checked_sub_fits [of "ucast q" t] by auto
  obtain y where "checked_sub w x = Some y" "unat y = unat w - unat x"
    using checked_sub_fits [of x w] assms x(2) by auto
  with True x show ?thesis
    by (simp add: clamp_quote_def word_less_nat_alt sub_or_panic_def or_panic_def)
qed (simp add: clamp_quote_def word_less_nat_alt)

lemma curve_tail_Ok:
  assumes "quote \<noteq> 0" "base \<noteq> 0" "unat w \<le> unat q" "unat w \<noteq> 0"
  shows "curve_tail q base quote virt w =
    Ok \<lparr>quote_amount_in = q,
       quote_amount_out = of_nat (product_out (unat base) (unat quote + unat virt) (unat w - 1)),
       quote_fee = of_nat (unat q - unat w)\<rparr>"
proof -
  obtain c where c: "checked_sub w 1 = Some c" "unat c = unat w - 1"
    using checked_sub_fits [of 1 w] assms(4) by auto
  obtain fee where fee: "checked_sub (ucast q) w = Some fee" "unat fee = unat q - unat w"
    using checked_sub_fits [of w "ucast q"] assms(3) by auto
  then have "unat fee < 2 ^ 64" using unat_u64_bound [of q] by simp
  then obtain g where g: "to_u64 fee = Ok g" "g = of_nat (unat q - unat w)"
    using to_u64_fits [of fee] fee(2) by (metis word_of_nat_unat)
  have "unat c < 2 ^ 64" using c(2) assms(3) unat_u64_bound [of q] by simp
  from curve_out_fits [OF this assms(1,2), of virt] c fee g(1) show ?thesis
    by (auto simp: curve_tail_def sub_or_panic_def or_panic_def g(2) simp del: of_nat_diff)
qed

lemma curve_tail_Err: "unat w = 0 \<Longrightarrow> curve_tail q base quote virt w = Err InvalidInput"
  by (simp add: curve_tail_def checked_sub_def word_le_nat_alt)

lemma pump_buy_closed:
  "pump_buy_exact_quote_in q base quote virt lp protocol creator =
    (let e = net_quote (unat q) (unat lp) (unat protocol) (unat creator);
         x = fee_excess (unat q) (unat lp) (unat protocol) (unat creator) in
     if q = 0 \<or> base = 0 \<or> quote = 0 then Err InvalidInput
     else if e < x then Err MathOverflow
     else if e = x then Err InvalidInput
     else Ok \<lparr>quote_amount_in = q,
       quote_amount_out = of_nat (product_out (unat base) (unat quote + unat virt) (e - x - 1)),
       quote_fee = of_nat (unat q - (e - x))\<rparr>)"
proof (cases "q = 0 \<or> base = 0 \<or> quote = 0")
  case True
  then show ?thesis by (simp add: pump_buy_exact_quote_in_def)
next
  case False
  define e where "e = net_quote (unat q) (unat lp) (unat protocol) (unat creator)"
  define x where "x = fee_excess (unat q) (unat lp) (unat protocol) (unat creator)"
  obtain f :: u128 where f: "Option.bind (checked_add (ucast lp) (ucast protocol))
      (\<lambda>value. checked_add value (ucast creator)) = Some f"
      "unat f = unat lp + unat protocol + unat creator"
    using total_fee_bps_fits by blast
  obtain s d w where w: "checked_mul (ucast q) 10000 = Some s"
      "add_or_panic 10000 f = (Ok d :: (quote_error, u128) result)"
      "div_or_panic s d = (Ok w :: (quote_error, u128) result)" "unat w = e"
    using net_quote_fits [OF f(2), of q] by (auto simp: e_def)
  have e_le: "e \<le> unat q" by (simp add: e_def net_quote_le)
  then have e_small: "e < 2 ^ 64" using unat_u64_bound [of q] by simp
  obtain v u t where t: "fee_for w lp = Ok v" "add_fee_for w protocol (checked_add w v) = Ok u"
      "add_fee_for w creator u = Ok (Some t)"
      "unat t = e + fee_sum e (unat lp) (unat protocol) (unat creator)"
    using with_fees_fits [of w w lp protocol creator] w(4) e_small by auto
  have x: "unat t - unat q = x"
    by (simp add: x_def fee_excess_def Let_def t(4) flip: e_def)
  have run: "pump_buy_exact_quote_in q base quote virt lp protocol creator =
    and_then (clamp_quote q w t) (curve_tail q base quote virt)"
    using False unfolding clamp_quote_def curve_tail_def
    by (simp add: pump_buy_exact_quote_in_def f w t)
  show ?thesis
  proof (cases "e < x")
    case True
    with False show ?thesis
      by (simp add: run clamp_quote_Err w(4) x Let_def flip: e_def x_def)
  next
    case enough: False
    then obtain y where y: "clamp_quote q w t = Ok y" "unat y = e - x"
      using clamp_quote_Ok [of w t q] w(4) x by auto
    show ?thesis
    proof (cases "e = x")
      case True
      with False y show ?thesis
        by (simp add: run curve_tail_Err Let_def flip: e_def x_def)
    next
      case neq: False
      have "curve_tail q base quote virt y = Ok \<lparr>quote_amount_in = q,
        quote_amount_out = of_nat (product_out (unat base) (unat quote + unat virt) (e - x - 1)),
        quote_fee = of_nat (unat q - (e - x))\<rparr>"
        using False enough neq e_le y(2) curve_tail_Ok [of quote base y q virt]
        by (simp del: of_nat_diff)
      with False enough neq y show ?thesis
        by (simp add: run Let_def del: of_nat_diff flip: e_def x_def)
    qed
  qed
qed

section \<open>What a buy quote guarantees\<close>

lemma fee_sum_mono: "a \<le> b \<Longrightarrow> fee_sum a lp protocol creator \<le> fee_sum b lp protocol creator"
  unfolding fee_sum_def by (intro add_mono ceil_nat_mono mult_le_mono1)

lemma fee_sum_less: "fee_sum a lp protocol creator * 10000 < a * (lp + protocol + creator) + 30000"
  using ceil_nat_upper [of 10000 "a * lp"] ceil_nat_upper [of 10000 "a * protocol"]
    ceil_nat_upper [of 10000 "a * creator"]
  by (simp add: fee_sum_def algebra_simps)

lemma net_quote_mult_le:
  "net_quote q lp protocol creator * (10000 + (lp + protocol + creator)) \<le> q * 10000"
  by (simp add: net_quote_def)

text \<open>Three fees are rounded up, so the overshoot is at most two.\<close>

lemma fee_excess_le_2: "fee_excess q lp protocol creator \<le> 2"
proof -
  let ?e = "net_quote q lp protocol creator"
  have "(?e + fee_sum ?e lp protocol creator) * 10000 < q * 10000 + 30000"
    using fee_sum_less [of ?e lp protocol creator] net_quote_mult_le [of q lp protocol creator]
    by (simp add: algebra_simps)
  then show ?thesis by (simp add: fee_excess_def Let_def)
qed

lemma net_quote_mono:
  "q \<le> q' \<Longrightarrow> net_quote q lp protocol creator \<le> net_quote q' lp protocol creator"
  by (simp add: net_quote_def div_le_mono)

lemma effective_quote_spends:
  "fee_excess q lp protocol creator \<le> net_quote q lp protocol creator \<Longrightarrow>
    effective_quote_in q lp protocol creator
      + fee_sum (effective_quote_in q lp protocol creator) lp protocol creator \<le> q"
  using fee_sum_mono [of "effective_quote_in q lp protocol creator"
      "net_quote q lp protocol creator" lp protocol creator]
    net_quote_le [of q lp protocol creator]
  by (auto simp: effective_quote_in_def fee_excess_def Let_def)

lemma pump_buy_OkD:
  assumes "pump_buy_exact_quote_in q base quote virt lp protocol creator = Ok r"
  defines "n \<equiv> effective_quote_in (unat q) (unat lp) (unat protocol) (unat creator)"
  shows "quote_amount_in r = q" "base \<noteq> 0" "quote \<noteq> 0" "0 < n" "n \<le> unat q"
    "unat (quote_amount_out r) = product_out (unat base) (unat quote + unat virt) (n - 1)"
    "unat (quote_fee r) = unat q - n"
    "fee_excess (unat q) (unat lp) (unat protocol) (unat creator)
      < net_quote (unat q) (unat lp) (unat protocol) (unat creator)"
proof -
  have "product_out (unat base) (unat quote + unat virt) (n - 1) < 2 ^ LENGTH(64)"
    by (rule le_less_trans [OF product_out_le unat_lt_exp])
  note out = unat_of_nat_small [OF this]
  have "unat q - n < 2 ^ LENGTH(64)"
    by (rule le_less_trans [OF diff_le_self unat_lt_exp])
  note fee = unat_of_nat_small [OF this]
  show "quote_amount_in r = q" "base \<noteq> 0" "quote \<noteq> 0" "0 < n" "n \<le> unat q"
    "unat (quote_amount_out r) = product_out (unat base) (unat quote + unat virt) (n - 1)"
    "unat (quote_fee r) = unat q - n"
    "fee_excess (unat q) (unat lp) (unat protocol) (unat creator)
      < net_quote (unat q) (unat lp) (unat protocol) (unat creator)"
    using assms(1) out fee effective_quote_le
    by (auto simp: pump_buy_closed Let_def n_def effective_quote_in_def simp del: of_nat_diff
        split: if_splits)
qed

lemma product_out_preserves:
  "base * quote \<le> (base - product_out base quote c) * (quote + c)"
proof -
  let ?o = "product_out base quote c"
  have "?o * (quote + c) \<le> base * c" by (simp add: product_out_def)
  then have "base * (quote + c) - base * c \<le> base * (quote + c) - ?o * (quote + c)"
    by (rule diff_le_mono2)
  then show ?thesis by (simp add: algebra_simps diff_mult_distrib)
qed

lemma effective_quote_near: "net_quote q lp protocol creator \<le> effective_quote_in q lp protocol creator + 2"
  using fee_excess_le_2 [of q lp protocol creator] by (simp add: effective_quote_in_def)

lemma effective_quote_near_mono:
  assumes "q \<le> q'"
  shows "effective_quote_in q lp protocol creator \<le> effective_quote_in q' lp protocol creator + 2"
proof -
  have "effective_quote_in q lp protocol creator \<le> net_quote q lp protocol creator"
    by (simp add: effective_quote_in_def)
  also have "\<dots> \<le> net_quote q' lp protocol creator"
    using assms by (rule net_quote_mono)
  also have "\<dots> \<le> effective_quote_in q' lp protocol creator + 2"
    by (rule effective_quote_near)
  finally show ?thesis .
qed

section \<open>The sell quote\<close>

lemma raw_quote_le: "unat (quote :: u64) + unat (virt :: u64) < 2 ^ 65"
  using unat_u64_bound [of quote] unat_u64_bound [of virt] by simp

lemma sell_curve_fits:
  fixes base quote virt b :: u64
  assumes "base \<noteq> 0" "(unat quote + unat virt) * unat b < 2 ^ 128"
  shows "\<exists>r p t w. checked_add (ucast quote) (ucast virt) = Some r \<and>
    checked_mul r (ucast b) = Some p \<and> checked_add (ucast base) (ucast b) = Some t \<and>
    div_or_panic p t = (Ok w :: (quote_error, u128) result) \<and>
    unat w = product_out (unat quote + unat virt) (unat base) (unat b)"
proof -
  note bounds = unat_u64_bound [of base] unat_u64_bound [of quote] unat_u64_bound [of virt]
    unat_u64_bound [of b]
  have base0: "0 < unat base" using assms(1) by (simp add: unat_gt_0)
  obtain r :: u128 where r: "checked_add (ucast quote) (ucast virt) = Some r"
      "unat r = unat quote + unat virt"
    using checked_add_fits [of "ucast quote :: u128" "ucast virt"] bounds by auto
  obtain p where p: "checked_mul r (ucast b) = Some p" "unat p = unat r * unat b"
    using checked_mul_fits [of r "ucast b"] assms(2) r(2) by auto
  obtain t :: u128 where t: "checked_add (ucast base) (ucast b) = Some t"
      "unat t = unat base + unat b"
    using checked_add_fits [of "ucast base :: u128" "ucast b"] bounds by auto
  obtain w where w: "div_or_panic p t = (Ok w :: (quote_error, u128) result)"
      "unat w = unat p div unat t"
    using div_or_panic_fits [of t p] t(2) base0 by auto
  from r p t w show ?thesis by (auto simp: product_out_def)
qed

lemma to_u64_eq:
  "to_u64 t = (if 2 ^ 64 \<le> unat t then Err MathOverflow else Ok (of_nat (unat t)))"
  by (simp add: to_u64_def try_narrow_def)

text \<open>What follows the curve and the fees of a sell.\<close>

definition sell_tail :: "u64 \<Rightarrow> u64 \<Rightarrow> u128 \<Rightarrow> u128 \<Rightarrow> u128 \<Rightarrow> (quote_error, quote_result) result" where
  "sell_tail b quote w v t =
    and_then (ok_or MathOverflow (checked_sub w t)) (\<lambda>out.
    and_then (ok_or MathOverflow (checked_sub w v)) (\<lambda>vault.
    if ucast quote < vault then Err InsufficientLiquidity
    else
    and_then (to_u64 out) (\<lambda>out.
    and_then (to_u64 t) (\<lambda>fee.
      Ok \<lparr>quote_amount_in = b, quote_amount_out = out, quote_fee = fee\<rparr>))))"

lemma sell_tail_eq:
  assumes "unat v \<le> unat t"
  shows "sell_tail b quote w v t =
    (if unat w < unat t then Err MathOverflow
     else if unat quote < unat w - unat v then Err InsufficientLiquidity
     else if 2 ^ 64 \<le> unat t then Err MathOverflow
     else Ok \<lparr>quote_amount_in = b, quote_amount_out = of_nat (unat w - unat t),
            quote_fee = of_nat (unat t)\<rparr>)"
proof (cases "unat w < unat t")
  case True
  then have "checked_sub w t = None" by (simp add: arith_iff)
  with True show ?thesis by (simp add: sell_tail_def)
next
  case False
  then obtain out where out: "checked_sub w t = Some out" "unat out = unat w - unat t"
    using checked_sub_fits [of t w] by auto
  obtain vault where vault: "checked_sub w v = Some vault" "unat vault = unat w - unat v"
    using checked_sub_fits [of v w] False assms by auto
  show ?thesis
  proof (cases "unat quote < unat w - unat v")
    case True
    with False out vault show ?thesis by (simp add: sell_tail_def word_less_nat_alt)
  next
    case covered: False
    then have "unat out < 2 ^ 64"
      using out(2) assms unat_u64_bound [of quote] by simp
    then obtain o' where o': "to_u64 out = Ok o'" "unat o' = unat w - unat t"
      using to_u64_fits [of out] out(2) by auto
    have o'_eq: "o' = of_nat (unat w - unat t)"
      by (simp only: o'(2) [symmetric] word_of_nat_unat)
    have "to_u64 t = (if 2 ^ 64 \<le> unat t then Err MathOverflow else Ok (of_nat (unat t)))"
      by (simp add: to_u64_eq)
    with False covered out(1) vault o'(1) show ?thesis
      by (simp add: sell_tail_def word_less_nat_alt o'_eq del: of_nat_diff)
  qed
qed

lemma pump_sell_closed:
  "pump_sell_base_in b base quote virt lp protocol creator =
    (let raw = product_out (unat quote + unat virt) (unat base) (unat b);
         lp_fee = ceil_nat (raw * unat lp) 10000;
         fee = fee_sum raw (unat lp) (unat protocol) (unat creator) in
     if b = 0 \<or> base = 0 \<or> quote = 0 then Err InvalidInput
     else if 2 ^ 128 \<le> (unat quote + unat virt) * unat b then Err MathOverflow
     else if raw < fee then Err MathOverflow
     else if unat quote < raw - lp_fee then Err InsufficientLiquidity
     else if 2 ^ 64 \<le> fee then Err MathOverflow
     else Ok \<lparr>quote_amount_in = b, quote_amount_out = of_nat (raw - fee),
            quote_fee = of_nat fee\<rparr>)"
proof (cases "b = 0 \<or> base = 0 \<or> quote = 0")
  case True
  then show ?thesis by (simp add: pump_sell_base_in_def)
next
  case valid: False
  define raw where "raw = product_out (unat quote + unat virt) (unat base) (unat b)"
  obtain r0 :: u128 where r0: "checked_add (ucast quote) (ucast virt) = Some r0"
      "unat r0 = unat quote + unat virt"
    using checked_add_fits [of "ucast quote :: u128" "ucast virt"]
      unat_u64_bound [of quote] unat_u64_bound [of virt] by auto
  show ?thesis
  proof (cases "2 ^ 128 \<le> (unat quote + unat virt) * unat b")
    case True
    then have "checked_mul r0 (ucast b) = None" by (simp add: arith_iff r0(2))
    with valid True r0(1) show ?thesis by (simp add: pump_sell_base_in_def)
  next
    case False
    then obtain r p t w where w: "checked_add (ucast quote) (ucast virt) = Some r"
        "checked_mul r (ucast b) = Some p" "checked_add (ucast base) (ucast b) = Some t"
        "div_or_panic p t = (Ok w :: (quote_error, u128) result)" "unat w = raw"
      using sell_curve_fits [of base quote virt b] valid by (auto simp: raw_def)
    have "raw \<le> unat quote + unat virt" by (simp add: raw_def product_out_le)
    then have small: "unat w < 2 ^ 100" using w(5) raw_quote_le [of quote virt] by simp
    obtain v where v: "fee_for w lp = Ok v" "unat v = ceil_nat (raw * unat lp) 10000"
      using fee_for_fits [OF small] w(5) by auto
    obtain x where x: "fee_for w protocol = Ok x" "unat x = ceil_nat (raw * unat protocol) 10000"
      using fee_for_fits [OF small] w(5) by auto
    obtain y where y: "checked_add v x = Some y" "unat y = unat v + unat x"
      using checked_add_fits [of v x] ceil_fee_bound [OF small, of lp]
        ceil_fee_bound [OF small, of protocol] v(2) x(2) w(5) by auto
    obtain z where z: "add_fee_for w creator (Some y) = Ok (Some z)"
        "unat z = fee_sum raw (unat lp) (unat protocol) (unat creator)"
      using add_fee_for_fits [OF small, of y] ceil_fee_bound [OF small, of lp]
        ceil_fee_bound [OF small, of protocol] v(2) x(2) y(2) w(5) by (auto simp: fee_sum_def)
    have "unat v \<le> unat z" by (simp add: v(2) z(2) fee_sum_def)
    note tail = sell_tail_eq [OF this, of b quote w]
    have "pump_sell_base_in b base quote virt lp protocol creator = sell_tail b quote w v z"
      using valid unfolding sell_tail_def
      by (simp add: pump_sell_base_in_def w v x y z)
    with valid False show ?thesis
      unfolding tail by (simp add: Let_def v(2) z(2) w(5) flip: raw_def del: of_nat_diff)
  qed
qed

lemma pump_sell_OkD:
  assumes "pump_sell_base_in b base quote virt lp protocol creator = Ok r"
  defines "raw \<equiv> product_out (unat quote + unat virt) (unat base) (unat b)"
  shows "quote_amount_in r = b" "base \<noteq> 0" "quote \<noteq> 0" "b \<noteq> 0"
    "unat (quote_fee r) = fee_sum raw (unat lp) (unat protocol) (unat creator)"
    "unat (quote_amount_out r) + unat (quote_fee r) = raw"
    "raw - ceil_nat (raw * unat lp) 10000 \<le> unat quote"
proof -
  let ?fee = "fee_sum raw (unat lp) (unat protocol) (unat creator)"
  have small: "?fee < 2 ^ 64" "?fee \<le> raw" "raw - ceil_nat (raw * unat lp) 10000 \<le> unat quote"
    and r: "r = \<lparr>quote_amount_in = b, quote_amount_out = of_nat (raw - ?fee),
              quote_fee = of_nat ?fee\<rparr>"
    and nz: "base \<noteq> 0" "quote \<noteq> 0" "b \<noteq> 0"
    using assms(1) unfolding pump_sell_closed raw_def Let_def
    by (auto split: if_splits simp del: of_nat_diff)
  have "raw - ?fee \<le> unat quote"
    using small(3) by (simp add: fee_sum_def)
  then have "raw - ?fee < 2 ^ LENGTH(64)"
    by (rule le_less_trans [OF _ unat_lt_exp])
  note out = unat_of_nat_small [OF this]
  have fee: "unat (of_nat ?fee :: u64) = ?fee"
    by (rule unat_of_nat_small) (use small(1) in simp)
  show "quote_amount_in r = b" "base \<noteq> 0" "quote \<noteq> 0" "b \<noteq> 0"
    "unat (quote_fee r) = ?fee" "unat (quote_amount_out r) + unat (quote_fee r) = raw"
    "raw - ceil_nat (raw * unat lp) 10000 \<le> unat quote"
    using nz small(2,3) by (simp_all add: r out fee del: of_nat_diff)
qed

section \<open>Properties\<close>

text \<open>C1. The Pump buy quote in closed form, on every input and every branch: the 128-bit
  intermediate arithmetic never overflows, nothing panics, \<open>MathOverflow\<close> means that the rounded
  fees exceed what is left, and \<open>InvalidInput\<close> a zero input, an empty reserve or an amount that
  fees consume.\<close>

theorem pump_buy_exact:
  "pump_buy_exact_quote_in q base quote virt lp protocol creator =
    (let e = net_quote (unat q) (unat lp) (unat protocol) (unat creator);
         x = fee_excess (unat q) (unat lp) (unat protocol) (unat creator) in
     if q = 0 \<or> base = 0 \<or> quote = 0 then Err InvalidInput
     else if e < x then Err MathOverflow
     else if e = x then Err InvalidInput
     else Ok \<lparr>quote_amount_in = q,
       quote_amount_out = of_nat (product_out (unat base) (unat quote + unat virt) (e - x - 1)),
       quote_fee = of_nat (unat q - (e - x))\<rparr>)"
  by (rule pump_buy_closed)

text \<open>C2. Whenever a Pump buy is quoted, the amount that reaches the curve (the input less the
  reported fee) is positive, that amount and the three fees rounded up on it never exceed the
  input, the output is strictly below the base reserve, and the constant product of the reserves
  (virtual quote included) does not shrink when only \<open>net - 1\<close> is credited.\<close>

theorem pump_buy_sound:
  assumes "pump_buy_exact_quote_in q base quote virt lp protocol creator = Ok r"
  shows "let net = unat q - unat (quote_fee r); reserve = unat quote + unat virt in
    0 < net \<and> net \<le> unat q \<and>
    net + fee_sum net (unat lp) (unat protocol) (unat creator) \<le> unat q \<and>
    unat (quote_amount_out r) < unat base \<and>
    unat base * reserve \<le> (unat base - unat (quote_amount_out r)) * (reserve + (net - 1))"
proof -
  note facts = pump_buy_OkD [OF assms]
  have "0 < unat base" "0 < unat quote" using facts(2,3) by (simp_all add: unat_gt_0)
  then show ?thesis
    using effective_quote_spends [OF less_imp_le [OF facts(8)]] facts(4,5)
      product_out_preserves [of "unat base" "unat quote + unat virt"
        "effective_quote_in (unat q) (unat lp) (unat protocol) (unat creator) - 1"]
    by (simp add: Let_def facts(6,7) product_out_less)
qed

theorem pump_buy_sound_witness:
  "let r = \<lparr>quote_amount_in = 2008, quote_amount_out = 181636, quote_fee = 9\<rparr>;
       net = unat (2008 :: u64) - unat (quote_fee r);
       reserve = unat (10000000000 :: u64) + unat (1000000000 :: u64) in
    0 < net \<and> net \<le> unat (2008 :: u64) \<and>
    net + fee_sum net (unat (20 :: u16)) (unat (5 :: u16)) (unat (5 :: u16))
      \<le> unat (2008 :: u64) \<and>
    unat (quote_amount_out r) < unat (1000000000000 :: u64) \<and>
    unat (1000000000000 :: u64) * reserve
      \<le> (unat (1000000000000 :: u64) - unat (quote_amount_out r)) * (reserve + (net - 1))"
  unfolding Let_def
  by (rule pump_buy_sound [unfolded Let_def]) (simp add: eval_defs)

text \<open>The buy output is monotone in the input up to the rounding of three fees: a larger input
  leaves at most two units less for the curve, and the smaller input's output is at most what the
  curve gives for two units more than the larger input's net amount.\<close>

theorem pump_buy_near_monotone:
  assumes "pump_buy_exact_quote_in q base quote virt lp protocol creator = Ok r"
    and "pump_buy_exact_quote_in q' base quote virt lp protocol creator = Ok r'"
    and "q \<le> q'"
  shows "unat q - unat (quote_fee r) \<le> unat q' - unat (quote_fee r') + 2 \<and>
    unat (quote_amount_out r) \<le> product_out (unat base) (unat quote + unat virt)
      (unat q' - unat (quote_fee r') + 1)"
proof -
  note a = pump_buy_OkD [OF assms(1)] and b = pump_buy_OkD [OF assms(2)]
  have near: "effective_quote_in (unat q) (unat lp) (unat protocol) (unat creator)
      \<le> effective_quote_in (unat q') (unat lp) (unat protocol) (unat creator) + 2"
    using assms(3) by (intro effective_quote_near_mono) (simp add: word_le_nat_alt)
  then show ?thesis
    using a(5) b(5) by (auto simp: a(6,7) b(7) intro: product_out_mono)
qed

theorem pump_buy_near_monotone_witness:
  "unat (2007 :: u64) - unat (7 :: u64) \<le> unat (2008 :: u64) - unat (9 :: u64) + 2 \<and>
   unat (181727 :: u64) \<le> product_out (unat (1000000000000 :: u64))
     (unat (10000000000 :: u64) + unat (1000000000 :: u64))
     (unat (2008 :: u64) - unat (9 :: u64) + 1)"
  using pump_buy_near_monotone [of 2007 1000000000000 10000000000 1000000000 20 5 5
      "\<lparr>quote_amount_in = 2007, quote_amount_out = 181727, quote_fee = 7\<rparr>" 2008
      "\<lparr>quote_amount_in = 2008, quote_amount_out = 181636, quote_fee = 9\<rparr>"]
  by (simp add: eval_defs)

text \<open>The Pump buy is not monotone exactly: with reserves of 1000000000000 base and 11000000000 quote (of
  which 1000000000 virtual) and fees of 20, 5 and 5 basis points, 2007 buys more than 2008, since the
  overshoot of the rounded fees is subtracted a second time.\<close>

lemma pump_buy_not_monotone:
  "\<exists>r r'. pump_buy_exact_quote_in 2007 1000000000000 10000000000 1000000000 20 5 5 = Ok r \<and>
    pump_buy_exact_quote_in 2008 1000000000000 10000000000 1000000000 20 5 5 = Ok r' \<and>
    quote_amount_out r' < quote_amount_out r"
  by (simp add: eval_defs)

text \<open>C4. The Pump sell quote in closed form, on every input and every branch: \<open>MathOverflow\<close> when
  the product of the curve needs more than 128 bits, when the rounded fees exceed the raw quote or
  when they need more than 64 bits, \<open>InsufficientLiquidity\<close> when the vault would have to pay out more
  than its real reserve; nothing panics.\<close>

theorem pump_sell_exact:
  "pump_sell_base_in b base quote virt lp protocol creator =
    (let raw = product_out (unat quote + unat virt) (unat base) (unat b);
         lp_fee = ceil_nat (raw * unat lp) 10000;
         fee = fee_sum raw (unat lp) (unat protocol) (unat creator) in
     if b = 0 \<or> base = 0 \<or> quote = 0 then Err InvalidInput
     else if 2 ^ 128 \<le> (unat quote + unat virt) * unat b then Err MathOverflow
     else if raw < fee then Err MathOverflow
     else if unat quote < raw - lp_fee then Err InsufficientLiquidity
     else if 2 ^ 64 \<le> fee then Err MathOverflow
     else Ok \<lparr>quote_amount_in = b, quote_amount_out = of_nat (raw - fee),
            quote_fee = of_nat fee\<rparr>)"
  by (rule pump_sell_closed)

text \<open>C5. Whenever a Pump sell is quoted, output and fee together are what the curve pays, the
  output is covered by the real (not virtual) quote reserve, and the constant product of the
  reserves with the virtual quote does not shrink.\<close>

theorem pump_sell_sound:
  assumes "pump_sell_base_in b base quote virt lp protocol creator = Ok r"
  shows "let paid = unat (quote_amount_out r) + unat (quote_fee r);
             reserve = unat quote + unat virt in
    unat (quote_amount_out r) \<le> unat quote \<and> paid < reserve \<and>
    reserve * unat base \<le> (reserve - paid) * (unat base + unat b)"
proof -
  note facts = pump_sell_OkD [OF assms]
  let ?raw = "product_out (unat quote + unat virt) (unat base) (unat b)"
  have pos: "0 < unat base" "0 < unat quote" using facts(2,3) by (simp_all add: unat_gt_0)
  have "ceil_nat (?raw * unat lp) 10000 \<le> unat (quote_fee r)"
    by (simp add: facts(5) fee_sum_def)
  then have "unat (quote_amount_out r) \<le> unat quote"
    using facts(6,7) by simp
  then show ?thesis
    using pos by (simp add: Let_def facts(6) product_out_less product_out_preserves)
qed

theorem pump_sell_sound_witness:
  "let r = \<lparr>quote_amount_in = 1000000, quote_amount_out = 10965, quote_fee = 34\<rparr>;
       paid = unat (quote_amount_out r) + unat (quote_fee r);
       reserve = unat (10000000000 :: u64) + unat (1000000000 :: u64) in
    unat (quote_amount_out r) \<le> unat (10000000000 :: u64) \<and> paid < reserve \<and>
    reserve * unat (1000000000000 :: u64)
      \<le> (reserve - paid) * (unat (1000000000000 :: u64) + unat (1000000 :: u64))"
  unfolding Let_def
  by (rule pump_sell_sound [where lp = 20 and protocol = 5 and creator = 5, unfolded Let_def])
    (simp add: eval_defs)

end
