(* ===== verification/Direction_Search.thy ===== *)
theory Direction_Search
  imports Dynamic_Candidates Pump_Quote
begin

text \<open>
  What a search of one direction (\<^verbatim>\<open>search_forward\<close> and \<^verbatim>\<open>search_reverse\<close> of
  \<^verbatim>\<open>instructions/dynamic_amount.rs\<close>) returns: the amounts it tries are in the range, all
  different and never more than its array holds, and its answer is the best of those that qualify.
\<close>

section \<open>The array of candidates\<close>

text \<open>At most \<open>n\<close> amounts are in use, all different, none zero and all in the range.\<close>

definition candidates_ok :: "u64 \<Rightarrow> u64 \<Rightarrow> nat \<Rightarrow> candidate_amounts \<Rightarrow> bool" where
  "candidates_ok lo hi n c \<longleftrightarrow> length (candidate_values c) = 66 \<and> candidate_len c \<le> n \<and>
    distinct (candidate_slice c) \<and> (\<forall>a \<in> set (candidate_slice c). a \<noteq> 0 \<and> lo \<le> a \<and> a \<le> hi)"

lemma candidates_new_ok: "candidates_ok lo hi 0 candidates_new"
  by (simp add: candidates_ok_def candidates_new_def candidate_slice_def MAX_DYNAMIC_CANDIDATES_def
      MAX_QUOTE_VISITED_BINS_PER_DIRECTION_def)

lemma push_unique_slice:
  "candidate_len c < length (candidate_values c) \<Longrightarrow> candidate_slice (push_unique a c) =
    (if a = 0 \<or> a \<in> set (candidate_slice c) then candidate_slice c else candidate_slice c @ [a])"
  by (simp add: push_unique_def candidate_slice_def take_Suc_conv_app_nth)

lemma push_unique_ok:
  assumes "candidates_ok lo hi n c" "n < 66" "lo \<le> a" "a \<le> hi"
  shows "candidates_ok lo hi (Suc n) (push_unique a c)"
    "set (candidate_slice (push_unique a c)) = set (candidate_slice c) \<union> ({a} - {0})"
proof -
  have len: "candidate_len c < length (candidate_values c)" using assms(1,2) by (simp add: candidates_ok_def)
  note slice = push_unique_slice [OF len]
  show "candidates_ok lo hi (Suc n) (push_unique a c)"
    using assms len unfolding candidates_ok_def slice by (auto simp: push_unique_def)
  show "set (candidate_slice (push_unique a c)) = set (candidate_slice c) \<union> ({a} - {0})"
    unfolding slice by auto
qed

lemma push_if_ok:
  assumes "candidates_ok lo hi n c" "n < 66"
  shows "candidates_ok lo hi (Suc n) (if lo \<le> a \<and> a \<le> hi then push_unique a c else c)"
    "set (candidate_slice (if lo \<le> a \<and> a \<le> hi then push_unique a c else c)) =
      set (candidate_slice c) \<union> (if lo \<le> a \<and> a \<le> hi then {a} - {0} else {})"
proof -
  have more: "candidates_ok lo hi (Suc n) c" using assms(1) by (simp add: candidates_ok_def)
  show "candidates_ok lo hi (Suc n) (if lo \<le> a \<and> a \<le> hi then push_unique a c else c)"
    using push_unique_ok(1) [OF assms, of a] more by simp
  show "set (candidate_slice (if lo \<le> a \<and> a \<le> hi then push_unique a c else c)) =
      set (candidate_slice c) \<union> (if lo \<le> a \<and> a \<le> hi then {a} - {0} else {})"
    using push_unique_ok(2) [OF assms, of a] by simp
qed

lemma push_neighborhood_ok:
  assumes "candidates_ok lo hi n c" "n + 3 \<le> 66"
  shows "candidates_ok lo hi (n + 3) (push_neighborhood a lo hi c)"
    "set (candidate_slice c) \<subseteq> set (candidate_slice (push_neighborhood a lo hi c))"
    "{saturating_sub a 1, a, saturating_add a 1} \<inter> {lo..hi} - {0} \<subseteq>
      set (candidate_slice (push_neighborhood a lo hi c))"
proof -
  let ?push = "\<lambda>a c. if lo \<le> a \<and> a \<le> hi then push_unique a c else c"
  let ?below = "saturating_sub a INTERIOR_NEIGHBORHOOD" and ?above = "saturating_add a INTERIOR_NEIGHBORHOOD"
  have fold: "push_neighborhood a lo hi c = ?push ?above (?push a (?push ?below c))"
    by (simp add: push_neighborhood_def)
  note one = push_if_ok [OF assms(1), of ?below]
  have n: "n < 66" "Suc n < 66" "Suc (Suc n) < 66" using assms(2) by simp_all
  note two = push_if_ok [OF one(1) [OF n(1)] n(2), of a]
  note three = push_if_ok [OF two(1) n(3), of ?above]
  have "Suc (Suc (Suc n)) = n + 3" by simp
  with three(1) show "candidates_ok lo hi (n + 3) (push_neighborhood a lo hi c)" unfolding fold by metis
  show "set (candidate_slice c) \<subseteq> set (candidate_slice (push_neighborhood a lo hi c))"
    "{saturating_sub a 1, a, saturating_add a 1} \<inter> {lo..hi} - {0} \<subseteq>
      set (candidate_slice (push_neighborhood a lo hi c))"
    unfolding fold three(2) two(2) one(2) [OF n(1)] by (auto simp: INTERIOR_NEIGHBORHOOD_def)
qed

text \<open>What one segment adds: the amount at its end, and an interior amount with its two neighbours.\<close>

definition near :: "u64 \<Rightarrow> u64 \<Rightarrow> u64 option \<Rightarrow> u64 set" where
  "near lo hi i = (case i of None \<Rightarrow> {} | Some x \<Rightarrow>
    if lo \<le> x \<and> x \<le> hi then {saturating_sub x 1, x, saturating_add x 1} \<inter> {lo..hi} - {0} else {})"

definition found :: "u64 \<Rightarrow> u64 \<Rightarrow> u64 \<Rightarrow> u64 option \<Rightarrow> u64 set" where
  "found lo hi a i = ({a} \<inter> {lo..hi} - {0}) \<union> near lo hi i"

definition search_ok :: "u64 \<Rightarrow> u64 \<Rightarrow> nat \<Rightarrow> u64 set \<Rightarrow> search_state \<Rightarrow> bool" where
  "search_ok lo hi n R s \<longleftrightarrow> candidates_ok lo hi n (ss_candidates s) \<and>
    R \<subseteq> set (candidate_slice (ss_candidates s))"

lemma start_search_ok: "lo \<le> hi \<Longrightarrow> search_ok lo hi 2 ({lo, hi} - {0}) (start_search lo hi)"
proof -
  assume le: "lo \<le> hi"
  have z: "0 < (66 :: nat)" "Suc 0 < 66" by simp_all
  note one = push_unique_ok [OF candidates_new_ok z(1) order_refl le]
  note two = push_unique_ok [OF one(1) z(2) le order_refl]
  show ?thesis
    using two(1) unfolding search_ok_def start_search_def
    by (auto simp: two(2) one(2) numeral_2_eq_2)
qed

lemma search_ok_mono: "search_ok lo hi n R s \<Longrightarrow> n \<le> k \<Longrightarrow> search_ok lo hi k R s"
  by (auto simp: search_ok_def candidates_ok_def)

lemma add_boundary_ok:
  assumes "search_ok lo hi n R s" "n < 66"
  shows "search_ok lo hi (Suc n) (R \<union> ({a} \<inter> {lo..hi} - {0})) (add_boundary lo hi a s)"
proof (cases "lo \<le> a \<and> a \<le> hi")
  case True
  with assms push_unique_ok [of lo hi n "ss_candidates s" a] show ?thesis
    by (auto simp: search_ok_def add_boundary_def)
next
  case False
  with assms(1) show ?thesis by (auto simp: search_ok_def add_boundary_def candidates_ok_def)
qed

lemma add_interior_ok:
  assumes "search_ok lo hi n R s" "n + 3 \<le> 66"
  shows "search_ok lo hi (n + 3) (R \<union> near lo hi i) (add_interior lo hi i s)"
proof -
  have keep: "search_ok lo hi (n + 3) R s" using assms(1) by (rule search_ok_mono) simp
  have "search_ok lo hi (n + 3) (R \<union> ({saturating_sub a 1, a, saturating_add a 1} \<inter> {lo..hi} - {0}))
      (s \<lparr>ss_candidates := push_neighborhood a lo hi (ss_candidates s), ss_interior := k\<rparr>)" for a k
    using assms push_neighborhood_ok [of lo hi n "ss_candidates s" a] by (auto simp: search_ok_def)
  with keep show ?thesis by (simp add: add_interior_def near_def split: option.split)
qed

lemma segment_step_ok:
  assumes "search_ok lo hi n R s" "n + 4 \<le> 66"
  shows "search_ok lo hi (n + 4) (R \<union> found lo hi a i) (add_interior lo hi i (add_boundary lo hi a s))"
proof -
  from assms(2) have n: "n < 66" "Suc n + 3 \<le> 66" "Suc n + 3 = n + 4" by simp_all
  from add_interior_ok [OF add_boundary_ok [OF assms(1) n(1), of a] n(2), of i]
  show ?thesis unfolding n(3) by (simp only: found_def Un_assoc)
qed

lemma search_ok_weaken: "search_ok lo hi n R s \<Longrightarrow> R' \<subseteq> R \<Longrightarrow> search_ok lo hi n R' s"
  by (auto simp: search_ok_def)

lemma forward_segment_cases:
  assumes "forward_segment m lo hi segment s = (Ok s' :: ('e, search_state) result)"
  obtains "s' = s" | p where "s' = s \<lparr>ss_previous_end := p\<rparr>"
    | p a i where "s' = add_interior lo hi i (add_boundary lo hi a (s \<lparr>ss_previous_end := p\<rparr>))"
proof -
  from assms obtain start where *: "(case start of
      None \<Rightarrow> Ok s
    | Some segment_start \<Rightarrow>
        and_then (ok (pump_input_at_or_below_target_out m (input_end segment))) (\<lambda>end_input.
        case end_input of
          None \<Rightarrow> Ok s
        | Some segment_end \<Rightarrow>
            let s = s \<lparr>ss_previous_end := Some segment_end\<rparr> in
            if segment_end < lo \<or> hi < segment_start then Ok s
            else
              let s = add_boundary lo hi segment_end s in
              map_ok (\<lambda>interior. add_interior lo hi interior s)
                (ok (forward_interior_candidate m segment segment_start segment_end)))) = (Ok s' :: ('e, search_state) result)"
    unfolding forward_segment_def and_then_eq_Ok by blast
  show thesis
  proof (cases start)
    case None
    with * that(1) show ?thesis by simp
  next
    case (Some segment_start)
    with * obtain end_input where **: "(case end_input of
          None \<Rightarrow> Ok s
        | Some segment_end \<Rightarrow>
            let s = s \<lparr>ss_previous_end := Some segment_end\<rparr> in
            if segment_end < lo \<or> hi < segment_start then Ok s
            else
              let s = add_boundary lo hi segment_end s in
              map_ok (\<lambda>interior. add_interior lo hi interior s)
                (ok (forward_interior_candidate m segment segment_start segment_end))) = (Ok s' :: ('e, search_state) result)"
      by (auto simp: and_then_eq_Ok)
    show ?thesis
    proof (cases end_input)
      case None
      with ** that(1) show ?thesis by simp
    next
      case (Some segment_end)
      with ** that(2,3) show ?thesis by (auto simp: Let_def map_ok_eq_Ok split: if_splits)
    qed
  qed
qed

lemma forward_segment_ok:
  assumes "forward_segment m lo hi segment s = Ok s'" "search_ok lo hi n R s" "n + 4 \<le> 66"
  shows "search_ok lo hi (n + 4) R s'"
proof -
  have same: "search_ok lo hi n R (s \<lparr>ss_previous_end := p\<rparr>)" for p using assms(2) by (simp add: search_ok_def)
  from assms(1) show ?thesis
  proof (cases rule: forward_segment_cases)
    case 1
    with assms(2) show ?thesis by (auto intro: search_ok_mono)
  next
    case (2 p)
    with same [of p] show ?thesis by (auto intro: search_ok_mono)
  next
    case (3 p a i)
    with search_ok_weaken [OF segment_step_ok [OF same assms(3)]] show ?thesis by simp
  qed
qed

text \<open>What the reverse search must try for a segment.\<close>

definition reverse_wanted :: "market_state \<Rightarrow> u64 \<Rightarrow> u64 \<Rightarrow> dlmm_segment \<Rightarrow> u64 set" where
  "reverse_wanted m lo hi segment =
    (if input_end segment < lo \<or> hi < input_start segment then {}
     else found lo hi (input_end segment)
       (case reverse_interior_candidate m segment of Ok a \<Rightarrow> Some a | _ \<Rightarrow> None))"

lemma reverse_segment_ok:
  assumes "reverse_segment m lo hi segment s = Ok s'" "search_ok lo hi n R s" "n + 4 \<le> 66"
  shows "search_ok lo hi (n + 4) (R \<union> reverse_wanted m lo hi segment) s'"
  using assms(1) search_ok_mono [OF assms(2), of "n + 4"] segment_step_ok [OF assms(2,3)]
  by (auto simp: reverse_segment_def reverse_wanted_def result_iff Let_def split: if_splits result.splits)

lemma over_segments_ok:
  assumes step: "\<And>segment s s' n R. f segment s = Ok s' \<Longrightarrow> search_ok lo hi n R s \<Longrightarrow> n + 4 \<le> 66 \<Longrightarrow>
    search_ok lo hi (n + 4) (R \<union> wanted segment) s'"
  shows "over_segments f segs s = Ok s' \<Longrightarrow> search_ok lo hi n R s \<Longrightarrow> n + 4 * length segs \<le> 66 \<Longrightarrow>
    search_ok lo hi (n + 4 * length segs) (R \<union> (\<Union>segment \<in> set segs. wanted segment)) s'"
proof (induction segs arbitrary: s n R)
  case (Cons segment segs)
  then obtain s1 where s1: "f segment s = Ok s1" "over_segments f segs s1 = Ok s'" by (auto simp: result_iff)
  have "search_ok lo hi (n + 4) (R \<union> wanted segment) s1" using Cons.prems s1(1) by (intro step) auto
  with Cons.IH [OF s1(2) this] Cons.prems(3) show ?case by (simp add: algebra_simps Un_assoc)
qed simp

section \<open>The best candidate\<close>

definition choice_of :: "u64 \<Rightarrow> curve_quote \<Rightarrow> direction_choice" where
  "choice_of a q = \<lparr>choice_amount_in = a, choice_amount_out = cq_amount_out q,
     choice_profit = cq_amount_out q - a, choice_used_indices = cq_used_indices q,
     choice_used_len = cq_used_len q\<rparr>"

text \<open>The choices that qualify: an amount in range that could be quoted, with enough profit.\<close>

definition qualifies ::
    "u64 \<Rightarrow> u64 \<Rightarrow> u64 \<Rightarrow> (u64 \<Rightarrow> (quote_error, curve_quote) result) \<Rightarrow> u64 set \<Rightarrow> direction_choice \<Rightarrow> bool" where
  "qualifies lo hi profit evaluate amounts c \<longleftrightarrow> (\<exists>a q. a \<in> amounts \<and> lo \<le> a \<and> a \<le> hi \<and>
    evaluate a = Ok q \<and> a \<le> cq_amount_out q \<and> profit \<le> cq_amount_out q - a \<and> c = choice_of a q)"

definition at_least_as_good :: "direction_choice \<Rightarrow> direction_choice \<Rightarrow> bool" where
  "at_least_as_good c c' \<longleftrightarrow> choice_profit c' < choice_profit c \<or>
    choice_profit c = choice_profit c' \<and> choice_amount_in c \<le> choice_amount_in c'"

lemma not_better: "\<not> better_choice c c' \<longleftrightarrow> at_least_as_good c' c"
  by (auto simp: better_choice_def at_least_as_good_def)

lemma better_at_least: "better_choice c c' \<Longrightarrow> at_least_as_good c c'"
  by (auto simp: better_choice_def at_least_as_good_def)

lemma at_least_as_good_refl: "at_least_as_good c c"
  by (simp add: at_least_as_good_def)

lemma at_least_as_good_trans: "at_least_as_good a b \<Longrightarrow> at_least_as_good b c \<Longrightarrow> at_least_as_good a c"
  by (auto simp: at_least_as_good_def)

definition best_of :: "(direction_choice \<Rightarrow> bool) \<Rightarrow> direction_choice option \<Rightarrow> bool" where
  "best_of P b \<longleftrightarrow> (case b of None \<Rightarrow> \<forall>c. \<not> P c
    | Some c \<Rightarrow> P c \<and> (\<forall>c'. P c' \<longrightarrow> at_least_as_good c c'))"

definition evaluated ::
    "evaluation_context \<Rightarrow> (u64 \<Rightarrow> (quote_error, curve_quote) result) \<Rightarrow> u64 set \<Rightarrow> evaluation \<Rightarrow> bool" where
  "evaluated ctx evaluate amounts ev \<longleftrightarrow>
    best_of (qualifies (ctx_min_amount ctx) (ctx_largest_complete ctx) (ctx_min_profit ctx)
      evaluate amounts) (ev_best ev) \<and>
    (ev_complete_seen ev \<longleftrightarrow> (\<exists>a \<in> amounts. ctx_min_amount ctx \<le> a \<and> a \<le> ctx_largest_complete ctx \<and>
      (\<exists>q. evaluate a = Ok q))) \<and>
    (if ctx_min_amount ctx \<in> amounts \<and> ctx_min_amount ctx \<le> ctx_largest_complete ctx \<and>
        (\<exists>q. evaluate (ctx_min_amount ctx) = Ok q)
     then ev_minimum_complete ev \<and> evaluate (ctx_min_amount ctx) \<noteq> Panic \<and>
       (\<forall>q. evaluate (ctx_min_amount ctx) = Ok q \<longrightarrow> ev_minimum_out ev = cq_amount_out q)
     else \<not> ev_minimum_complete ev \<and> ev_minimum_out ev = 0)"

lemma consider_quote_evaluated:
  assumes "evaluated ctx evaluate amounts ev" "ctx_min_amount ctx \<le> a" "a \<le> ctx_largest_complete ctx"
    "evaluate a = Ok q"
  shows "evaluated ctx evaluate (insert a amounts) (consider_quote ctx a q ev)"
proof -
  let ?P = "qualifies (ctx_min_amount ctx) (ctx_largest_complete ctx) (ctx_min_profit ctx) evaluate amounts" and ?Q = "qualifies (ctx_min_amount ctx) (ctx_largest_complete ctx) (ctx_min_profit ctx) evaluate (insert a amounts)"
  have Q: "?Q c \<longleftrightarrow> ?P c \<or> a \<le> cq_amount_out q \<and> ctx_min_profit ctx \<le> cq_amount_out q - a \<and> c = choice_of a q" for c
    using assms(2-4) by (auto simp: qualifies_def)
  have old: "best_of ?P (ev_best ev)" using assms(1) by (simp add: evaluated_def)
  have new: "best_of ?Q (ev_best (consider_quote ctx a q ev))"
  proof (cases "a \<le> cq_amount_out q \<and> ctx_min_profit ctx \<le> cq_amount_out q - a")
    case False
    then have "?Q = ?P" using Q by auto
    moreover have "ev_best (consider_quote ctx a q ev) = ev_best ev"
      using False by (auto simp: consider_quote_def Let_def checked_sub_def not_le)
    ultimately show ?thesis using old by simp
  next
    case True
    then have "ev_best (consider_quote ctx a q ev) =
      (if (case ev_best ev of None \<Rightarrow> True | Some current \<Rightarrow> better_choice (choice_of a q) current)
       then Some (choice_of a q) else ev_best ev)"
      by (auto simp: consider_quote_def Let_def checked_sub_def choice_of_def split: option.split)
    with old True Q show ?thesis
      by (auto simp: best_of_def not_better at_least_as_good_refl split: option.splits
          dest: better_at_least intro: at_least_as_good_trans)
  qed
  have "ev_complete_seen (consider_quote ctx a q ev)"
    "ev_minimum_complete (consider_quote ctx a q ev) = (a = ctx_min_amount ctx \<or> ev_minimum_complete ev)"
    "ev_minimum_out (consider_quote ctx a q ev) =
      (if a = ctx_min_amount ctx then cq_amount_out q else ev_minimum_out ev)"
    by (auto simp: consider_quote_def Let_def split: option.split)
  with new assms show ?thesis by (auto simp: evaluated_def split: if_splits)
qed

lemma skip_evaluated:
  assumes "evaluated ctx evaluate amounts ev"
    "\<not> (ctx_min_amount ctx \<le> a \<and> a \<le> ctx_largest_complete ctx) \<or> (\<forall>q. evaluate a \<noteq> Ok q)"
  shows "evaluated ctx evaluate (insert a amounts) ev"
proof -
  have "qualifies (ctx_min_amount ctx) (ctx_largest_complete ctx) (ctx_min_profit ctx) evaluate (insert a amounts) = qualifies (ctx_min_amount ctx) (ctx_largest_complete ctx) (ctx_min_profit ctx) evaluate amounts"
    using assms(2) by (auto simp: qualifies_def fun_eq_iff)
  with assms show ?thesis by (auto simp: evaluated_def split: if_splits)
qed

lemma evaluate_loop_evaluated:
  "evaluate_loop ctx evaluate candidates ev = Ok ev' \<Longrightarrow> evaluated ctx evaluate amounts ev \<Longrightarrow>
    evaluated ctx evaluate (amounts \<union> set candidates) ev'"
proof (induction candidates arbitrary: ev amounts)
  case (Cons a candidates)
  have union: "amounts \<union> set (a # candidates) = insert a amounts \<union> set candidates" by simp
  show ?case
  proof (cases "ctx_min_amount ctx \<le> a \<and> a \<le> ctx_largest_complete ctx")
    case True
    show ?thesis
    proof (cases "evaluate a")
      case (Ok q)
      then show ?thesis
        using Cons.IH [of "consider_quote ctx a q ev" "insert a amounts"] Cons.prems True
          consider_quote_evaluated [OF Cons.prems(2), of a q] unfolding union by simp
    next
      case (Err e)
      then show ?thesis
        using Cons.IH [of ev "insert a amounts"] Cons.prems True
          skip_evaluated [OF Cons.prems(2), of a] unfolding union by simp
    qed (use Cons.prems True in simp)
  next
    case False
    then show ?thesis
      using Cons.IH [of ev "insert a amounts"] Cons.prems skip_evaluated [OF Cons.prems(2), of a]
      unfolding union by auto
  qed
qed simp

lemma evaluate_candidates_Ok:
  assumes "evaluate_candidates candidates ctx evaluate = Ok d"
  shows "best_of (qualifies (ctx_min_amount ctx) (ctx_largest_complete ctx) (ctx_min_profit ctx) evaluate (set candidates)) (best d)"
    "minimum_quote_complete d \<longleftrightarrow> ctx_min_amount ctx \<in> set candidates \<and>
      ctx_min_amount ctx \<le> ctx_largest_complete ctx \<and> (\<exists>q. evaluate (ctx_min_amount ctx) = Ok q)"
    "largest_complete d = ctx_largest_complete ctx"
proof -
  let ?ev = "\<lparr>ev_best = None, ev_complete_seen = False, ev_minimum_complete = False, ev_minimum_out = 0\<rparr>"
  have start: "evaluated ctx evaluate {} ?ev" by (simp add: evaluated_def best_of_def qualifies_def)
  from assms obtain ev where loop: "evaluate_loop ctx evaluate candidates ?ev = (Ok ev :: ('a, evaluation) result)"
    and d: "best d = ev_best ev" "minimum_quote_complete d = ev_minimum_complete ev"
      "largest_complete d = ctx_largest_complete ctx"
    by (auto simp: evaluate_candidates_def result_iff)
  from evaluate_loop_evaluated [OF loop start] have "evaluated ctx evaluate (set candidates) ev" by simp
  with d show "best_of (qualifies (ctx_min_amount ctx) (ctx_largest_complete ctx) (ctx_min_profit ctx) evaluate (set candidates)) (best d)"
    "minimum_quote_complete d \<longleftrightarrow> ctx_min_amount ctx \<in> set candidates \<and>
      ctx_min_amount ctx \<le> ctx_largest_complete ctx \<and> (\<exists>q. evaluate (ctx_min_amount ctx) = Ok q)"
    "largest_complete d = ctx_largest_complete ctx"
    by (auto simp: evaluated_def split: if_splits)
qed


section \<open>The largest amount\<close>

definition buys :: "market_state \<Rightarrow> u64 \<Rightarrow> u64 \<Rightarrow> bool" where
  "buys m capacity a \<longleftrightarrow> (\<exists>q. market_buy m a = Ok q \<and> quote_amount_out q \<le> capacity)"

lemma market_buy_no_panic: "market_buy m a \<noteq> Panic"
  by (simp add: market_buy_def pump_buy_closed Let_def)

lemma buys_within_eq: "buys_within m capacity a = Ok (buys m capacity a)"
  using market_buy_no_panic [of m a]
  by (cases "market_buy m a") (auto simp: buys_within_def pump_buy_amount_out_def buys_def)

lemma largest_within_spec:
  assumes "lower \<le> upper" "upper \<le> limit" "lower = 0 \<or> buys m capacity lower"
    "upper = limit \<or> \<not> buys m capacity (upper + 1)"
  shows "\<exists>r. (largest_within m capacity lower upper :: ('e, u64) result) = Ok r \<and> r \<le> limit \<and>
    (r = 0 \<or> buys m capacity r) \<and> (r = limit \<or> \<not> buys m capacity (r + 1))"
  using assms
proof (induction "unat upper - unat lower" arbitrary: lower upper rule: less_induct)
  case less
  show ?case
  proof (cases "lower < upper")
    case True
    let ?gap = "upper - lower"
    let ?mid = "lower + of_nat (ceil_nat (unat ?gap) 2) :: u64"
    have gap: "(sub_or_panic upper lower :: ('e, u64) result) = Ok ?gap" using True by (intro sub_or_panic_le) simp
    have "unat ?gap = unat upper - unat lower" using True by (intro unat_sub_small) simp
    then have "unat lower + unat (of_nat (ceil_nat (unat ?gap) 2) :: u64) < 2 ^ LENGTH(64)"
      using True unat_u64_bound [of upper] half_gap [of ?gap] unfolding word_less_nat_alt
      by simp
    then have mid: "(add_or_panic lower (of_nat (ceil_nat (unat ?gap) 2)) :: ('e, u64) result) = Ok ?mid"
      by (simp add: add_or_panic_def or_panic_def checked_add_def)
    note between = midpoint_between [OF True gap mid]
    have "1 \<le> ?mid" using between by (simp add: word_le_nat_alt)
    then have one: "(sub_or_panic ?mid 1 :: ('e, u64) result) = Ok (?mid - 1)" "unat (?mid - 1) = unat ?mid - 1"
      using sub_or_panic_le unat_sub_small [of 1 ?mid] by auto
    have step: "(largest_within m capacity lower upper :: ('e, u64) result) =
      (if buys m capacity ?mid then largest_within m capacity ?mid upper
       else largest_within m capacity lower (?mid - 1))"
      using True gap mid one(1)
      by (subst largest_within.simps) (simp add: buys_within_eq)
    show ?thesis
    proof (cases "buys m capacity ?mid")
      case True
      with less.hyps [of upper ?mid] less.prems between show ?thesis
        unfolding step by (simp add: word_le_nat_alt)
    next
      case False
      have "unat (?mid - 1) - unat lower < unat upper - unat lower" using between one(2) by simp
      from less.hyps [OF this] False less.prems between one(2) show ?thesis
        unfolding step by (simp add: word_le_nat_alt)
    qed
  next
    case False
    have stop: "largest_within m capacity k k = Ok k" for k by (subst largest_within.simps) simp
    from False less.prems show ?thesis by (simp add: stop)
  qed
qed

text \<open>The largest complete amount of the forward search: the whole range when its end can be quoted,
  and otherwise nothing or an amount that buys at most what the curve takes while the next one buys
  more.\<close>

definition forward_limit :: "market_state \<Rightarrow> dlmm_curve \<Rightarrow> u64 \<Rightarrow> u64 \<Rightarrow> bool" where
  "forward_limit m curve limit r \<longleftrightarrow> r \<le> limit \<and>
    ((\<exists>q. evaluate_forward m curve limit = Ok q) \<longrightarrow> r = limit) \<and>
    (r = limit \<and> (\<exists>q. evaluate_forward m curve limit = Ok q) \<or>
     r = 0 \<or> buys m (chain_end 0 (in_use curve)) r) \<and>
    (r = limit \<or> chain_end 0 (in_use curve) = 0 \<or> \<not> buys m (chain_end 0 (in_use curve)) (r + 1))"

lemma largest_forward_spec:
  assumes "curve_ok curve" "evaluate_forward m curve limit \<noteq> Panic"
  shows "\<exists>r. (largest_forward_complete_amount m curve limit :: ('e, u64) result) = Ok r \<and>
    forward_limit m curve limit r"
proof -
  let ?capacity = "chain_end 0 (in_use curve)"
  have capacity: "(largest_complete_input curve :: ('e, u64) result) = Ok ?capacity"
    by (rule largest_input [OF assms(1)])
  show ?thesis
  proof (cases "evaluate_forward m curve limit")
    case (Ok q)
    then show ?thesis by (simp add: largest_forward_complete_amount_def forward_limit_def)
  next
    case (Err e)
    show ?thesis
    proof (cases "?capacity = 0 \<or> limit = 0")
      case True
      with Err show ?thesis by (auto simp: largest_forward_complete_amount_def capacity forward_limit_def)
    next
      case False
      then have eq: "(largest_forward_complete_amount m curve limit :: ('e, u64) result) =
          largest_within m ?capacity 0 limit"
        using Err by (simp add: largest_forward_complete_amount_def capacity)
      obtain r where "(largest_within m ?capacity 0 limit :: ('e, u64) result) = Ok r" "r \<le> limit"
        "r = 0 \<or> buys m ?capacity r" "r = limit \<or> \<not> buys m ?capacity (r + 1)"
        using largest_within_spec [where 'e = 'e, of 0 limit limit m ?capacity] False
        by (auto simp only: zero_le order_refl simp_thms word_zero_le)
      with Err show ?thesis unfolding eq forward_limit_def by (intro exI [of _ r]) auto
    qed
  qed (use assms(2) in simp)
qed


section \<open>One direction searched\<close>

text \<open>What a search of a direction returns: nothing if the smallest amount is not complete, and
  otherwise the best of the amounts tried, which include both ends of the range.\<close>

definition searched ::
    "u64 \<Rightarrow> u64 \<Rightarrow> u64 \<Rightarrow> u64 set \<Rightarrow> (u64 \<Rightarrow> (quote_error, curve_quote) result) \<Rightarrow> direction_search \<Rightarrow> bool" where
  "searched lo largest profit wanted evaluate d \<longleftrightarrow> largest_complete d = largest \<and>
    (if largest < lo then best d = None \<and> \<not> minimum_quote_complete d
     else \<exists>amounts. ({lo, largest} - {0}) \<union> wanted \<subseteq> amounts \<and> amounts \<subseteq> {lo..largest} - {0} \<and>
       card amounts \<le> 66 \<and> best_of (qualifies lo largest profit evaluate amounts) (best d) \<and>
       (minimum_quote_complete d \<longleftrightarrow> lo \<noteq> 0 \<and> (\<exists>q. evaluate lo = Ok q)))"

lemma evaluate_search_Ok:
  assumes "evaluate_search curve lo profit hi evaluate s = Ok d" "search_ok lo hi 66 R s"
    "lo \<le> hi" "{lo, hi} - {0} \<subseteq> R"
  shows "searched lo hi profit R evaluate d"
proof -
  let ?amounts = "set (candidate_slice (ss_candidates s))"
  note found = evaluate_candidates_Ok [OF assms(1) [unfolded evaluate_search_def]]
  have amounts: "R \<subseteq> ?amounts" "?amounts \<subseteq> {lo..hi} - {0}"
    using assms(2) by (auto simp: search_ok_def candidates_ok_def)
  have "length (candidate_slice (ss_candidates s)) \<le> 66"
    using assms(2) by (simp add: search_ok_def candidates_ok_def candidate_slice_def)
  then have "card ?amounts \<le> 66" using card_length order_trans by blast
  moreover have "lo \<in> ?amounts \<longleftrightarrow> lo \<noteq> 0" using amounts assms(4) by auto
  ultimately show ?thesis
    using found amounts assms(3,4) unfolding searched_def
    by (auto intro!: exI [of _ ?amounts])
qed

lemma searched_ends:
  "searched lo hi profit (({lo, hi} - {0}) \<union> W) evaluate d \<longleftrightarrow> searched lo hi profit W evaluate d"
  unfolding searched_def Un_assoc [symmetric] Un_absorb ..

lemma searched_incomplete: "largest < lo \<Longrightarrow> searched lo largest profit W f (incomplete_direction curve largest)"
  by (simp add: searched_def incomplete_direction_def)

lemma search_forward_Ok:
  assumes "search_forward m curve lo hi profit = (Ok d :: ('e, direction_search) result)" "curve_ok curve" "length (in_use curve) \<le> 16"
  shows "\<exists>largest. forward_limit m curve hi largest \<and>
    searched lo largest profit {} (evaluate_forward m curve) d"
proof -
  from assms(1) obtain largest where largest: "largest_forward_complete_amount m curve hi = (Ok largest :: ('e, u64) result)"
    by (auto simp: search_forward_def and_then_eq_Ok)
  have "evaluate_forward m curve hi \<noteq> Panic"
    using largest by (auto simp: largest_forward_complete_amount_def)
  with largest_forward_spec [where 'e = 'e, OF assms(2), of m hi] largest have limit: "forward_limit m curve hi largest"
    by fastforce
  show ?thesis
  proof (cases "largest < lo")
    case True
    with assms(1) have "d = incomplete_direction curve largest"
      unfolding search_forward_def largest by simp
    with limit searched_incomplete [OF True] show ?thesis by blast
  next
    case False
    with assms(1) have run: "and_then (over_segments (forward_segment m lo largest) (in_use curve) (start_search lo largest))
        (evaluate_search curve lo profit largest (evaluate_forward m curve)) = (Ok d :: ('e, direction_search) result)"
      unfolding search_forward_def largest by (simp add: as_slice_in_use [OF assms(2)])
    then obtain s where
      s: "over_segments (forward_segment m lo largest) (in_use curve) (start_search lo largest) = (Ok s :: ('e, search_state) result)"
      and d: "evaluate_search curve lo profit largest (evaluate_forward m curve) s = (Ok d :: ('e, direction_search) result)"
      unfolding and_then_eq_Ok by blast
    have "search_ok lo largest (2 + 4 * length (in_use curve)) (({lo, largest} - {0}) \<union> (\<Union>segment \<in> set (in_use curve). {})) s"
      using False assms(3) by (intro over_segments_ok [OF _ s] start_search_ok) (auto dest: forward_segment_ok)
    then have "search_ok lo largest 66 ({lo, largest} - {0}) s"
      using assms(3) by (auto intro: search_ok_mono)
    from evaluate_search_Ok [OF d this] False
    have "searched lo largest profit (({lo, largest} - {0}) \<union> {}) (evaluate_forward m curve) d" by simp
    with limit show ?thesis unfolding searched_ends by blast
  qed
qed

lemma search_reverse_Ok:
  assumes "search_reverse m curve lo hi profit = (Ok d :: ('e, direction_search) result)" "curve_ok curve" "length (in_use curve) \<le> 16"
  shows "searched lo (min hi (chain_end 0 (in_use curve))) profit
    (\<Union>segment \<in> set (in_use curve). reverse_wanted m lo (min hi (chain_end 0 (in_use curve))) segment)
    (evaluate_reverse m curve) d"
proof -
  let ?largest = "min hi (chain_end 0 (in_use curve))"
  let ?wanted = "\<Union>segment \<in> set (in_use curve). reverse_wanted m lo ?largest segment"
  show ?thesis
  proof (cases "?largest < lo")
    case True
    with assms(1) have "d = incomplete_direction curve ?largest"
      unfolding search_reverse_def largest_input [OF assms(2)] by (simp add: Let_def)
    with searched_incomplete [OF True] show ?thesis by blast
  next
    case False
    with assms(1) have run: "and_then (over_segments (reverse_segment m lo ?largest) (in_use curve) (start_search lo ?largest))
        (evaluate_search curve lo profit ?largest (evaluate_reverse m curve)) = (Ok d :: ('e, direction_search) result)"
      unfolding search_reverse_def largest_input [OF assms(2)] by (simp add: as_slice_in_use [OF assms(2)] Let_def)
    then obtain s where
      s: "over_segments (reverse_segment m lo ?largest) (in_use curve) (start_search lo ?largest) = (Ok s :: ('e, search_state) result)"
      and d: "evaluate_search curve lo profit ?largest (evaluate_reverse m curve) s = (Ok d :: ('e, direction_search) result)"
      unfolding and_then_eq_Ok by blast
    have le: "lo \<le> ?largest" using False by (simp only: not_less)
    then have "search_ok lo ?largest (2 + 4 * length (in_use curve)) (({lo, ?largest} - {0}) \<union> ?wanted) s"
      using assms(3) by (intro over_segments_ok [OF _ s] start_search_ok) (simp_all add: reverse_segment_ok del: min_less_iff_disj min.bounded_iff)
    then have "search_ok lo ?largest 66 (({lo, ?largest} - {0}) \<union> ?wanted) s"
      using assms(3) by (auto intro: search_ok_mono)
    from evaluate_search_Ok [OF d this le] show ?thesis unfolding searched_ends by blast
  qed
qed

section \<open>A search on the sample accounts\<close>

definition sample_market :: market_state where
  "sample_market = \<lparr>pump_base_reserve = 400000, pump_quote_reserve = 400000, pump_virtual_quote_reserve = 0,
    market_pump_fees = \<lparr>lp_fee_bps = 0, protocol_fee_bps = 0, creator_fee_bps = 0\<rparr>,
    market_pair = run_parsed_pair, market_target_is_x = True\<rparr>"

lemma sample_buys:
  "market_buy sample_market 1000 = Ok \<lparr>quote_amount_in = 1000, quote_amount_out = 996, quote_fee = 0\<rparr>"
  "market_buy sample_market 900 = Ok \<lparr>quote_amount_in = 900, quote_amount_out = 896, quote_fee = 0\<rparr>"
  by (simp_all add: market_buy_def sample_market_def eval_defs cong: eval_cong)

lemma sample_segment:
  assumes "curve_ok c" "in_use c = [\<lparr>input_start = 0, input_end = 500000, output_start = 0, output_end = 1000000,
      segment_price_q64 = 36893488147419103232, segment_fee_rate = 0, segment_swap_for_y = True,
      segment_fee_on_input = True, segment_used_indices = [0, 0], segment_used_len = 1\<rparr>]"
  shows "curve_quote_at c 996 = Ok \<lparr>cq_amount_out = 1992, cq_used_indices = [0, 0], cq_used_len = 1\<rparr>"
    "curve_quote_at c 896 = Ok \<lparr>cq_amount_out = 1792, cq_used_indices = [0, 0], cq_used_len = 1\<rparr>"
proof -
  have "chain 0 0 (in_use c)" by (simp add: assms(2) word_less_nat_alt)
  note first = curve_quote_first [OF assms(1) this]
  have "curve_quote_at c 996 = quote_in (in_use c) 996" "curve_quote_at c 896 = quote_in (in_use c) 896"
    by (rule first, simp)+
  then show "curve_quote_at c 996 = Ok \<lparr>cq_amount_out = 1992, cq_used_indices = [0, 0], cq_used_len = 1\<rparr>"
    "curve_quote_at c 896 = Ok \<lparr>cq_amount_out = 1792, cq_used_indices = [0, 0], cq_used_len = 1\<rparr>"
    by (simp_all add: assms(2) quote_in_def segment_quote_def eval_defs del: curve_quote_at_def cong: eval_cong)
qed

lemma sample_search:
  assumes "curve_ok c" "in_use c = [\<lparr>input_start = 0, input_end = 500000, output_start = 0, output_end = 1000000,
      segment_price_q64 = 36893488147419103232, segment_fee_rate = 0, segment_swap_for_y = True,
      segment_fee_on_input = True, segment_used_indices = [0, 0], segment_used_len = 1\<rparr>]"
  shows "\<exists>d. search_forward sample_market c 900 1000 500 = Ok d \<and> largest_complete d = 1000 \<and>
    best d = Some \<lparr>choice_amount_in = 1000, choice_amount_out = 1992, choice_profit = 992,
      choice_used_indices = [0, 0], choice_used_len = 1\<rparr>"
proof -
  have quotes: "evaluate_forward sample_market c 1000 =
      Ok \<lparr>cq_amount_out = 1992, cq_used_indices = [0, 0], cq_used_len = 1\<rparr>"
    "evaluate_forward sample_market c 900 =
      Ok \<lparr>cq_amount_out = 1792, cq_used_indices = [0, 0], cq_used_len = 1\<rparr>"
    by (simp_all add: evaluate_forward_def sample_buys sample_segment [OF assms] del: curve_quote_at_def)
  have boundary: "pump_input_at_or_below_target_out sample_market 500000 = Err ()"
    by (simp add: pump_input_at_or_below_target_out_def sample_market_def)
  have "candidate_slice (push_unique 900 candidates_new) = [900]"
    by (simp add: candidate_slice_def push_unique_def candidates_new_def MAX_DYNAMIC_CANDIDATES_def
      MAX_QUOTE_VISITED_BINS_PER_DIRECTION_def first_written)
  moreover have "candidate_len (push_unique 900 candidates_new) = 1"
    "length (candidate_values (push_unique 900 candidates_new)) = 66"
    by (simp_all add: candidate_slice_def push_unique_def candidates_new_def MAX_DYNAMIC_CANDIDATES_def
      MAX_QUOTE_VISITED_BINS_PER_DIRECTION_def)
  ultimately have "candidate_slice (push_unique 1000 (push_unique 900 candidates_new)) = [900, 1000]"
    by (simp add: push_unique_slice)
  then show ?thesis
    by (simp add: search_forward_def largest_forward_complete_amount_def quotes as_slice_in_use [OF assms(1)]
        assms(2) forward_segment_def boundary start_search_def evaluate_search_def evaluate_candidates_def
        consider_quote_def checked_sub_def better_choice_def Let_def)
qed


section \<open>Property\<close>

text \<open>C29. A search of either direction over a built curve reports the best choice among the amounts it
  tried: those lie in the range from the smallest amount to the largest complete one, at most 66
  and without zero, and always hold both ends of the range and, in the reverse direction, the end of
  every segment and every interior optimum in the range with its neighbours.  The largest complete
  amount is the end of the curve in the reverse direction; in the forward direction it is the whole
  range when its end can be quoted, and otherwise an amount whose purchase the curve still takes
  while it does not take that of the next.\<close>

theorem direction_search_best:
  assumes "build_curve curve_new st pair arrays ext d t limit = Ok curve"
  shows "(search_forward m curve lo hi profit = (Ok forward :: (program_error, direction_search) result) \<longrightarrow>
      (\<exists>largest. forward_limit m curve hi largest \<and>
        searched lo largest profit {} (evaluate_forward m curve) forward)) \<and>
    (search_reverse m curve lo hi profit = (Ok reverse :: (program_error, direction_search) result) \<longrightarrow>
      (let largest = min hi (chain_end 0 (in_use curve)) in
        searched lo largest profit (\<Union>segment \<in> set (in_use curve). reverse_wanted m lo largest segment)
          (evaluate_reverse m curve) reverse))"
proof -
  obtain i l where "fee_on_input pair d = Ok i" "supports_limit_orders pair = Ok l"
    by (rule build_curve_switches [OF assms])
  from build_curve_Ok [OF assms curve_new_ok(1) this] have ok: "curve_ok curve" by blast
  then have "length (in_use curve) \<le> 16" by (simp add: curve_ok_def in_use_def)
  with search_forward_Ok [OF _ ok] search_reverse_Ok [OF _ ok] show ?thesis by (auto simp: Let_def)
qed

theorem direction_search_best_witness:
  "\<exists>c d amounts. build_curve curve_new run_store run_parsed_pair run_bin_arrays None True 1000 998 = Ok c \<and>
    search_forward sample_market c 900 1000 500 = (Ok d :: (program_error, direction_search) result) \<and>
    {900, 1000} \<subseteq> amounts \<and>
    best_of (qualifies 900 1000 500 (evaluate_forward sample_market c) amounts) (best d) \<and>
    map_option choice_profit (best d) = Some 992"
proof -
  obtain c where c: "build_curve curve_new run_store run_parsed_pair run_bin_arrays None True 1000 998 = Ok c"
    "in_use c = [\<lparr>input_start = 0, input_end = 500000, output_start = 0, output_end = 1000000,
      segment_price_q64 = 36893488147419103232, segment_fee_rate = 0, segment_swap_for_y = True,
      segment_fee_on_input = True, segment_used_indices = [0, 0], segment_used_len = 1\<rparr>]"
    using run_curve [of 998] by auto
  have "curve_ok c" using build_curve_Ok [OF c(1) curve_new_ok(1) run_modes(1,2)] by blast
  from sample_search [OF this c(2)] obtain d where
    d: "search_forward sample_market c 900 1000 500 = (Ok d :: (program_error, direction_search) result)"
    "largest_complete d = 1000" "map_option choice_profit (best d) = Some 992"
    by (metis (mono_tags, lifting) direction_choice.select_convs(3) option.simps(9))
  have "\<exists>largest. forward_limit sample_market c 1000 largest \<and>
      searched 900 largest 500 {} (evaluate_forward sample_market c) d"
    using direction_search_best [OF c(1), of sample_market 900 1000 500 d] d(1) by blast
  then have "searched 900 1000 500 {} (evaluate_forward sample_market c) d"
    using d(2) by (auto simp: searched_def)
  then obtain amounts where "{900, 1000} \<subseteq> amounts"
    "best_of (qualifies 900 1000 500 (evaluate_forward sample_market c) amounts) (best d)"
    by (auto simp: searched_def)
  with c(1) d(1,3) show ?thesis by blast
qed

end
