(* ===== verification/Dynamic_Amount.thy ===== *)
theory Dynamic_Amount
  imports Direction_Search
begin

text \<open>
  The instruction of \<^verbatim>\<open>instructions/dynamic_amount.rs\<close>: the market is read from the accounts, both
  directions are probed at the smallest amount, the promising ones are searched, and the best amount
  and direction are executed.
\<close>

section \<open>Arguments and market\<close>

record dynamic_args =
  min_wsol_amount_in :: u64
  max_wsol_amount_in :: u64
  dynamic_min_profit_lamports :: u64

definition validate_dynamic_args :: "dynamic_args \<Rightarrow> (program_error, unit) result" where
  "validate_dynamic_args args =
    ensure (0 < min_wsol_amount_in args \<and> min_wsol_amount_in args \<le> max_wsol_amount_in args \<and>
      0 < dynamic_min_profit_lamports args) InvalidDynamicAmountRange"

definition parse_market ::
    "env \<Rightarrow> store \<Rightarrow> execute_route \<Rightarrow> (program_error, market_state) result" where
  "parse_market env st r =
    and_then (map_err account_error (parse_pump_pool (info_data st (er_pump_pool r)))) (\<lambda>pool.
    and_then (map_err account_error
      (token_amount (info_data st (er_pump_pool_base_token_account r)))) (\<lambda>base_reserve.
    and_then (map_err account_error
      (token_amount (info_data st (er_pump_pool_quote_token_account r)))) (\<lambda>quote_reserve.
    and_then (ok_or (Arb ArithmeticOverflow)
      (checked_add quote_reserve (pool_virtual_quote_reserves pool))) (\<lambda>effective_quote_reserve.
    let expected_pump_creator = env_find_program_address env
      [ascii ''pool-authority'', info_key (er_target_mint r)] PUMP_PROGRAM_ID in
    and_then (map_err account_error
      (parse_pump_global_fees (info_data st (er_pump_global_config r)))) (\<lambda>global.
    and_then (map_err incomplete
      (select_pump_fees_from_data (info_data st (er_pump_fee_config r)) global
        (pool_creator pool = expected_pump_creator) (er_target_mint_supply r) base_reserve
        effective_quote_reserve)) (\<lambda>fees.
    let fees = (if pool_coin_creator pool = replicate 32 0 then fees \<lparr>creator_fee_bps := 0\<rparr>
      else fees) in
    and_then (map_err account_error (parse_lb_pair (info_data st (er_meteora_lb_pair r)))) (\<lambda>pair.
    and_then (parse_meteora_pair (info_data st (er_meteora_lb_pair r))) (\<lambda>prefix.
    Ok \<lparr>pump_base_reserve = base_reserve, pump_quote_reserve = quote_reserve,
       pump_virtual_quote_reserve = pool_virtual_quote_reserves pool, market_pump_fees = fees,
       market_pair = pair,
       market_target_is_x = (pair_token_x_mint prefix = info_key (er_target_mint r))\<rparr>))))))))"

section \<open>Probing and searching a direction\<close>

record search_bounds =
  bounds_min_amount :: u64
  bounds_max_amount :: u64
  bounds_min_profit :: u64

definition probe_minimum ::
    "dlmm_curve \<Rightarrow> search_bounds \<Rightarrow> u64 \<Rightarrow> (quote_error, curve_quote) result
      \<Rightarrow> (program_error, direction_search) result" where
  "probe_minimum curve bounds largest evaluate =
    (if largest < bounds_min_amount bounds then Ok (incomplete_direction curve largest)
     else
       and_then (ok evaluate) (\<lambda>quoted.
       case quoted of
         None \<Rightarrow> Ok (incomplete_direction curve largest)
       | Some quote \<Rightarrow>
           let profit = saturating_sub (cq_amount_out quote) (bounds_min_amount bounds);
               choice = (if bounds_min_profit bounds \<le> profit
                 then Some \<lparr>choice_amount_in = bounds_min_amount bounds,
                   choice_amount_out = cq_amount_out quote, choice_profit = profit,
                   choice_used_indices = cq_used_indices quote,
                   choice_used_len = cq_used_len quote\<rparr>
                 else None) in
           Ok \<lparr>best = choice, complete_seen = True, minimum_quote_complete = True,
              minimum_amount_out = cq_amount_out quote, largest_complete = largest,
              boundary_candidates = 0, interior_candidates = 0,
              search_visited_bins = curve_visited_bins curve, search_stop = curve_stop curve\<rparr>))"

text \<open>\<open>pump_buy_amount_out(market, amount).unwrap_or(u64::MAX)\<close>.\<close>

definition forward_input_limit :: "market_state \<Rightarrow> u64 \<Rightarrow> (program_error, u64) result" where
  "forward_input_limit m amount =
    map_ok (\<lambda>out. case out of Some limit \<Rightarrow> limit | None \<Rightarrow> - 1) (ok (pump_buy_amount_out m amount))"

definition probe_forward_direction ::
    "store \<Rightarrow> account_info list \<Rightarrow> u8 list option \<Rightarrow> bool \<Rightarrow> i64 \<Rightarrow> market_state \<Rightarrow> search_bounds
      \<Rightarrow> (program_error, direction_search) result" where
  "probe_forward_direction st arrays ext swap_for_y timestamp m bounds =
    and_then (forward_input_limit m (bounds_min_amount bounds)) (\<lambda>input_limit.
    and_then (build_curve curve_new st (market_pair m) arrays ext swap_for_y timestamp input_limit)
      (\<lambda>curve.
    and_then (largest_forward_complete_amount m curve (bounds_min_amount bounds)) (\<lambda>largest.
    probe_minimum curve bounds largest (evaluate_forward m curve (bounds_min_amount bounds)))))"

definition probe_reverse_direction ::
    "store \<Rightarrow> account_info list \<Rightarrow> u8 list option \<Rightarrow> bool \<Rightarrow> i64 \<Rightarrow> market_state \<Rightarrow> search_bounds
      \<Rightarrow> (program_error, direction_search) result" where
  "probe_reverse_direction st arrays ext swap_for_y timestamp m bounds =
    and_then (build_curve curve_new st (market_pair m) arrays ext swap_for_y timestamp
      (bounds_min_amount bounds)) (\<lambda>curve.
    and_then (largest_complete_input curve) (\<lambda>complete.
    probe_minimum curve bounds (min (bounds_min_amount bounds) complete)
      (evaluate_reverse m curve (bounds_min_amount bounds))))"

definition search_forward_direction ::
    "store \<Rightarrow> account_info list \<Rightarrow> u8 list option \<Rightarrow> bool \<Rightarrow> i64 \<Rightarrow> market_state \<Rightarrow> search_bounds
      \<Rightarrow> (program_error, direction_search) result" where
  "search_forward_direction st arrays ext swap_for_y timestamp m bounds =
    and_then (forward_input_limit m (bounds_max_amount bounds)) (\<lambda>input_limit.
    and_then (build_curve curve_new st (market_pair m) arrays ext swap_for_y timestamp input_limit)
      (\<lambda>curve.
    search_forward m curve (bounds_min_amount bounds) (bounds_max_amount bounds)
      (bounds_min_profit bounds)))"

definition search_reverse_direction ::
    "store \<Rightarrow> account_info list \<Rightarrow> u8 list option \<Rightarrow> bool \<Rightarrow> i64 \<Rightarrow> market_state \<Rightarrow> search_bounds
      \<Rightarrow> (program_error, direction_search) result" where
  "search_reverse_direction st arrays ext swap_for_y timestamp m bounds =
    and_then (build_curve curve_new st (market_pair m) arrays ext swap_for_y timestamp
      (bounds_max_amount bounds)) (\<lambda>curve.
    search_reverse m curve (bounds_min_amount bounds) (bounds_max_amount bounds)
      (bounds_min_profit bounds))"

section \<open>Deciding\<close>

definition directions_to_expand ::
    "direction_search \<Rightarrow> direction_search \<Rightarrow> u64 \<Rightarrow> u64 \<Rightarrow> bool \<times> bool" where
  "directions_to_expand forward reverse min_amount max_amount =
    (if max_amount = min_amount then (False, False)
     else (minimum_quote_complete forward \<and> min_amount < minimum_amount_out forward,
       minimum_quote_complete reverse \<and> min_amount < minimum_amount_out reverse))"

datatype dynamic_decision =
    Selected route_direction direction_choice
  | QuoteIncomplete
  | NoProfit

definition decide_dynamic_search :: "direction_search \<Rightarrow> direction_search \<Rightarrow> dynamic_decision" where
  "decide_dynamic_search forward reverse =
    (case (best forward, best reverse) of
      (Some forward_choice, Some reverse_choice) \<Rightarrow>
        if better_choice reverse_choice forward_choice then Selected MeteoraToPump reverse_choice
        else Selected PumpToMeteora forward_choice
    | (Some choice, None) \<Rightarrow> Selected PumpToMeteora choice
    | (None, Some choice) \<Rightarrow> Selected MeteoraToPump choice
    | (None, None) \<Rightarrow>
        if minimum_quote_complete forward \<and> minimum_quote_complete reverse then NoProfit
        else QuoteIncomplete)"

record dynamic_selected =
  selected_direction :: route_direction
  selected_choice :: direction_choice
  selected_largest_complete :: u64
  selected_boundary_candidates :: u8
  selected_interior_candidates :: u8
  selected_visited_bins :: u8

definition no_search :: direction_search where
  "no_search = \<lparr>best = None, complete_seen = False, minimum_quote_complete = False,
     minimum_amount_out = 0, largest_complete = 0, boundary_candidates = 0, interior_candidates = 0,
     search_visited_bins = 0, search_stop = NoUsableLiquidity\<rparr>"

definition select_dynamic ::
    "env \<Rightarrow> store \<Rightarrow> execute_route \<Rightarrow> account_info list \<Rightarrow> u64 \<Rightarrow> u64 \<Rightarrow> u64 \<Rightarrow> i64
      \<Rightarrow> (program_error, dynamic_selected) result" where
  "select_dynamic env st r arrays min_amount max_amount min_profit timestamp =
    and_then (parse_market env st r) (\<lambda>m.
    let ext = bitmap_extension_data st r;
        bounds = \<lparr>bounds_min_amount = min_amount, bounds_max_amount = max_amount,
          bounds_min_profit = min_profit\<rparr>;
        minimum_bounds = bounds \<lparr>bounds_max_amount := min_amount\<rparr> in
    and_then (probe_forward_direction st arrays ext (market_target_is_x m) timestamp m minimum_bounds)
      (\<lambda>forward_minimum.
    and_then (cashback_sell_is_ready st (pump_accounts r)) (\<lambda>ready.
    and_then
      (if ready
       then probe_reverse_direction st arrays ext (\<not> market_target_is_x m) timestamp m minimum_bounds
       else Ok no_search) (\<lambda>reverse_minimum.
    let (expand_forward, expand_reverse) =
      directions_to_expand forward_minimum reverse_minimum min_amount max_amount in
    and_then
      (if expand_forward
       then search_forward_direction st arrays ext (market_target_is_x m) timestamp m bounds
       else Ok forward_minimum) (\<lambda>forward.
    and_then
      (if expand_reverse
       then search_reverse_direction st arrays ext (\<not> market_target_is_x m) timestamp m bounds
       else Ok reverse_minimum) (\<lambda>reverse.
    case decide_dynamic_search forward reverse of
      QuoteIncomplete \<Rightarrow> Err (Arb BestDirectionQuoteIncomplete)
    | NoProfit \<Rightarrow> Err (Arb NoProfitableDirection)
    | Selected direction choice \<Rightarrow>
        let stats = (case direction of PumpToMeteora \<Rightarrow> forward | MeteoraToPump \<Rightarrow> reverse) in
        Ok \<lparr>selected_direction = direction, selected_choice = choice,
           selected_largest_complete = largest_complete stats,
           selected_boundary_candidates = boundary_candidates stats,
           selected_interior_candidates = interior_candidates stats,
           selected_visited_bins = search_visited_bins stats\<rparr>))))))"

section \<open>The instruction\<close>

definition dynamic_amount_handler ::
    "env \<Rightarrow> execute_route \<Rightarrow> account_info list \<Rightarrow> dynamic_args \<Rightarrow> exec \<Rightarrow> (program_error, exec) result" where
  "dynamic_amount_handler env r remaining args s =
    (let st = exec_store s; min_amount = min_wsol_amount_in args;
         min_profit = dynamic_min_profit_lamports args in
     and_then (validate_dynamic_args args) (\<lambda>_.
     and_then (validate_route_mints env r s) (\<lambda>_.
     and_then (validate_quote_accounts env st r remaining) (\<lambda>_.
     let balance_limited_max = min (max_wsol_amount_in args) (token_balance (exec_wsol s)) in
     and_then (ensure (min_amount \<le> balance_limited_max) InvalidDynamicAmountRange) (\<lambda>_.
     and_then (ok_or ClockUnavailable (env_clock env)) (\<lambda>timestamp.
     and_then (select_dynamic env st r remaining min_amount balance_limited_max min_profit timestamp)
       (\<lambda>selection.
     let choice = selected_choice selection in
     and_then (ensure (min_amount \<le> choice_amount_in choice \<and>
       choice_amount_in choice \<le> balance_limited_max) InvalidDynamicAmountRange) (\<lambda>_.
     and_then (if choice_used_len choice \<le> length (choice_used_indices choice)
       then ordered_bin_arrays st remaining (take (choice_used_len choice) (choice_used_indices choice))
       else Panic) (\<lambda>selected_bin_arrays.
     execute_direction env r selected_bin_arrays (choice_amount_in choice) min_profit
       (selected_direction selection)
       (emit (DynamicAmountSelected
         \<lparr>sel_direction = selected_direction selection, sel_min_wsol_amount_in = min_amount,
          sel_max_wsol_amount_in = max_wsol_amount_in args,
          sel_balance_limited_max = balance_limited_max,
          sel_largest_complete_amount = selected_largest_complete selection,
          sel_actual_wsol_amount_in = choice_amount_in choice,
          sel_expected_wsol_amount_out = choice_amount_out choice,
          sel_expected_profit_lamports = choice_profit choice,
          sel_visited_bins = selected_visited_bins selection,
          sel_boundary_candidates = selected_boundary_candidates selection,
          sel_interior_candidates = selected_interior_candidates selection,
          sel_early_stop_used = False\<rparr>) s))))))))))"

section \<open>The market\<close>

definition market_of :: "pool_inputs \<Rightarrow> market_state" where
  "market_of p = \<lparr>pump_base_reserve = in_base_reserve p, pump_quote_reserve = in_quote_reserve p,
     pump_virtual_quote_reserve = in_virtual_quote_reserves p, market_pump_fees = in_fees p,
     market_pair = in_pair p, market_target_is_x = in_target_is_x p\<rparr>"

lemma market_of_simps [simp]:
  "market_pair (market_of p) = in_pair p" "market_target_is_x (market_of p) = in_target_is_x p"
  "market_buy (market_of p) = pump_buy_quote p" "market_sell (market_of p) = pump_sell_quote p"
  by (simp_all add: market_of_def market_buy_def market_sell_def pump_buy_quote_def pump_sell_quote_def fun_eq_iff)

lemma map_ok_and_then: "map_ok g (and_then x f) = and_then x (\<lambda>y. map_ok g (f y))"
  by (cases x) simp_all

lemma parse_market_reads: "parse_market env st r = map_ok market_of (read_inputs env st r)"
  unfolding parse_market_def read_inputs_def Let_def map_ok_and_then
  by (simp add: market_of_def)

section \<open>The quotes of a curve are account quotes\<close>

lemma chain_end_above: "chain i out ss \<Longrightarrow> s \<in> set ss \<Longrightarrow> input_end s \<le> chain_end i ss"
proof (induction ss arbitrary: i out)
  case (Cons u ss)
  show ?case
  proof (cases "s \<in> set ss")
    case False
    with Cons.prems have "s = u" by simp
    moreover have "input_end u \<le> chain_end (input_end u) ss"
    proof (cases "ss = []")
      case False
      then have "last ss \<in> set ss" by simp
      with chain_above [of _ _ ss "last ss"] Cons.prems(1) False show ?thesis
        by (auto simp: chain_end_last intro: less_imp_le)
    qed simp
    ultimately show ?thesis by simp
  qed (use Cons in auto)
qed simp

lemma curve_quote_Ok:
  assumes "curve_ok c" "chain 0 0 (in_use c)" "curve_quote_at c a = Ok q"
  shows "a \<noteq> 0 \<and> a \<le> chain_end 0 (in_use c)"
proof -
  have "a \<noteq> 0" using assms(3) by (auto simp: curve_quote_at_def)
  with assms(3) have "quote_in (in_use c) a = Ok q" by (simp add: curve_quote_first [OF assms(1,2)])
  then obtain s where "find (\<lambda>s. a \<le> input_end s) (in_use c) = Some s"
    by (auto simp: quote_in_def result_iff)
  then have s: "s \<in> set (in_use c)" "a \<le> input_end s" by (auto simp: find_Some_iff)
  have "input_end s \<le> chain_end 0 (in_use c)" using chain_end_above [OF assms(2) s(1)] .
  with s(2) \<open>a \<noteq> 0\<close> show ?thesis by simp
qed

text \<open>The quote of an amount in a direction, and the way the direction goes through the pair.\<close>

definition evaluate_direction ::
    "route_direction \<Rightarrow> market_state \<Rightarrow> dlmm_curve \<Rightarrow> u64 \<Rightarrow> (quote_error, curve_quote) result" where
  "evaluate_direction d = (case d of PumpToMeteora \<Rightarrow> evaluate_forward | MeteoraToPump \<Rightarrow> evaluate_reverse)"

definition swaps_for_y :: "route_direction \<Rightarrow> bool \<Rightarrow> bool" where
  "swaps_for_y d target_is_x = (case d of PumpToMeteora \<Rightarrow> target_is_x | MeteoraToPump \<Rightarrow> \<not> target_is_x)"

text \<open>Arrays and a fee on which the curve is exact, in both directions.\<close>

definition plain_market :: "store \<Rightarrow> lb_pair_state \<Rightarrow> account_info list \<Rightarrow> bool" where
  "plain_market st pair arrays \<longleftrightarrow> (\<forall>d i l. fee_on_input pair d = Ok i \<longrightarrow>
    supports_limit_orders pair = Ok l \<longrightarrow> plain_arrays st arrays d i l \<and> (i \<longrightarrow> uniform_fee pair))"

lemma curve_is_account_quote:
  assumes "build_curve curve_new st pair arrays ext d t limit = Ok c" "plain_market st pair arrays"
    and "curve_quote_at c a = Ok q"
  shows "\<exists>aq. quote_dlmm_from_accounts st a pair arrays ext d t = Ok aq \<and> adq_amount_out aq = cq_amount_out q \<and>
    adq_used_len aq \<le> cq_used_len q \<and>
    take (adq_used_len aq) (adq_used_indices aq) = take (adq_used_len aq) (cq_used_indices q)"
proof -
  obtain i l where modes: "fee_on_input pair d = Ok i" "supports_limit_orders pair = Ok l"
    by (rule build_curve_switches [OF assms(1)])
  from build_curve_Ok [OF assms(1) curve_new_ok(1) modes] have ok: "curve_ok c" "chain 0 0 (in_use c)" by blast+
  from assms(2) modes have plain: "plain_arrays st arrays d i l" "i \<Longrightarrow> uniform_fee pair"
    by (auto simp: plain_market_def)
  from curve_quote_Ok [OF ok assms(3)] have a: "a \<noteq> 0" "a \<le> chain_end 0 (in_use c)" by auto
  from curve_quotes_agree [OF assms(1) modes plain a] assms(3) show ?thesis by (cases "quote_dlmm_from_accounts st a pair arrays ext d t") auto
qed

lemma evaluated_is_round_trip:
  assumes "build_curve curve_new st (in_pair p) arrays (bitmap_extension_data st r)
      (swaps_for_y d (in_target_is_x p)) t limit = Ok c"
    and "plain_market st (in_pair p) arrays" "evaluate_direction d (market_of p) c a = Ok q"
    and "d = MeteoraToPump \<Longrightarrow> cashback_sell_is_ready st (pump_accounts r) = Ok True"
  shows "\<exists>k \<le> cq_used_len q. round_trip st r p arrays a t d = Ok (Some (cq_amount_out q, take k (cq_used_indices q)))"
proof (cases d)
  case PumpToMeteora
  with assms(3) obtain buy where "pump_buy_quote p a = Ok buy" "curve_quote_at c (quote_amount_out buy) = Ok q"
    by (auto simp: evaluate_direction_def evaluate_forward_def result_iff)
  with curve_is_account_quote [OF assms(1,2) this(2)] PumpToMeteora show ?thesis
    by (auto simp: round_trip_def forward_quote_def swaps_for_y_def)
next
  case MeteoraToPump
  with assms(3) obtain dq sell where "curve_quote_at c a = Ok dq" "pump_sell_quote p (cq_amount_out dq) = Ok sell"
    "q = dq \<lparr>cq_amount_out := quote_amount_out sell\<rparr>"
    by (auto simp: evaluate_direction_def evaluate_reverse_def result_iff)
  with curve_is_account_quote [OF assms(1,2) this(1)] MeteoraToPump assms(4) show ?thesis
    by (auto simp: round_trip_def reverse_quote_def swaps_for_y_def)
qed

section \<open>Each direction's choice\<close>

text \<open>A choice is quoted when a curve of the direction evaluates its amount to its output, the amount is
  in the range and the profit is what the output leaves, and enough.\<close>

definition quoted_choice ::
    "store \<Rightarrow> account_info list \<Rightarrow> u8 list option \<Rightarrow> i64 \<Rightarrow> market_state \<Rightarrow> search_bounds
      \<Rightarrow> route_direction \<Rightarrow> direction_choice \<Rightarrow> bool" where
  "quoted_choice st arrays ext t m bounds d ch \<longleftrightarrow> (\<exists>limit c q.
    build_curve curve_new st (market_pair m) arrays ext (swaps_for_y d (market_target_is_x m)) t limit = Ok c \<and>
    evaluate_direction d m c (choice_amount_in ch) = Ok q \<and> ch = choice_of (choice_amount_in ch) q \<and>
    bounds_min_amount bounds \<le> choice_amount_in ch \<and> choice_amount_in ch \<le> bounds_max_amount bounds \<and>
    choice_amount_in ch \<le> choice_amount_out ch \<and> bounds_min_profit bounds \<le> choice_profit ch)"

lemma searched_choice:
  assumes "searched lo largest profit W evaluate d" "best d = Some ch"
  shows "lo \<le> choice_amount_in ch \<and> choice_amount_in ch \<le> largest \<and> profit \<le> choice_profit ch \<and>
    choice_amount_in ch \<le> choice_amount_out ch \<and>
    (\<exists>q. evaluate (choice_amount_in ch) = Ok q \<and> ch = choice_of (choice_amount_in ch) q)"
proof -
  from assms obtain amounts where "best_of (qualifies lo largest profit evaluate amounts) (Some ch)"
    by (auto simp: searched_def split: if_splits)
  then have "qualifies lo largest profit evaluate amounts ch" by (simp add: best_of_def)
  then show ?thesis by (auto simp: qualifies_def choice_of_def)
qed

lemma built_curve_ok:
  assumes "build_curve curve_new st pair arrays ext d t limit = Ok c"
  shows "curve_ok c" "length (in_use c) \<le> 16"
proof -
  obtain i l where "fee_on_input pair d = Ok i" "supports_limit_orders pair = Ok l"
    by (rule build_curve_switches [OF assms])
  from build_curve_Ok [OF assms curve_new_ok(1) this] show "curve_ok c" by blast
  then show "length (in_use c) \<le> 16" by (simp add: curve_ok_def in_use_def)
qed

lemma search_forward_choice:
  assumes "search_forward_direction st arrays ext (market_target_is_x m) t m bounds = Ok d" "best d = Some ch"
  shows "quoted_choice st arrays ext t m bounds PumpToMeteora ch"
proof -
  from assms(1) obtain limit c where
    c: "build_curve curve_new st (market_pair m) arrays ext (market_target_is_x m) t limit = Ok c" and
    d: "search_forward m c (bounds_min_amount bounds) (bounds_max_amount bounds) (bounds_min_profit bounds) =
      (Ok d :: (program_error, direction_search) result)"
    by (auto simp: search_forward_direction_def result_iff)
  from search_forward_Ok [OF d built_curve_ok [OF c]] obtain largest where
    "largest \<le> bounds_max_amount bounds"
    "searched (bounds_min_amount bounds) largest (bounds_min_profit bounds) {} (evaluate_forward m c) d"
    by (auto simp: forward_limit_def)
  with searched_choice [OF this(2) assms(2)] c show ?thesis
    by (auto simp: quoted_choice_def evaluate_direction_def swaps_for_y_def intro: order_trans)
qed

lemma search_reverse_choice:
  assumes "search_reverse_direction st arrays ext (\<not> market_target_is_x m) t m bounds = Ok d" "best d = Some ch"
  shows "quoted_choice st arrays ext t m bounds MeteoraToPump ch"
proof -
  from assms(1) obtain limit c where
    c: "build_curve curve_new st (market_pair m) arrays ext (\<not> market_target_is_x m) t limit = Ok c" and
    d: "search_reverse m c (bounds_min_amount bounds) (bounds_max_amount bounds) (bounds_min_profit bounds) =
      (Ok d :: (program_error, direction_search) result)"
    by (auto simp: search_reverse_direction_def result_iff)
  from searched_choice [OF search_reverse_Ok [OF d built_curve_ok [OF c]] assms(2)] c show ?thesis
    by (auto simp: quoted_choice_def evaluate_direction_def swaps_for_y_def)
qed

lemma probe_choice:
  assumes "probe_minimum c bounds largest (evaluate_direction d m c (bounds_min_amount bounds)) = Ok r"
    and "best r = Some ch" "bounds_min_profit bounds \<noteq> 0" "bounds_min_amount bounds \<le> bounds_max_amount bounds"
    and "build_curve curve_new st (market_pair m) arrays ext (swaps_for_y d (market_target_is_x m)) t limit = Ok c"
  shows "quoted_choice st arrays ext t m bounds d ch"
proof -
  from assms(1,2) obtain q where q: "evaluate_direction d m c (bounds_min_amount bounds) = Ok q"
    "bounds_min_profit bounds \<le> saturating_sub (cq_amount_out q) (bounds_min_amount bounds)"
    "ch = \<lparr>choice_amount_in = bounds_min_amount bounds, choice_amount_out = cq_amount_out q,
       choice_profit = saturating_sub (cq_amount_out q) (bounds_min_amount bounds),
       choice_used_indices = cq_used_indices q, choice_used_len = cq_used_len q\<rparr>"
    by (auto simp: probe_minimum_def incomplete_direction_def result_iff Let_def split: if_splits option.splits)
  have "bounds_min_amount bounds \<le> cq_amount_out q"
    using q(2) assms(3) by (auto simp: saturating_sub_def split: if_splits)
  with q assms(4,5) show ?thesis
    unfolding quoted_choice_def by (intro exI [of _ limit] exI [of _ c] exI [of _ q])
      (auto simp: choice_of_def saturating_sub_def)
qed

lemma probe_forward_choice:
  assumes "probe_forward_direction st arrays ext (market_target_is_x m) t m bounds = Ok r" "best r = Some ch"
    and "bounds_min_profit bounds \<noteq> 0" "bounds_min_amount bounds \<le> bounds_max_amount bounds"
  shows "quoted_choice st arrays ext t m bounds PumpToMeteora ch"
  using assms(1) probe_choice [OF _ assms(2-4), where d = PumpToMeteora]
  by (auto simp: probe_forward_direction_def evaluate_direction_def swaps_for_y_def result_iff)

lemma probe_reverse_choice:
  assumes "probe_reverse_direction st arrays ext (\<not> market_target_is_x m) t m bounds = Ok r" "best r = Some ch"
    and "bounds_min_profit bounds \<noteq> 0" "bounds_min_amount bounds \<le> bounds_max_amount bounds"
  shows "quoted_choice st arrays ext t m bounds MeteoraToPump ch"
  using assms(1) probe_choice [OF _ assms(2-4), where d = MeteoraToPump]
  by (auto simp: probe_reverse_direction_def evaluate_direction_def swaps_for_y_def result_iff)

section \<open>The decision\<close>

lemma decide_optimal:
  assumes "best_of P (best f)" "best_of Q (best r)"
  shows "case decide_dynamic_search f r of
      Selected d c \<Rightarrow> (case d of PumpToMeteora \<Rightarrow> P c | MeteoraToPump \<Rightarrow> Q c) \<and>
        (\<forall>c'. P c' \<or> Q c' \<longrightarrow> at_least_as_good c c')
    | NoProfit \<Rightarrow> (\<forall>c. \<not> P c \<and> \<not> Q c) \<and> minimum_quote_complete f \<and> minimum_quote_complete r
    | QuoteIncomplete \<Rightarrow> (\<forall>c. \<not> P c \<and> \<not> Q c) \<and>
        \<not> (minimum_quote_complete f \<and> minimum_quote_complete r)"
  using assms
  by (cases "best f"; cases "best r")
    (auto simp: decide_dynamic_search_def best_of_def not_better dest: better_at_least
      intro: at_least_as_good_trans)

lemma decide_selected:
  assumes "decide_dynamic_search f r = Selected d c"
  shows "best (case d of PumpToMeteora \<Rightarrow> f | MeteoraToPump \<Rightarrow> r) = Some c"
  using assms by (auto simp: decide_dynamic_search_def split: option.splits if_splits)

lemma decision_eq_Ok:
  "(case x of Selected d c \<Rightarrow> Ok (F d c) | QuoteIncomplete \<Rightarrow> Err a | NoProfit \<Rightarrow> Err b) = Ok s \<longleftrightarrow>
    (\<exists>d c. x = Selected d c \<and> s = F d c)"
  by (cases x) auto

lemma select_dynamic_choice:
  assumes "select_dynamic env st r arrays lo hi profit t = Ok s" "profit \<noteq> 0" "lo \<le> hi"
  shows "\<exists>p. read_inputs env st r = Ok p \<and>
    quoted_choice st arrays (bitmap_extension_data st r) t (market_of p)
      \<lparr>bounds_min_amount = lo, bounds_max_amount = hi, bounds_min_profit = profit\<rparr>
      (selected_direction s) (selected_choice s) \<and>
    (selected_direction s = MeteoraToPump \<longrightarrow> cashback_sell_is_ready st (pump_accounts r) = Ok True)"
proof -
  let ?ext = "bitmap_extension_data st r"
  let ?bounds = "\<lparr>bounds_min_amount = lo, bounds_max_amount = hi, bounds_min_profit = profit\<rparr>"
  let ?lowest = "?bounds \<lparr>bounds_max_amount := lo\<rparr>"
  from assms(1) obtain m fm ready rm f v where
    m: "parse_market env st r = Ok m" and
    fm: "probe_forward_direction st arrays ?ext (market_target_is_x m) t m ?lowest = Ok fm" and
    ready: "cashback_sell_is_ready st (pump_accounts r) = Ok ready" and
    rm: "(if ready then probe_reverse_direction st arrays ?ext (\<not> market_target_is_x m) t m ?lowest
      else Ok no_search) = Ok rm" and
    f: "(if fst (directions_to_expand fm rm lo hi)
      then search_forward_direction st arrays ?ext (market_target_is_x m) t m ?bounds else Ok fm) = Ok f" and
    v: "(if snd (directions_to_expand fm rm lo hi)
      then search_reverse_direction st arrays ?ext (\<not> market_target_is_x m) t m ?bounds else Ok rm) = Ok v" and
    decision: "decide_dynamic_search f v = Selected (selected_direction s) (selected_choice s)"
    unfolding select_dynamic_def Let_def case_prod_unfold
    by (auto simp: result_iff decision_eq_Ok)
  obtain p where p: "read_inputs env st r = Ok p" "m = market_of p"
    using m by (auto simp: parse_market_reads result_iff)
  have widen: "quoted_choice st arrays ?ext t m ?lowest d ch \<Longrightarrow> quoted_choice st arrays ?ext t m ?bounds d ch"
    for d ch using assms(3) unfolding quoted_choice_def
    by (elim exE conjE, intro exI conjI) (assumption | simp)+
  have forward: "best f = Some ch \<Longrightarrow> quoted_choice st arrays ?ext t m ?bounds PumpToMeteora ch" for ch
    using f fm search_forward_choice [of st arrays ?ext m t ?bounds f ch] assms(2)
      widen [OF probe_forward_choice [of st arrays ?ext m t ?lowest fm ch]]
    by (auto split: if_splits)
  have reverse: "best v = Some ch \<Longrightarrow> ready \<and> quoted_choice st arrays ?ext t m ?bounds MeteoraToPump ch" for ch
    using v rm search_reverse_choice [of st arrays ?ext m t ?bounds v ch] assms(2)
      widen [OF probe_reverse_choice [of st arrays ?ext m t ?lowest rm ch]]
    by (auto simp: no_search_def directions_to_expand_def split: if_splits)
  from decide_selected [OF decision] forward reverse ready p show ?thesis
    by (cases "selected_direction s") auto
qed

lemma select_dynamic_exact:
  assumes "select_dynamic env st r arrays lo hi profit t = Ok s" "profit \<noteq> 0" "lo \<le> hi"
    and "read_inputs env st r = Ok p" "plain_market st (in_pair p) arrays"
  shows "let c = selected_choice s in lo \<le> choice_amount_in c \<and> choice_amount_in c \<le> hi \<and>
    unat (choice_amount_out c) = unat (choice_amount_in c) + unat (choice_profit c) \<and>
    profit \<le> choice_profit c \<and>
    (\<exists>k \<le> choice_used_len c. round_trip st r p arrays (choice_amount_in c) t (selected_direction s) =
      Ok (Some (choice_amount_out c, take k (choice_used_indices c))))"
proof -
  let ?c = "selected_choice s"
  from select_dynamic_choice [OF assms(1-3)] assms(4) obtain limit c q where
    c: "build_curve curve_new st (in_pair p) arrays (bitmap_extension_data st r)
      (swaps_for_y (selected_direction s) (in_target_is_x p)) t limit = Ok c" and
    q: "evaluate_direction (selected_direction s) (market_of p) c (choice_amount_in ?c) = Ok q" and
    ch: "?c = choice_of (choice_amount_in ?c) q" and
    ready: "selected_direction s = MeteoraToPump \<Longrightarrow> cashback_sell_is_ready st (pump_accounts r) = Ok True" and
    range: "lo \<le> choice_amount_in ?c" "choice_amount_in ?c \<le> hi" "choice_amount_in ?c \<le> choice_amount_out ?c"
      "profit \<le> choice_profit ?c"
    by (auto simp: quoted_choice_def)
  have fields: "choice_amount_out ?c = cq_amount_out q" "choice_profit ?c = cq_amount_out q - choice_amount_in ?c"
    "choice_used_indices ?c = cq_used_indices q" "choice_used_len ?c = cq_used_len q"
    by (subst ch, simp add: choice_of_def)+
  from evaluated_is_round_trip [OF c assms(5) q ready] range show ?thesis
    by (auto simp: Let_def fields unat_sub_small word_le_nat_alt)
qed

section \<open>A run on the sample accounts\<close>

lemma run_market: "parse_market run_env run_store run_route = Ok (market_of run_inputs)"
  by (simp add: parse_market_reads run_reads)

lemma run_inputs_pair [simp]: "in_pair run_inputs = run_parsed_pair" "in_target_is_x run_inputs"
  by (simp_all add: run_inputs_def)

abbreviation run_bounds :: search_bounds where
  "run_bounds \<equiv> \<lparr>bounds_min_amount = 1000, bounds_max_amount = 1000, bounds_min_profit = 500\<rparr>"

lemma run_forward_probe:
  "\<exists>d. probe_forward_direction run_store run_bin_arrays None True 1000 (market_of run_inputs) run_bounds = Ok d \<and>
    best d = Some \<lparr>choice_amount_in = 1000, choice_amount_out = 1996, choice_profit = 996,
      choice_used_indices = [0, 0], choice_used_len = 1\<rparr>"
proof -
  obtain c where c: "build_curve curve_new run_store run_parsed_pair run_bin_arrays None True 1000 998 = Ok c"
    "in_use c = [\<lparr>input_start = 0, input_end = 500000, output_start = 0, output_end = 1000000,
      segment_price_q64 = 36893488147419103232, segment_fee_rate = 0, segment_swap_for_y = True,
      segment_fee_on_input = True, segment_used_indices = [0, 0], segment_used_len = 1\<rparr>]"
    using run_curve [of 998] by auto
  have chain: "chain 0 0 (in_use c)" by (simp add: c(2) word_less_nat_alt)
  have "curve_quote_at c 998 = quote_in (in_use c) 998"
    by (rule curve_quote_first [OF built_curve_ok(1) [OF c(1)] chain]) simp
  then have "curve_quote_at c 998 = Ok \<lparr>cq_amount_out = 1996, cq_used_indices = [0, 0], cq_used_len = 1\<rparr>"
    by (simp add: c(2) quote_in_def segment_quote_def eval_defs del: curve_quote_at_def cong: eval_cong)
  then have quoted: "evaluate_forward (market_of run_inputs) c 1000 =
      Ok \<lparr>cq_amount_out = 1996, cq_used_indices = [0, 0], cq_used_len = 1\<rparr>"
    by (simp add: evaluate_forward_def run_pump_buy)
  show ?thesis
    by (simp add: probe_forward_direction_def forward_input_limit_def pump_buy_amount_out_def run_pump_buy c(1)
        largest_forward_complete_amount_def quoted probe_minimum_def Let_def saturating_sub_def)
qed

lemma run_reverse_probe:
  "\<exists>d. probe_reverse_direction run_store run_bin_arrays None False 1000 (market_of run_inputs) run_bounds = Ok d \<and>
    best d = None"
proof -
  obtain c where c: "build_curve curve_new run_store run_parsed_pair run_bin_arrays None False 1000 1000 = Ok c"
    "in_use c = []"
    using run_curve_back by blast
  show ?thesis
    by (simp add: probe_reverse_direction_def c largest_input [OF built_curve_ok(1) [OF c(1)]]
        probe_minimum_def incomplete_direction_def)
qed

lemma run_ready:
  "bitmap_extension_data run_store run_route = None"
  "cashback_sell_is_ready run_store (pump_accounts run_route) = Ok True"
  by (simp_all add: bitmap_extension_data_def cashback_sell_is_ready_def pump_accounts_def run_simps
      run_pool_prefix run_lookups [OF run_like_store])

lemma run_select_dynamic:
  "\<exists>s. select_dynamic run_env run_store run_route run_bin_arrays 1000 1000 500 1000 = Ok s \<and>
    selected_direction s = PumpToMeteora \<and>
    selected_choice s = \<lparr>choice_amount_in = 1000, choice_amount_out = 1996, choice_profit = 996,
      choice_used_indices = [0, 0], choice_used_len = 1\<rparr>"
proof -
  obtain f where "probe_forward_direction run_store run_bin_arrays None True 1000 (market_of run_inputs)
      run_bounds = Ok f" "best f = Some \<lparr>choice_amount_in = 1000, choice_amount_out = 1996,
        choice_profit = 996, choice_used_indices = [0, 0], choice_used_len = 1\<rparr>"
    using run_forward_probe by blast
  moreover obtain v where "probe_reverse_direction run_store run_bin_arrays None False 1000
      (market_of run_inputs) run_bounds = Ok v" "best v = None"
    using run_reverse_probe by blast
  ultimately show ?thesis
    by (simp add: select_dynamic_def run_market run_ready directions_to_expand_def decide_dynamic_search_def)
qed

lemma run_plain_market: "plain_market run_store run_parsed_pair run_bin_arrays"
  using run_arrays_plain run_modes by (auto simp: plain_market_def run_parsed_pair_def supports_limit_orders_def)

lemma run_dynamic:
  "\<exists>s'. dynamic_amount_handler run_env run_route run_bin_arrays
      \<lparr>min_wsol_amount_in = 1000, max_wsol_amount_in = 1000, dynamic_min_profit_lamports = 500\<rparr> run_exec = Ok s' \<and>
    token_balance (exec_wsol s') = 5996"
proof -
  have state: "exec_store run_exec = run_store" "token_balance (exec_wsol run_exec) = 5000"
    "env_clock run_env = Some 1000"
    by (simp_all add: run_exec_def run_wsol_def run_env_def)
  obtain sel where sel: "select_dynamic run_env run_store run_route run_bin_arrays 1000 1000 500 1000 = Ok sel"
    "selected_direction sel = PumpToMeteora"
    "selected_choice sel = \<lparr>choice_amount_in = 1000, choice_amount_out = 1996, choice_profit = 996,
      choice_used_indices = [0, 0], choice_used_len = 1\<rparr>"
    using run_select_dynamic by blast
  have limit: "min 1000 5000 = (1000 :: u64)" by (simp add: min_def)
  show ?thesis
    unfolding dynamic_amount_handler_def
    by (simp add: state limit run_route_mints run_quote_accounts validate_dynamic_args_def require_def sel
        run_ordered execute_direction_def emit_def run_executes)
qed

section \<open>A range whose smallest amount hides the profit\<close>

lemma run_small_buy: "pump_buy_quote run_inputs 3 = Ok \<lparr>quote_amount_in = 3, quote_amount_out = 1, quote_fee = 0\<rparr>"
  by (simp add: run_inputs_def eval_defs cong: eval_cong)

lemma run_small_probes:
  "\<exists>f. probe_forward_direction run_store run_bin_arrays None True 1000 (market_of run_inputs)
      \<lparr>bounds_min_amount = 3, bounds_max_amount = 3, bounds_min_profit = 500\<rparr> = Ok f \<and>
    best f = None \<and> minimum_quote_complete f \<and> minimum_amount_out f = 2"
  "\<exists>v. probe_reverse_direction run_store run_bin_arrays None False 1000 (market_of run_inputs)
      \<lparr>bounds_min_amount = 3, bounds_max_amount = 3, bounds_min_profit = 500\<rparr> = Ok v \<and>
    best v = None \<and> \<not> minimum_quote_complete v"
proof -
  obtain c where c: "build_curve curve_new run_store run_parsed_pair run_bin_arrays None True 1000 1 = Ok c"
    "in_use c = [\<lparr>input_start = 0, input_end = 500000, output_start = 0, output_end = 1000000,
      segment_price_q64 = 36893488147419103232, segment_fee_rate = 0, segment_swap_for_y = True,
      segment_fee_on_input = True, segment_used_indices = [0, 0], segment_used_len = 1\<rparr>]"
    using run_curve [of 1] by auto
  have chain: "chain 0 0 (in_use c)" by (simp add: c(2) word_less_nat_alt)
  have "curve_quote_at c 1 = quote_in (in_use c) 1"
    by (rule curve_quote_first [OF built_curve_ok(1) [OF c(1)] chain]) simp
  then have "curve_quote_at c 1 = Ok \<lparr>cq_amount_out = 2, cq_used_indices = [0, 0], cq_used_len = 1\<rparr>"
    by (simp add: c(2) quote_in_def segment_quote_def eval_defs del: curve_quote_at_def cong: eval_cong)
  then have quoted: "evaluate_forward (market_of run_inputs) c 3 =
      Ok \<lparr>cq_amount_out = 2, cq_used_indices = [0, 0], cq_used_len = 1\<rparr>"
    by (simp add: evaluate_forward_def run_small_buy)
  show "\<exists>f. probe_forward_direction run_store run_bin_arrays None True 1000 (market_of run_inputs)
      \<lparr>bounds_min_amount = 3, bounds_max_amount = 3, bounds_min_profit = 500\<rparr> = Ok f \<and>
    best f = None \<and> minimum_quote_complete f \<and> minimum_amount_out f = 2"
    by (simp add: probe_forward_direction_def forward_input_limit_def pump_buy_amount_out_def run_small_buy c(1)
        largest_forward_complete_amount_def quoted probe_minimum_def Let_def saturating_sub_def)
  obtain v where v: "build_curve curve_new run_store run_parsed_pair run_bin_arrays None False 1000 3 = Ok v"
    "in_use v = []"
    using run_curve_back by blast
  show "\<exists>v. probe_reverse_direction run_store run_bin_arrays None False 1000 (market_of run_inputs)
      \<lparr>bounds_min_amount = 3, bounds_max_amount = 3, bounds_min_profit = 500\<rparr> = Ok v \<and>
    best v = None \<and> \<not> minimum_quote_complete v"
    by (simp add: probe_reverse_direction_def v largest_input [OF built_curve_ok(1) [OF v(1)]]
        probe_minimum_def incomplete_direction_def)
qed

lemma run_small_select:
  "select_dynamic run_env run_store run_route run_bin_arrays 3 1000 500 1000 = Err (Arb BestDirectionQuoteIncomplete)"
proof -
  obtain f where "probe_forward_direction run_store run_bin_arrays None True 1000 (market_of run_inputs)
      \<lparr>bounds_min_amount = 3, bounds_max_amount = 3, bounds_min_profit = 500\<rparr> = Ok f"
    "best f = None" "minimum_quote_complete f" "minimum_amount_out f = 2"
    using run_small_probes(1) by blast
  moreover obtain v where "probe_reverse_direction run_store run_bin_arrays None False 1000 (market_of run_inputs)
      \<lparr>bounds_min_amount = 3, bounds_max_amount = 3, bounds_min_profit = 500\<rparr> = Ok v"
    "best v = None" "\<not> minimum_quote_complete v"
    using run_small_probes(2) by blast
  ultimately show ?thesis
    by (simp add: select_dynamic_def run_market run_ready directions_to_expand_def decide_dynamic_search_def)
qed

section \<open>The executed instruction\<close>

lemma dynamic_amount_Ok:
  assumes "dynamic_amount_handler env r remaining args s = Ok s'"
  obtains t sel arrays e where
    "env_clock env = Some t"
    "select_dynamic env (exec_store s) r remaining (min_wsol_amount_in args)
      (min (max_wsol_amount_in args) (token_balance (exec_wsol s))) (dynamic_min_profit_lamports args) t = Ok sel"
    "0 < min_wsol_amount_in args" "0 < dynamic_min_profit_lamports args"
    "min_wsol_amount_in args \<le> choice_amount_in (selected_choice sel)"
    "choice_amount_in (selected_choice sel) \<le> min (max_wsol_amount_in args) (token_balance (exec_wsol s))"
    "ordered_bin_arrays (exec_store s) remaining
      (take (choice_used_len (selected_choice sel)) (choice_used_indices (selected_choice sel))) = Ok arrays"
    "execute_direction env r arrays (choice_amount_in (selected_choice sel)) (dynamic_min_profit_lamports args)
      (selected_direction sel) (emit (DynamicAmountSelected e) s) = Ok s'"
    "sel_direction e = selected_direction sel"
    "sel_actual_wsol_amount_in e = choice_amount_in (selected_choice sel)"
    "sel_expected_wsol_amount_out e = choice_amount_out (selected_choice sel)"
    "sel_expected_profit_lamports e = choice_profit (selected_choice sel)"
proof -
  from assms obtain t sel arrays where *: "validate_dynamic_args args = Ok ()" "env_clock env = Some t"
    "select_dynamic env (exec_store s) r remaining (min_wsol_amount_in args)
      (min (max_wsol_amount_in args) (token_balance (exec_wsol s))) (dynamic_min_profit_lamports args) t = Ok sel"
    "min_wsol_amount_in args \<le> choice_amount_in (selected_choice sel) \<and>
     choice_amount_in (selected_choice sel) \<le> min (max_wsol_amount_in args) (token_balance (exec_wsol s))"
    "ordered_bin_arrays (exec_store s) remaining
      (take (choice_used_len (selected_choice sel)) (choice_used_indices (selected_choice sel))) = Ok arrays"
    "execute_direction env r arrays (choice_amount_in (selected_choice sel)) (dynamic_min_profit_lamports args)
      (selected_direction sel) (emit (DynamicAmountSelected
         \<lparr>sel_direction = selected_direction sel, sel_min_wsol_amount_in = min_wsol_amount_in args,
          sel_max_wsol_amount_in = max_wsol_amount_in args,
          sel_balance_limited_max = min (max_wsol_amount_in args) (token_balance (exec_wsol s)),
          sel_largest_complete_amount = selected_largest_complete sel,
          sel_actual_wsol_amount_in = choice_amount_in (selected_choice sel),
          sel_expected_wsol_amount_out = choice_amount_out (selected_choice sel),
          sel_expected_profit_lamports = choice_profit (selected_choice sel),
          sel_visited_bins = selected_visited_bins sel,
          sel_boundary_candidates = selected_boundary_candidates sel,
          sel_interior_candidates = selected_interior_candidates sel,
          sel_early_stop_used = False\<rparr>) s) = Ok s'"
    unfolding dynamic_amount_handler_def Let_def
    by (auto simp: and_then_eq_Ok ok_or_eq_Ok require_eq_Ok split: if_splits)
  then show thesis
    by (intro that [OF *(2,3) _ _ _ _ *(5,6)]) (auto simp: validate_dynamic_args_def require_eq_Ok)
qed

section \<open>Properties\<close>

text \<open>C30. The decision between the two searched directions: if each search reports the best of the choices
  that qualify in it, the selected choice is the best of all of them, and nothing is selected exactly
  when nothing qualifies; that is reported as no profit when both directions could quote the
  smallest amount, and as an incomplete quote otherwise.\<close>

theorem dynamic_decision_optimal:
  assumes "best_of P (best forward)" "best_of Q (best reverse)"
  shows "case decide_dynamic_search forward reverse of
      Selected d c \<Rightarrow> (case d of PumpToMeteora \<Rightarrow> P c | MeteoraToPump \<Rightarrow> Q c) \<and>
        (\<forall>c'. P c' \<or> Q c' \<longrightarrow> at_least_as_good c c')
    | NoProfit \<Rightarrow> (\<forall>c. \<not> P c \<and> \<not> Q c) \<and>
        minimum_quote_complete forward \<and> minimum_quote_complete reverse
    | QuoteIncomplete \<Rightarrow> (\<forall>c. \<not> P c \<and> \<not> Q c) \<and>
        \<not> (minimum_quote_complete forward \<and> minimum_quote_complete reverse)"
  using assms by (rule decide_optimal)

theorem dynamic_decision_optimal_witness:
  "\<exists>d c. decide_dynamic_search (no_search \<lparr>best := Some (choice_of 10 \<lparr>cq_amount_out = 12, cq_used_indices = [], cq_used_len = 0\<rparr>)\<rparr>)
      (no_search \<lparr>best := Some (choice_of 7 \<lparr>cq_amount_out = 9, cq_used_indices = [], cq_used_len = 0\<rparr>)\<rparr>) = Selected d c \<and>
    d = MeteoraToPump \<and> choice_amount_in c = 7 \<and>
    at_least_as_good c (choice_of 10 \<lparr>cq_amount_out = 12, cq_used_indices = [], cq_used_len = 0\<rparr>)"
proof -
  let ?f = "choice_of 10 \<lparr>cq_amount_out = 12, cq_used_indices = [], cq_used_len = 0\<rparr>"
  let ?r = "choice_of 7 \<lparr>cq_amount_out = 9, cq_used_indices = [], cq_used_len = 0\<rparr>"
  have decided: "decide_dynamic_search (no_search \<lparr>best := Some ?f\<rparr>) (no_search \<lparr>best := Some ?r\<rparr>) = Selected MeteoraToPump ?r"
    by (simp add: decide_dynamic_search_def better_choice_def choice_of_def)
  have "best_of ((=) ?f) (best (no_search \<lparr>best := Some ?f\<rparr>))" "best_of ((=) ?r) (best (no_search \<lparr>best := Some ?r\<rparr>))"
    by (simp_all add: best_of_def at_least_as_good_refl)
  from dynamic_decision_optimal [OF this] decided show ?thesis by (simp add: choice_of_def)
qed

text \<open>C31. Whatever is selected on a market where a curve is exact (\<open>plain_market\<close>), for a positive profit and a
  range that is not empty, the amount lies in the range, the profit
  is the output less the amount and at least the demanded one, and the output is exactly what the
  account quotes of the selected direction give for that amount: the search never promises what
  the round trip would not be quoted.  The bin arrays kept include those of that quote, in order.\<close>

theorem dynamic_selection_exact:
  assumes "select_dynamic env st r arrays lo hi profit t = Ok s" "profit \<noteq> 0" "lo \<le> hi"
    and "read_inputs env st r = Ok p" "plain_market st (in_pair p) arrays"
  shows "let c = selected_choice s in lo \<le> choice_amount_in c \<and> choice_amount_in c \<le> hi \<and>
    unat (choice_amount_out c) = unat (choice_amount_in c) + unat (choice_profit c) \<and>
    profit \<le> choice_profit c \<and>
    (\<exists>k \<le> choice_used_len c. round_trip st r p arrays (choice_amount_in c) t (selected_direction s) =
      Ok (Some (choice_amount_out c, take k (choice_used_indices c))))"
  using assms by (rule select_dynamic_exact)

theorem dynamic_selection_exact_witness:
  "\<exists>s k. select_dynamic run_env run_store run_route run_bin_arrays 1000 1000 500 1000 = Ok s \<and> k \<le> 1 \<and>
    unat (choice_amount_out (selected_choice s)) = 1000 + unat (choice_profit (selected_choice s)) \<and>
    round_trip run_store run_route run_inputs run_bin_arrays 1000 1000 PumpToMeteora =
      Ok (Some (1996, take k [0, 0]))"
proof -
  obtain s where s: "select_dynamic run_env run_store run_route run_bin_arrays 1000 1000 500 1000 = Ok s"
    "selected_direction s = PumpToMeteora"
    "selected_choice s = \<lparr>choice_amount_in = 1000, choice_amount_out = 1996, choice_profit = 996,
      choice_used_indices = [0, 0], choice_used_len = 1\<rparr>"
    using run_select_dynamic by blast
  have "plain_market run_store (in_pair run_inputs) run_bin_arrays" using run_plain_market by simp
  from dynamic_selection_exact [OF s(1) _ _ run_reads this] s show ?thesis by (auto simp: Let_def)
qed

text \<open>C32. A completed dynamic-amount instruction has executed the selected direction with the selected
  amount, which is positive, not below the given minimum, not above the given maximum and covered by the
  trader's WSOL; over given bin arrays, those of the indices of the selected quote in that order; its first
  event reports the selection; and it leaves the trader with at least the initial WSOL plus the
  demanded profit and the initial target balance.\<close>

theorem dynamic_amount_guarantee:
  assumes "dynamic_amount_handler env r remaining args s = Ok s'"
  shows "\<exists>t sel arrays e more. env_clock env = Some t \<and>
    select_dynamic env (exec_store s) r remaining (min_wsol_amount_in args)
      (min (max_wsol_amount_in args) (token_balance (exec_wsol s))) (dynamic_min_profit_lamports args) t = Ok sel \<and>
    (let c = selected_choice sel in
      0 < choice_amount_in c \<and> min_wsol_amount_in args \<le> choice_amount_in c \<and>
      choice_amount_in c \<le> max_wsol_amount_in args \<and> choice_amount_in c \<le> token_balance (exec_wsol s) \<and>
      set arrays \<subseteq> set remaining \<and>
      list_all2 (\<lambda>a index. parse_bin_array_index (info_data (exec_store s) a) = Ok index) arrays
        (take (choice_used_len c) (choice_used_indices c)) \<and>
      execute_direction env r arrays (choice_amount_in c) (dynamic_min_profit_lamports args)
        (selected_direction sel) (emit (DynamicAmountSelected e) s) = Ok s' \<and>
      exec_events s' = exec_events s @ DynamicAmountSelected e # more \<and>
      sel_direction e = selected_direction sel \<and> sel_actual_wsol_amount_in e = choice_amount_in c \<and>
      sel_expected_profit_lamports e = choice_profit c) \<and>
    unat (token_balance (exec_wsol s)) + unat (dynamic_min_profit_lamports args)
      \<le> unat (token_balance (exec_wsol s')) \<and>
    token_balance (exec_target s') = token_balance (exec_target s)"
proof -
  from assms obtain t sel arrays e where run: "env_clock env = Some t"
    "select_dynamic env (exec_store s) r remaining (min_wsol_amount_in args)
      (min (max_wsol_amount_in args) (token_balance (exec_wsol s))) (dynamic_min_profit_lamports args) t = Ok sel"
    "0 < min_wsol_amount_in args"
    "min_wsol_amount_in args \<le> choice_amount_in (selected_choice sel)"
    "choice_amount_in (selected_choice sel) \<le> min (max_wsol_amount_in args) (token_balance (exec_wsol s))"
    and arrays: "ordered_bin_arrays (exec_store s) remaining
      (take (choice_used_len (selected_choice sel)) (choice_used_indices (selected_choice sel))) = Ok arrays"
    and exec: "execute_direction env r arrays (choice_amount_in (selected_choice sel)) (dynamic_min_profit_lamports args)
      (selected_direction sel) (emit (DynamicAmountSelected e) s) = Ok s'"
    and event: "sel_direction e = selected_direction sel"
      "sel_actual_wsol_amount_in e = choice_amount_in (selected_choice sel)"
      "sel_expected_profit_lamports e = choice_profit (selected_choice sel)"
    by (rule dynamic_amount_Ok)
  obtain more where "exec_events s' = exec_events s @ DynamicAmountSelected e # more"
    using execute_direction_events [OF exec] by auto
  moreover have "0 < choice_amount_in (selected_choice sel)" using run(3,4) by simp
  ultimately show ?thesis
    using run event exec ordered_bin_arrays_Ok [OF arrays] execute_direction_profit [OF exec]
    unfolding Let_def by (intro exI [of _ t] exI [of _ sel] exI [of _ arrays] exI [of _ e] exI [of _ more]) simp
qed

theorem dynamic_amount_guarantee_witness:
  "\<exists>s' e more. dynamic_amount_handler run_env run_route run_bin_arrays
      \<lparr>min_wsol_amount_in = 1000, max_wsol_amount_in = 1000, dynamic_min_profit_lamports = 500\<rparr> run_exec = Ok s' \<and>
    token_balance (exec_wsol s') = 5996 \<and>
    exec_events s' = exec_events run_exec @ DynamicAmountSelected e # more \<and>
    sel_actual_wsol_amount_in e = 1000 \<and>
    unat (token_balance (exec_wsol run_exec)) + unat (500 :: u64) \<le> unat (token_balance (exec_wsol s'))"
proof -
  obtain s' where s': "dynamic_amount_handler run_env run_route run_bin_arrays
      \<lparr>min_wsol_amount_in = 1000, max_wsol_amount_in = 1000, dynamic_min_profit_lamports = 500\<rparr> run_exec = Ok s'"
    "token_balance (exec_wsol s') = 5996"
    using run_dynamic by blast
  from dynamic_amount_guarantee [OF s'(1)] obtain e more and c :: direction_choice where
    "exec_events s' = exec_events run_exec @ DynamicAmountSelected e # more"
    "1000 \<le> choice_amount_in c" "choice_amount_in c \<le> 1000" "sel_actual_wsol_amount_in e = choice_amount_in c"
    "unat (token_balance (exec_wsol run_exec)) + unat (500 :: u64) \<le> unat (token_balance (exec_wsol s'))"
    unfolding Let_def dynamic_args.select_convs by blast
  with s' show ?thesis by auto
qed

text \<open>The probe of the smallest amount can hide a profit.  The source expands a direction only if the
  smallest amount has a positive spread, on the argument that execution only worsens as the amount
  grows; rounding breaks that argument.  On the sample accounts the range from 3 to 1000 fails as
  incomplete, although the amount 1000 alone is selected with a profit of 996.\<close>

lemma minimum_probe_hides_profit:
  "select_dynamic run_env run_store run_route run_bin_arrays 3 1000 500 1000 = Err (Arb BestDirectionQuoteIncomplete) \<and>
    (\<exists>s. select_dynamic run_env run_store run_route run_bin_arrays 1000 1000 500 1000 = Ok s \<and>
      choice_amount_in (selected_choice s) = 1000 \<and> choice_profit (selected_choice s) = 996)"
  using run_small_select run_select_dynamic by auto

end
