(* ===== verification/Program_Entry.thy ===== *)
theory Program_Entry
  imports Dynamic_Amount
begin

text \<open>
  \<^verbatim>\<open>lib.rs\<close>: the four entry points of the program.  Anchor checks the constraints of
  \<^verbatim>\<open>ExecuteRoute\<close> and then calls the entry point, which forwards to its handler; the entry point is
  chosen by the discriminator that Anchor generates, here a constructor.
\<close>

datatype instruction =
    ExecutePumpToMeteora route_args
  | ExecuteMeteoraToPump route_args
  | ExecuteBestDirection route_args
  | ExecuteBestDirectionDynamic dynamic_args

definition process ::
    "env \<Rightarrow> execute_route \<Rightarrow> account_info list \<Rightarrow> instruction \<Rightarrow> exec \<Rightarrow> (program_error, exec) result" where
  "process env r remaining i s =
    and_then (execute_route_constraints env r s) (\<lambda>_.
    case i of
      ExecutePumpToMeteora args \<Rightarrow> pump_to_meteora_handler env r remaining args s
    | ExecuteMeteoraToPump args \<Rightarrow> meteora_to_pump_handler env r remaining args s
    | ExecuteBestDirection args \<Rightarrow> best_direction_handler env r remaining args s
    | ExecuteBestDirectionDynamic args \<Rightarrow> dynamic_amount_handler env r remaining args s)"

text \<open>The profit an instruction demands.\<close>

fun demanded_profit :: "instruction \<Rightarrow> u64" where
  "demanded_profit (ExecutePumpToMeteora args) = min_profit_lamports args"
| "demanded_profit (ExecuteMeteoraToPump args) = min_profit_lamports args"
| "demanded_profit (ExecuteBestDirection args) = min_profit_lamports args"
| "demanded_profit (ExecuteBestDirectionDynamic args) = dynamic_min_profit_lamports args"

lemma execute_direction_reloads:
  assumes "execute_direction env r arrays amount profit d s = Ok s'"
  shows "env_reload env (exec_store s' (info_key (er_user_wsol r))) = Some (exec_wsol s') \<and>
    env_reload env (exec_store s' (info_key (er_user_target r))) = Some (exec_target s') \<and>
    (\<exists>first second done. exec_events s' = exec_events s @
      [RouteStarted d (info_key (er_trader r)) (info_key (er_target_mint r)) (token_balance (exec_wsol s)),
       FirstLegCompleted d first, SecondLegCompleted d second, RouteCompleted done])"
proof -
  from assms obtain first second where "execute_legs env r d first second profit s = Ok s'"
    by (cases d) (auto simp: execute_direction_def pump_to_meteora_execute_def
        meteora_to_pump_execute_def)
  from execute_legs_trace [OF this] show ?thesis by (auto simp: route_trace_def)
qed

lemma constraints_Ok:
  assumes "execute_route_constraints env r s = Ok ()"
  shows "info_is_signer (er_trader r) \<and> token_owner (exec_wsol s) = info_key (er_trader r) \<and>
    token_mint (exec_wsol s) = WSOL_MINT \<and> token_mint (exec_target s) \<noteq> WSOL_MINT"
  using assms by (auto simp: execute_route_constraints_def result_iff)

text \<open>Every instruction that completes ends in one execution of a direction, after no effect but events.\<close>

lemma process_executes:
  assumes "process env r remaining i s = Ok s'"
  shows "execute_route_constraints env r s = Ok () \<and> 0 < demanded_profit i \<and>
    (\<exists>arrays amount d events. set arrays \<subseteq> set remaining \<and> 0 < amount \<and>
      execute_direction env r arrays amount (demanded_profit i) d (s\<lparr>exec_events := exec_events s @ events\<rparr>) = Ok s')"
proof (cases i)
  case (ExecutePumpToMeteora args)
  then have "execute_direction env r remaining (wsol_amount_in args) (demanded_profit i) PumpToMeteora
      (s\<lparr>exec_events := exec_events s @ []\<rparr>) = Ok s'"
    using assms by (auto simp: process_def pump_to_meteora_handler_def execute_direction_def result_iff)
  with ExecutePumpToMeteora assms show ?thesis
    unfolding process_def pump_to_meteora_handler_def validate_args_def
    by (intro conjI exI [of _ remaining] exI [of _ "wsol_amount_in args"] exI [of _ PumpToMeteora]
        exI [of _ "[]"]) (auto simp: result_iff)
next
  case (ExecuteMeteoraToPump args)
  then have "execute_direction env r remaining (wsol_amount_in args) (demanded_profit i) MeteoraToPump
      (s\<lparr>exec_events := exec_events s @ []\<rparr>) = Ok s'"
    using assms by (auto simp: process_def meteora_to_pump_handler_def execute_direction_def result_iff)
  with ExecuteMeteoraToPump assms show ?thesis
    unfolding process_def meteora_to_pump_handler_def validate_args_def
    by (intro conjI exI [of _ remaining] exI [of _ "wsol_amount_in args"] exI [of _ MeteoraToPump]
        exI [of _ "[]"]) (auto simp: result_iff)
next
  case (ExecuteBestDirection args)
  with assms obtain d used arrays where run:
    "validate_args (wsol_amount_in args) (min_profit_lamports args) = Ok ()"
    "execute_route_constraints env r s = Ok ()"
    "ordered_bin_arrays (exec_store s) remaining used = Ok arrays"
    "execute_direction env r arrays (wsol_amount_in args) (min_profit_lamports args) d s = Ok s'"
    by (auto simp: process_def best_direction_handler_def Let_def result_iff split: prod.splits)
  with ExecuteBestDirection ordered_bin_arrays_Ok [OF run(3)] show ?thesis
    by (intro conjI exI [of _ arrays] exI [of _ "wsol_amount_in args"] exI [of _ d] exI [of _ "[]"])
      (auto simp: validate_args_def result_iff)
next
  case (ExecuteBestDirectionDynamic args)
  then have constraints: "execute_route_constraints env r s = Ok ()"
    and run: "dynamic_amount_handler env r remaining args s = Ok s'"
    using assms by (auto simp: process_def result_iff)
  from run show ?thesis
  proof (rule dynamic_amount_Ok)
    fix t sel arrays e
    assume *: "0 < min_wsol_amount_in args" "0 < dynamic_min_profit_lamports args"
      "min_wsol_amount_in args \<le> choice_amount_in (selected_choice sel)"
      "ordered_bin_arrays (exec_store s) remaining
        (take (choice_used_len (selected_choice sel)) (choice_used_indices (selected_choice sel))) = Ok arrays"
      "execute_direction env r arrays (choice_amount_in (selected_choice sel)) (dynamic_min_profit_lamports args)
        (selected_direction sel) (emit (DynamicAmountSelected e) s) = Ok s'"
    then have "0 < choice_amount_in (selected_choice sel)" by simp
    with * constraints ExecuteBestDirectionDynamic ordered_bin_arrays_Ok [OF *(4)] show ?thesis
      by (intro conjI exI [of _ arrays] exI [of _ "choice_amount_in (selected_choice sel)"]
          exI [of _ "selected_direction sel"] exI [of _ "[DynamicAmountSelected e]"]) (auto simp: emit_def)
  qed
qed

section \<open>A run on the sample accounts\<close>

lemma run_constraints: "execute_route_constraints run_env run_route run_exec = Ok ()"
  by (simp add: execute_route_constraints_def run_route_def run_env_def run_exec_def run_wsol_def
      run_target_def plain_info_def writable_def require_def)

lemma run_process:
  "\<exists>s'. process run_env run_route run_bin_arrays (ExecuteBestDirectionDynamic
      \<lparr>min_wsol_amount_in = 1000, max_wsol_amount_in = 1000, dynamic_min_profit_lamports = 500\<rparr>) run_exec = Ok s' \<and>
    token_balance (exec_wsol s') = 5996"
  using run_dynamic by (simp add: process_def run_constraints)

section \<open>Property\<close>

text \<open>C34. The guarantee of the whole program: whichever instruction is sent and whatever the called programs do,
  a transaction that is not reverted was signed by the owner of the WSOL account, demanded a positive
  profit, and leaves that account, as re-read from its bytes, with at least its initial balance plus
  that profit, and the target account with exactly its initial balance; and it ran exactly one
  route, whose four events are the last ones.\<close>

theorem program_profitable:
  assumes "process env r remaining i s = Ok s'"
  shows "info_is_signer (er_trader r) \<and> token_owner (exec_wsol s) = info_key (er_trader r) \<and>
    token_mint (exec_wsol s) = WSOL_MINT \<and> 0 < demanded_profit i \<and>
    unat (token_balance (exec_wsol s)) + unat (demanded_profit i) \<le> unat (token_balance (exec_wsol s')) \<and>
    token_balance (exec_target s') = token_balance (exec_target s) \<and>
    env_reload env (exec_store s' (info_key (er_user_wsol r))) = Some (exec_wsol s') \<and>
    env_reload env (exec_store s' (info_key (er_user_target r))) = Some (exec_target s') \<and>
    (\<exists>d before first second done. exec_events s' = exec_events s @ before @
      [RouteStarted d (info_key (er_trader r)) (info_key (er_target_mint r)) (token_balance (exec_wsol s)),
       FirstLegCompleted d first, SecondLegCompleted d second, RouteCompleted done])"
proof -
  from process_executes [OF assms] obtain arrays amount d events where
    run: "execute_route_constraints env r s = Ok ()" "0 < demanded_profit i"
      "execute_direction env r arrays amount (demanded_profit i) d
        (s\<lparr>exec_events := exec_events s @ events\<rparr>) = Ok s'"
    by blast
  from execute_direction_reloads [OF run(3)] execute_direction_profit [OF run(3)] constraints_Ok [OF run(1)] run(2)
  show ?thesis by auto
qed

theorem program_profitable_witness:
  "\<exists>s'. process run_env run_route run_bin_arrays (ExecuteBestDirectionDynamic
      \<lparr>min_wsol_amount_in = 1000, max_wsol_amount_in = 1000, dynamic_min_profit_lamports = 500\<rparr>) run_exec = Ok s' \<and>
    token_balance (exec_wsol s') = 5996 \<and>
    unat (token_balance (exec_wsol run_exec)) + unat (500 :: u64) \<le> unat (token_balance (exec_wsol s'))"
proof -
  obtain s' where s': "process run_env run_route run_bin_arrays (ExecuteBestDirectionDynamic
      \<lparr>min_wsol_amount_in = 1000, max_wsol_amount_in = 1000, dynamic_min_profit_lamports = 500\<rparr>) run_exec = Ok s'"
    "token_balance (exec_wsol s') = 5996"
    using run_process by blast
  from program_profitable [OF s'(1)] s' show ?thesis by (intro exI [of _ s']) simp
qed

end
