(* ===== verification/Mock_Dex.thy ===== *)
theory Mock_Dex
  imports Program_Entry
begin

text \<open>
  The mock exchange \<^verbatim>\<open>src/test-programs/mock-dex\<close>: one program that the tests load under the
  addresses of both exchanges.  A swap takes its input from the user and pays twice the amount from a
  vault.  Here it is the called program of the routes, so that the account order of the adapters meets
  the indices of the mock, and a route is shown to complete.
\<close>

section \<open>What the mock calls\<close>

text \<open>
  The SPL token crate and the runtime are not code of the repository:
  \<^item> \<open>mr_code\<close>: the number of a \<open>ProgramError\<close>; \<open>mr_token_program\<close>: the id of the token program;
  \<^item> \<open>mr_bump\<close>: \<open>Pubkey::find_program_address(seeds, program).1\<close>; \<open>mr_derived\<close>: the address that the
    runtime derives from the seeds of \<open>invoke_signed\<close> and the calling program;
  \<^item> \<open>mr_unpack\<close>: the mint of \<open>spl_token::state::Account::unpack\<close>;
  \<^item> \<open>mr_transfer\<close>: \<open>spl_token::instruction::transfer\<close> without multisigners;
  \<^item> \<open>mr_invoke_signed\<close>: \<open>invoke_signed\<close> by the given calling program.
\<close>

record mock_runtime =
  mr_code :: "solana_error \<Rightarrow> nat"
  mr_token_program :: pubkey
  mr_bump :: "u8 list list \<Rightarrow> pubkey \<Rightarrow> u8"
  mr_derived :: "u8 list list \<Rightarrow> pubkey \<Rightarrow> pubkey option"
  mr_unpack :: "u8 list \<Rightarrow> (solana_error, pubkey) result"
  mr_transfer :: "pubkey \<Rightarrow> pubkey \<Rightarrow> pubkey \<Rightarrow> pubkey \<Rightarrow> u64 \<Rightarrow> (solana_error, instr) result"
  mr_invoke_signed ::
    "pubkey \<Rightarrow> instr \<Rightarrow> account_info list \<Rightarrow> u8 list list list \<Rightarrow> store \<Rightarrow> (solana_error, store) result"

section \<open>The program\<close>

definition AUTHORITY_SEED :: "u8 list" where "AUTHORITY_SEED = ascii ''vault-authority''"

definition FIXTURE_WRITE :: "u8 list" where "FIXTURE_WRITE = ascii ''fixture!''"

definition mock_read_u64 :: "u8 list \<Rightarrow> usize \<Rightarrow> (solana_error, u64) result" where
  "mock_read_u64 data offset =
    and_then (ok_or InvalidInstructionData (slice data offset 8)) (\<lambda>bs. Ok (word_from_le bs))"

definition mock_transfer ::
    "mock_runtime \<Rightarrow> pubkey \<Rightarrow> account_info \<Rightarrow> account_info \<Rightarrow> account_info \<Rightarrow> account_info \<Rightarrow> u64
      \<Rightarrow> u8 list list option \<Rightarrow> store \<Rightarrow> (solana_error, store) result" where
  "mock_transfer rt caller token_program source destination authority amount signer_seeds st =
    and_then (mr_transfer rt (info_key token_program) (info_key source) (info_key destination)
      (info_key authority) amount) (\<lambda>ix.
    let infos = [source, destination, authority, token_program] in
    case signer_seeds of
      Some seeds \<Rightarrow> mr_invoke_signed rt caller ix infos [seeds] st
    | None \<Rightarrow> mr_invoke_signed rt caller ix infos [] st)"

definition process_pump ::
    "mock_runtime \<Rightarrow> account_info list \<Rightarrow> u8 list \<Rightarrow> store \<Rightarrow> (solana_error, store) result" where
  "process_pump rt accounts data st =
    (if length accounts < 21 \<or> length data < 24 then Err NotEnoughAccountKeys
     else
       let discriminator = take 8 data in
       and_then (mock_read_u64 data 8) (\<lambda>amount_in.
       and_then (mock_read_u64 data 16) (\<lambda>min_out.
       and_then (ok_or SolanaArithmeticOverflow (checked_mul amount_in 2)) (\<lambda>amount_out.
       if amount_out < min_out then Err (Custom 1)
       else
         let token_program = accounts ! 11; user = accounts ! 1; vault_authority = accounts ! 18;
             bump = mr_bump rt [AUTHORITY_SEED] PUMP_SWAP_PROGRAM_ID;
             signer_seeds = [AUTHORITY_SEED, [bump]];
             transfer = mock_transfer rt PUMP_SWAP_PROGRAM_ID token_program in
         if discriminator = PUMP_BUY_EXACT_QUOTE_IN_DISCRIMINATOR then
           and_then (transfer (accounts ! 6) (accounts ! 8) user amount_in None st) (\<lambda>st.
           transfer (accounts ! 7) (accounts ! 5) vault_authority amount_out (Some signer_seeds) st)
         else if discriminator = PUMP_SELL_DISCRIMINATOR then
           and_then (transfer (accounts ! 5) (accounts ! 7) user amount_in None st) (\<lambda>st.
           transfer (accounts ! 8) (accounts ! 6) vault_authority amount_out (Some signer_seeds) st)
         else Err InvalidInstructionData))))"

definition process_meteora ::
    "mock_runtime \<Rightarrow> account_info list \<Rightarrow> u8 list \<Rightarrow> store \<Rightarrow> (solana_error, store) result" where
  "process_meteora rt accounts data st =
    (if length accounts < 17 \<or> length data < 24 \<or> take 8 data \<noteq> METEORA_SWAP2_DISCRIMINATOR
     then Err InvalidInstructionData
     else
       and_then (mock_read_u64 data 8) (\<lambda>amount_in.
       and_then (mock_read_u64 data 16) (\<lambda>min_out.
       and_then (ok_or SolanaArithmeticOverflow (checked_mul amount_in 2)) (\<lambda>amount_out.
       if amount_out < min_out then Err (Custom 2)
       else
         and_then (mr_unpack rt (info_data st (accounts ! 4))) (\<lambda>input_mint.
         and_then (mr_unpack rt (info_data st (accounts ! 2))) (\<lambda>reserve_x_mint.
         let (input_reserve, output_reserve) =
               (if input_mint = reserve_x_mint then (accounts ! 2, accounts ! 3)
                else (accounts ! 3, accounts ! 2));
             transfer = mock_transfer rt METEORA_DLMM_PROGRAM_ID (accounts ! 11) in
         and_then (transfer (accounts ! 4) input_reserve (accounts ! 10) amount_in None st) (\<lambda>st.
         let bump = mr_bump rt [AUTHORITY_SEED] METEORA_DLMM_PROGRAM_ID;
             signer_seeds = [AUTHORITY_SEED, [bump]] in
         transfer output_reserve (accounts ! 5) (accounts ! 14) amount_out (Some signer_seeds) st)))))))"

definition mock_process ::
    "mock_runtime \<Rightarrow> pubkey \<Rightarrow> account_info list \<Rightarrow> u8 list \<Rightarrow> store \<Rightarrow> (solana_error, store) result" where
  "mock_process rt program_id accounts data st =
    (if take 8 data = FIXTURE_WRITE then
       (case accounts of
         [] \<Rightarrow> Err NotEnoughAccountKeys
       | target # _ \<Rightarrow>
           if info_owner st target \<noteq> program_id \<or> \<not> info_is_writable target then Err IllegalOwner
           else
             let payload = drop (length FIXTURE_WRITE) data in
             if length payload \<noteq> length (info_data st target) then Err SolanaInvalidAccountData
             else Ok (st(info_key target := (st (info_key target))\<lparr>acc_data := payload\<rparr>)))
     else if program_id = PUMP_SWAP_PROGRAM_ID then process_pump rt accounts data st
     else if program_id = METEORA_DLMM_PROGRAM_ID then process_meteora rt accounts data st
     else Ok st)"

section \<open>The mock as the called program\<close>

text \<open>The runtime hands the called program the accounts that the metas of the instruction name, in their
  order and with their privileges.\<close>

definition callee_accounts :: "account_meta list \<Rightarrow> account_info list" where
  "callee_accounts metas = map (\<lambda>m. \<lparr>info_key = meta_key m, info_is_signer = meta_is_signer m,
     info_is_writable = meta_is_writable m\<rparr>) metas"

definition mock_invoke ::
    "mock_runtime \<Rightarrow> instr \<Rightarrow> account_info list \<Rightarrow> store \<Rightarrow> (nat, store) result" where
  "mock_invoke rt i infos st = map_err (mr_code rt)
    (mock_process rt (instr_program i) (callee_accounts (instr_accounts i)) (instr_data i) st)"

definition mock_env :: "mock_runtime \<Rightarrow> env \<Rightarrow> env" where
  "mock_env rt env = env\<lparr>env_invoke := mock_invoke rt\<rparr>"

text \<open>What a swap on the mock is: the input goes to a vault, and twice the input comes from the other vault,
  signed for by the authority of the vaults.\<close>

definition vault_seeds :: "mock_runtime \<Rightarrow> pubkey \<Rightarrow> u8 list list" where
  "vault_seeds rt caller = [AUTHORITY_SEED, [mr_bump rt [AUTHORITY_SEED] caller]]"

definition double_swap ::
    "mock_runtime \<Rightarrow> pubkey \<Rightarrow> nat \<Rightarrow> account_info \<Rightarrow> account_info \<Rightarrow> account_info \<Rightarrow> account_info
      \<Rightarrow> account_info \<Rightarrow> account_info \<Rightarrow> account_info \<Rightarrow> u64 \<Rightarrow> u64 \<Rightarrow> store \<Rightarrow> (solana_error, store) result" where
  "double_swap rt caller code token_program user user_in vault_in vault_out user_out authority amount least st =
    and_then (ok_or SolanaArithmeticOverflow (checked_mul amount 2)) (\<lambda>amount_out.
    if amount_out < least then Err (Custom code)
    else and_then (mock_transfer rt caller token_program user_in vault_in user amount None st)
      (mock_transfer rt caller token_program vault_out user_out authority amount_out (Some (vault_seeds rt caller))))"

lemma mock_read_amounts:
  assumes "length d = 8"
  shows "mock_read_u64 (d @ word_to_le (a :: u64) @ word_to_le (b :: u64) @ rest) 8 = Ok a"
    "mock_read_u64 (d @ word_to_le (a :: u64) @ word_to_le (b :: u64) @ rest) 16 = Ok b"
  using assms word_decode_encode [where n = 8 and 'a = 64]
  by (simp_all add: mock_read_u64_def slice_def length_word_to_le)

lemma callee_accounts_simps [simp]:
  "length (callee_accounts metas) = length metas"
  "callee_accounts (metas @ others) = callee_accounts metas @ callee_accounts others"
  "callee_accounts (m # metas) = \<lparr>info_key = meta_key m, info_is_signer = meta_is_signer m,
     info_is_writable = meta_is_writable m\<rparr> # callee_accounts metas"
  "callee_accounts [] = []"
  by (simp_all add: callee_accounts_def)

definition as_writable :: "account_info \<Rightarrow> bool \<Rightarrow> account_info" where
  "as_writable a signer = \<lparr>info_key = info_key a, info_is_signer = signer, info_is_writable = True\<rparr>"

definition as_readonly :: "account_info \<Rightarrow> bool \<Rightarrow> account_info" where
  "as_readonly a signer = \<lparr>info_key = info_key a, info_is_signer = signer, info_is_writable = False\<rparr>"

lemma payload_tags:
  "take 8 (pump_buy_data a b) = PUMP_BUY_EXACT_QUOTE_IN_DISCRIMINATOR"
  "take 8 (pump_sell_data a b) = PUMP_SELL_DISCRIMINATOR" "take 8 (swap2_data a b) = METEORA_SWAP2_DISCRIMINATOR"
  "\<not> length (pump_buy_data a b) < 24" "\<not> length (pump_sell_data a b) < 24" "\<not> length (swap2_data a b) < 24"
  by (simp_all add: pump_buy_data_def pump_sell_data_def swap2_data_def length_word_to_le
      PUMP_BUY_EXACT_QUOTE_IN_DISCRIMINATOR_def PUMP_SELL_DISCRIMINATOR_def METEORA_SWAP2_DISCRIMINATOR_def)

lemma tags_differ:
  "PUMP_BUY_EXACT_QUOTE_IN_DISCRIMINATOR \<noteq> FIXTURE_WRITE" "PUMP_SELL_DISCRIMINATOR \<noteq> FIXTURE_WRITE"
  "METEORA_SWAP2_DISCRIMINATOR \<noteq> FIXTURE_WRITE" "PUMP_SELL_DISCRIMINATOR \<noteq> PUMP_BUY_EXACT_QUOTE_IN_DISCRIMINATOR"
  by (simp_all add: PUMP_BUY_EXACT_QUOTE_IN_DISCRIMINATOR_def PUMP_SELL_DISCRIMINATOR_def
      METEORA_SWAP2_DISCRIMINATOR_def FIXTURE_WRITE_def ascii_def)

lemma payload_amounts:
  "mock_read_u64 (pump_buy_data a b) 8 = Ok a" "mock_read_u64 (pump_buy_data a b) 16 = Ok b"
  "mock_read_u64 (pump_sell_data a b) 8 = Ok a" "mock_read_u64 (pump_sell_data a b) 16 = Ok b"
  "mock_read_u64 (swap2_data a b) 8 = Ok a" "mock_read_u64 (swap2_data a b) 16 = Ok b"
  using mock_read_amounts [of PUMP_BUY_EXACT_QUOTE_IN_DISCRIMINATOR a b "[0]"]
    mock_read_amounts [of PUMP_SELL_DISCRIMINATOR a b "[]"]
    mock_read_amounts [of METEORA_SWAP2_DISCRIMINATOR a b "word_to_le (2 :: u32) @ [0, 0, 1, 0]"]
  by (simp_all add: pump_buy_data_def pump_sell_data_def swap2_data_def
      PUMP_BUY_EXACT_QUOTE_IN_DISCRIMINATOR_def PUMP_SELL_DISCRIMINATOR_def METEORA_SWAP2_DISCRIMINATOR_def)

lemma pump_buy_reaches_mock:
  "process_pump rt (callee_accounts (pump_buy_metas p @ others)) (pump_buy_data a least) st =
    double_swap rt PUMP_SWAP_PROGRAM_ID 1 (as_readonly (ps_base_token_program p) False)
      (as_writable (ps_user p) True) (as_writable (ps_user_quote_token_account p) False)
      (as_writable (ps_pool_quote_token_account p) False) (as_writable (ps_pool_base_token_account p) False)
      (as_writable (ps_user_base_token_account p) False)
      (as_readonly (ps_coin_creator_vault_authority p) False) a least st"
  by (simp add: process_pump_def payload_tags payload_amounts double_swap_def vault_seeds_def
      pump_buy_metas_def meta_new_def meta_new_readonly_def as_writable_def as_readonly_def Let_def
      cong: if_cong)

lemma pump_sell_reaches_mock:
  "process_pump rt (callee_accounts (pump_sell_metas p @ others)) (pump_sell_data a least) st =
    double_swap rt PUMP_SWAP_PROGRAM_ID 1 (as_readonly (ps_base_token_program p) False)
      (as_writable (ps_user p) True) (as_writable (ps_user_base_token_account p) False)
      (as_writable (ps_pool_base_token_account p) False) (as_writable (ps_pool_quote_token_account p) False)
      (as_writable (ps_user_quote_token_account p) False)
      (as_readonly (ps_coin_creator_vault_authority p) False) a least st"
  by (simp add: process_pump_def payload_tags payload_amounts tags_differ double_swap_def vault_seeds_def
      pump_sell_metas_def meta_new_def meta_new_readonly_def as_writable_def as_readonly_def Let_def
      cong: if_cong)


text \<open>The input reserve is the one of the mint that the user pays with.\<close>

lemma swap2_reaches_mock:
  assumes "mr_unpack rt (info_data st (md_user_token_in m)) = Ok mint"
    and "mr_unpack rt (info_data st (md_reserve_x m)) = Ok mint_x" and "arrays \<noteq> []"
  shows "process_meteora rt (callee_accounts (swap2_metas m arrays)) (swap2_data a least) st =
    (let (vault_in, vault_out) = (if mint = mint_x then (md_reserve_x m, md_reserve_y m)
       else (md_reserve_y m, md_reserve_x m)) in
     double_swap rt METEORA_DLMM_PROGRAM_ID 2 (as_readonly (md_token_x_program m) False)
      (as_readonly (md_user m) True) (as_writable (md_user_token_in m) False)
      (as_writable vault_in False) (as_writable vault_out False)
      (as_writable (md_user_token_out m) False) (as_readonly (md_event_authority m) False) a least st)"
proof -
  have "\<not> length arrays + 16 < 17" using assms(3) by (cases arrays) auto
  moreover have "\<exists>x others. callee_accounts (map (\<lambda>a. meta_new (info_key a) False) arrays) = others" by blast
  ultimately show ?thesis using assms(1,2)
    by (simp add: process_meteora_def payload_tags payload_amounts double_swap_def vault_seeds_def
        swap2_metas_def meta_new_def meta_new_readonly_def as_writable_def as_readonly_def Let_def
        info_data_def cong: if_cong)
qed

lemma dispatch_pump:
  "mock_process rt PUMP_SWAP_PROGRAM_ID accounts data st = process_pump rt accounts data st"
  if "take 8 data \<noteq> FIXTURE_WRITE"
  using that by (simp add: mock_process_def)

lemma dispatch_meteora:
  "mock_process rt METEORA_DLMM_PROGRAM_ID accounts data st = process_meteora rt accounts data st"
  if "take 8 data \<noteq> FIXTURE_WRITE"
  using that by (simp add: mock_process_def)

lemma mock_env_simps [simp]:
  "env_invoke (mock_env rt env) = mock_invoke rt" "env_reload (mock_env rt env) = env_reload env"
  "env_find_program_address (mock_env rt env) = env_find_program_address env"
  "env_associated_token_program (mock_env rt env) = env_associated_token_program env"
  by (simp_all add: mock_env_def)

lemma validate_on_mock [simp]: "pump_validate (mock_env rt env) st p = pump_validate env st p"
  by (simp only: pump_validate_def mock_env_simps)

lemma pump_metas_Ok:
  assumes "pump_validate env st p = Ok ()"
  shows "\<exists>others. append_current_remaining_accounts st p metas is_buy = Ok (metas @ others)"
    "\<exists>infos. pump_infos st p is_buy = Ok infos"
proof -
  from assms obtain pool where "parse_pump_pool_prefix (info_data st (ps_pool p)) = Ok pool"
    by (auto simp: pump_validate_Ok pump_pool_matches_def)
  then show "\<exists>others. append_current_remaining_accounts st p metas is_buy = Ok (metas @ others)"
    "\<exists>infos. pump_infos st p is_buy = Ok infos"
    by (simp_all add: append_current_remaining_accounts_def pump_infos_def)
qed

lemma pump_buy_on_mock:
  assumes "pump_validate env st p = Ok ()"
  shows "pump_buy_exact_quote_in_call (mock_env rt env) st p a least =
    map_err CalledProgram (map_err (mr_code rt) (double_swap rt PUMP_SWAP_PROGRAM_ID 1
      (as_readonly (ps_base_token_program p) False)
      (as_writable (ps_user p) True) (as_writable (ps_user_quote_token_account p) False)
      (as_writable (ps_pool_quote_token_account p) False) (as_writable (ps_pool_base_token_account p) False)
      (as_writable (ps_user_base_token_account p) False)
      (as_readonly (ps_coin_creator_vault_authority p) False) a least st))"
proof -
  obtain others infos where
    "append_current_remaining_accounts st p (pump_buy_metas p) True = Ok (pump_buy_metas p @ others)"
    "pump_infos st p True = Ok infos"
    using pump_metas_Ok [OF assms] by blast
  then show ?thesis
    using pump_buy_reaches_mock [of rt p others a least st]
    by (simp add: pump_buy_exact_quote_in_call_def assms pump_invoke_def Let_def mock_invoke_def
        dispatch_pump payload_tags tags_differ del: callee_accounts_simps)
qed

lemma pump_sell_on_mock:
  assumes "pump_validate env st p = Ok ()" "cashback_sell_is_ready st p = Ok True"
  shows "pump_sell_call (mock_env rt env) st p a least =
    map_err CalledProgram (map_err (mr_code rt) (double_swap rt PUMP_SWAP_PROGRAM_ID 1
      (as_readonly (ps_base_token_program p) False)
      (as_writable (ps_user p) True) (as_writable (ps_user_base_token_account p) False)
      (as_writable (ps_pool_base_token_account p) False) (as_writable (ps_pool_quote_token_account p) False)
      (as_writable (ps_user_quote_token_account p) False)
      (as_readonly (ps_coin_creator_vault_authority p) False) a least st))"
proof -
  obtain others infos where
    "append_current_remaining_accounts st p (pump_sell_metas p) False = Ok (pump_sell_metas p @ others)"
    "pump_infos st p False = Ok infos"
    using pump_metas_Ok [OF assms(1)] by blast
  then show ?thesis
    using pump_sell_reaches_mock [of rt p others a least st]
    by (simp add: pump_sell_call_def assms pump_invoke_def Let_def mock_invoke_def require_def
        dispatch_pump payload_tags tags_differ del: callee_accounts_simps)
qed

lemma swap2_on_mock:
  assumes "meteora_validate st m arrays = Ok ()"
    and "mr_unpack rt (info_data st (md_user_token_in m)) = Ok mint"
    and "mr_unpack rt (info_data st (md_reserve_x m)) = Ok mint_x"
  shows "swap2 (mock_env rt env) st (m, arrays) a least =
    map_err CalledProgram (map_err (mr_code rt)
    (let (vault_in, vault_out) = (if mint = mint_x then (md_reserve_x m, md_reserve_y m)
       else (md_reserve_y m, md_reserve_x m)) in
     double_swap rt METEORA_DLMM_PROGRAM_ID 2 (as_readonly (md_token_x_program m) False)
      (as_readonly (md_user m) True) (as_writable (md_user_token_in m) False)
      (as_writable vault_in False) (as_writable vault_out False)
      (as_writable (md_user_token_out m) False) (as_readonly (md_event_authority m) False) a least st))"
proof -
  have "arrays \<noteq> []"
    using assms(1) by (auto simp: meteora_validate_Ok validate_bin_arrays_Ok)
  from swap2_reaches_mock [OF assms(2,3) this, of a least] show ?thesis
    by (simp add: swap2_def assms(1) Let_def mock_invoke_def dispatch_meteora payload_tags tags_differ
        del: callee_accounts_simps)
qed

section \<open>Moving tokens\<close>

text \<open>
  What the mock relies on in the token program, over \<open>live\<close>, the fields of an initialised and unfrozen
  token account: a transfer between two accounts of one mint moves the amount and changes nothing else,
  when the owner of the source signs (or the seeds derive its address), the source holds the amount and
  the destination can take it.  \<open>unpack\<close> and Anchor's \<open>reload\<close> read those fields.
\<close>

definition signs :: "mock_runtime \<Rightarrow> pubkey \<Rightarrow> account_info \<Rightarrow> u8 list list option \<Rightarrow> bool" where
  "signs rt caller authority signer_seeds \<longleftrightarrow>
    (case signer_seeds of
      None \<Rightarrow> info_is_signer authority
    | Some seeds \<Rightarrow> mr_derived rt seeds caller = Some (info_key authority))"

definition token_account_of :: "mock_runtime \<Rightarrow> (account \<Rightarrow> token_fields option) \<Rightarrow> account \<Rightarrow> token_fields \<Rightarrow> bool" where
  "token_account_of rt live a f \<longleftrightarrow> acc_owner a = mr_token_program rt \<and> \<not> acc_executable a \<and> live a = Some f"

definition spl_transfers :: "mock_runtime \<Rightarrow> (account \<Rightarrow> token_fields option) \<Rightarrow> bool" where
  "spl_transfers rt live \<longleftrightarrow>
    (\<forall>caller token_program source destination authority amount seeds st f g.
      info_key token_program = mr_token_program rt \<longrightarrow> info_key source \<noteq> info_key destination \<longrightarrow>
      info_is_writable source \<longrightarrow> info_is_writable destination \<longrightarrow>
      token_account_of rt live (st (info_key source)) f \<longrightarrow>
      token_account_of rt live (st (info_key destination)) g \<longrightarrow>
      token_mint f = token_mint g \<longrightarrow> token_owner f = info_key authority \<longrightarrow>
      signs rt caller authority seeds \<longrightarrow> amount \<le> token_balance f \<longrightarrow>
      unat (token_balance g) + unat amount < 2 ^ 64 \<longrightarrow>
      (\<exists>a b. mock_transfer rt caller token_program source destination authority amount seeds st =
          Ok (st(info_key source := a, info_key destination := b)) \<and>
        token_account_of rt live a (f\<lparr>token_balance := token_balance f - amount\<rparr>) \<and>
        token_account_of rt live b (g\<lparr>token_balance := token_balance g + amount\<rparr>)))"

definition spl_reads :: "mock_runtime \<Rightarrow> env \<Rightarrow> (account \<Rightarrow> token_fields option) \<Rightarrow> bool" where
  "spl_reads rt env live \<longleftrightarrow> (\<forall>a f. live a = Some f \<longrightarrow>
    env_reload env a = Some f \<and> mr_unpack rt (acc_data a) = Ok (token_mint f))"

text \<open>An account that holds tokens, by its key; and two stores that differ only in token accounts.\<close>

definition holds :: "mock_runtime \<Rightarrow> (account \<Rightarrow> token_fields option) \<Rightarrow> store \<Rightarrow> pubkey \<Rightarrow> pubkey \<Rightarrow> pubkey \<Rightarrow> u64 \<Rightarrow> bool" where
  "holds rt live st k mint owner amount \<longleftrightarrow>
    token_account_of rt live (st k) \<lparr>token_mint = mint, token_owner = owner, token_balance = amount\<rparr>"

definition same_but :: "pubkey list \<Rightarrow> store \<Rightarrow> store \<Rightarrow> bool" where
  "same_but ks st st' \<longleftrightarrow> (\<forall>k. k \<notin> set ks \<longrightarrow> st' k = st k) \<and>
    (\<forall>k. acc_owner (st' k) = acc_owner (st k) \<and> acc_executable (st' k) = acc_executable (st k))"

lemma same_but_trans: "same_but ks st st' \<Longrightarrow> same_but ks' st' st'' \<Longrightarrow> same_but (ks @ ks') st st''"
  by (simp add: same_but_def)

lemma same_but_holds: "same_but ks st st' \<Longrightarrow> k \<notin> set ks \<Longrightarrow> holds rt live st' k = holds rt live st k"
  by (simp add: same_but_def holds_def fun_eq_iff)

lemma transfer_moves:
  assumes "spl_transfers rt live" "info_key token_program = mr_token_program rt"
    and "info_is_writable source" "info_is_writable destination" "info_key source \<noteq> info_key destination"
    and "holds rt live st (info_key source) mint (info_key authority) x"
    and "holds rt live st (info_key destination) mint owner y"
    and "signs rt caller authority seeds" "amount \<le> x" "unat y + unat amount < 2 ^ 64"
  shows "\<exists>st'. mock_transfer rt caller token_program source destination authority amount seeds st = Ok st' \<and>
    same_but [info_key source, info_key destination] st st' \<and>
    holds rt live st' (info_key source) mint (info_key authority) (x - amount) \<and>
    holds rt live st' (info_key destination) mint owner (y + amount)"
proof -
  obtain a b where ab: "mock_transfer rt caller token_program source destination authority amount seeds st =
      Ok (st(info_key source := a, info_key destination := b))"
    "token_account_of rt live a \<lparr>token_mint = mint, token_owner = info_key authority, token_balance = x - amount\<rparr>"
    "token_account_of rt live b \<lparr>token_mint = mint, token_owner = owner, token_balance = y + amount\<rparr>"
    using assms(1) [unfolded spl_transfers_def, rule_format, OF assms(2,5,3,4)
        assms(6) [unfolded holds_def] assms(7) [unfolded holds_def] _ _ assms(8)] assms(9,10)
    by simp blast
  moreover from this assms(6,7) have
    "same_but [info_key source, info_key destination] st (st(info_key source := a, info_key destination := b))"
    by (auto simp: same_but_def holds_def token_account_of_def)
  ultimately show ?thesis using assms(5) by (auto simp: holds_def)
qed

lemma double_swap_moves:
  assumes spl: "spl_transfers rt live" "info_key token_program = mr_token_program rt"
    and flags: "info_is_writable user_in" "info_is_writable vault_in" "info_is_writable vault_out"
      "info_is_writable user_out" "info_is_signer user"
    and vault: "mr_derived rt (vault_seeds rt caller) caller = Some (info_key authority)"
    and keys: "distinct [info_key user_in, info_key vault_in, info_key vault_out, info_key user_out]"
    and holds: "holds rt live st (info_key user_in) mint_in (info_key user) x"
      "holds rt live st (info_key vault_in) mint_in owner y"
      "holds rt live st (info_key vault_out) mint_out (info_key authority) z"
      "holds rt live st (info_key user_out) mint_out trader w"
    and fits: "a \<le> x" "unat y + unat a < 2 ^ 64" "2 * unat a \<le> unat z" "unat w + 2 * unat a < 2 ^ 64"
    and least: "unat least \<le> 2 * unat a"
  shows "\<exists>st'. double_swap rt caller code token_program user user_in vault_in vault_out user_out authority a least st = Ok st' \<and>
    same_but [info_key user_in, info_key vault_in, info_key vault_out, info_key user_out] st st' \<and>
    holds rt live st' (info_key user_in) mint_in (info_key user) (x - a) \<and>
    holds rt live st' (info_key vault_in) mint_in owner (y + a) \<and>
    holds rt live st' (info_key vault_out) mint_out (info_key authority) (z - 2 * a) \<and>
    holds rt live st' (info_key user_out) mint_out trader (w + 2 * a)"
proof -
  have small: "unat a * 2 < 2 ^ 64" using fits(4) by simp
  then have double: "unat (a * 2) = unat a * 2" by (simp add: unat_mult_lem [THEN iffD1])
  obtain st1 where st1: "mock_transfer rt caller token_program user_in vault_in user a None st = Ok st1"
    "same_but [info_key user_in, info_key vault_in] st st1"
    "holds rt live st1 (info_key user_in) mint_in (info_key user) (x - a)"
    "holds rt live st1 (info_key vault_in) mint_in owner (y + a)"
    using transfer_moves [OF spl flags(1,2) _ holds(1,2) _ fits(1,2), of caller None] flags(5) keys
    by (auto simp: signs_def)
  have held: "holds rt live st1 (info_key vault_out) mint_out (info_key authority) z"
    "holds rt live st1 (info_key user_out) mint_out trader w"
    using holds(3,4) same_but_holds [OF st1(2)] keys by auto
  obtain st2 where st2: "mock_transfer rt caller token_program vault_out user_out authority (a * 2)
      (Some (vault_seeds rt caller)) st1 = Ok st2"
    "same_but [info_key vault_out, info_key user_out] st1 st2"
    "holds rt live st2 (info_key vault_out) mint_out (info_key authority) (z - a * 2)"
    "holds rt live st2 (info_key user_out) mint_out trader (w + a * 2)"
    using transfer_moves [OF spl flags(3,4) _ held, where amount = "a * 2" and caller = caller
        and seeds = "Some (vault_seeds rt caller)"] keys vault fits(3,4)
    by (auto simp: signs_def word_le_nat_alt double mult.commute)
  have "holds rt live st2 (info_key user_in) mint_in (info_key user) (x - a)"
    "holds rt live st2 (info_key vault_in) mint_in owner (y + a)"
    using st1(3,4) same_but_holds [OF st2(2)] keys by auto
  moreover have "\<not> a * 2 < least" using least by (simp add: word_less_nat_alt double)
  moreover have "checked_mul a 2 = Some (a * 2)" using small by (simp add: checked_mul_def)
  ultimately show ?thesis
    using st1(1) st2 same_but_trans [OF st1(2) st2(2)] by (simp add: double_swap_def mult.commute)
qed

section \<open>A market of the mock\<close>

definition token_keys :: "execute_route \<Rightarrow> pubkey list" where
  "token_keys r = map info_key [er_user_wsol r, er_user_target r, er_pump_pool_base_token_account r,
    er_pump_pool_quote_token_account r, er_meteora_reserve_x r, er_meteora_reserve_y r]"

definition target_is_x :: "store \<Rightarrow> execute_route \<Rightarrow> bool" where
  "target_is_x st r \<longleftrightarrow> (case parse_meteora_pair (info_data st (er_meteora_lb_pair r)) of
    Ok pair \<Rightarrow> pair_token_x_mint pair = info_key (er_target_mint r) | _ \<Rightarrow> False)"

text \<open>Accounts that pass the checks of both adapters, with one token program and vaults that the mock signs for.\<close>

definition mock_ready ::
    "env \<Rightarrow> mock_runtime \<Rightarrow> execute_route \<Rightarrow> account_info list \<Rightarrow> store \<Rightarrow> bool" where
  "mock_ready env rt r arrays st \<longleftrightarrow>
    pump_validate env st (pump_accounts r) = Ok () \<and> cashback_sell_is_ready st (pump_accounts r) = Ok True \<and>
    meteora_validate st (meteora_accounts_of st r (er_user_target r) (er_user_wsol r)) arrays = Ok () \<and>
    info_key (er_wsol_mint r) = WSOL_MINT \<and> info_key (er_target_mint r) \<noteq> WSOL_MINT \<and>
    info_key (er_wsol_token_program r) = mr_token_program rt \<and>
    info_key (er_target_token_program r) = mr_token_program rt \<and>
    mr_token_program rt \<noteq> PUMP_SWAP_PROGRAM_ID \<and> mr_token_program rt \<noteq> METEORA_DLMM_PROGRAM_ID \<and>
    mr_derived rt (vault_seeds rt PUMP_SWAP_PROGRAM_ID) PUMP_SWAP_PROGRAM_ID =
      Some (info_key (er_pump_coin_creator_vault_authority r)) \<and>
    mr_derived rt (vault_seeds rt METEORA_DLMM_PROGRAM_ID) METEORA_DLMM_PROGRAM_ID =
      Some (info_key (er_meteora_event_authority r)) \<and>
    distinct (info_key (er_pump_user_volume_accumulator_wsol_ata r) # token_keys r)"

text \<open>What the accounts of the user, the pool and the pair hold.\<close>

record mock_balances =
  user_wsol :: u64
  user_target :: u64
  pool_target :: u64
  pool_wsol :: u64
  pair_target :: u64
  pair_wsol :: u64

definition mock_holds ::
    "mock_runtime \<Rightarrow> (account \<Rightarrow> token_fields option) \<Rightarrow> execute_route \<Rightarrow> store \<Rightarrow> mock_balances \<Rightarrow> bool" where
  "mock_holds rt live r st b \<longleftrightarrow>
    (let trader = info_key (er_trader r); mint = info_key (er_target_mint r);
         pool = info_key (er_pump_coin_creator_vault_authority r); pair = info_key (er_meteora_event_authority r);
         (reserve_target, reserve_wsol) =
           (if target_is_x st r then (er_meteora_reserve_x r, er_meteora_reserve_y r)
            else (er_meteora_reserve_y r, er_meteora_reserve_x r)) in
     holds rt live st (info_key (er_user_wsol r)) WSOL_MINT trader (user_wsol b) \<and>
     holds rt live st (info_key (er_user_target r)) mint trader (user_target b) \<and>
     holds rt live st (info_key (er_pump_pool_base_token_account r)) mint pool (pool_target b) \<and>
     holds rt live st (info_key (er_pump_pool_quote_token_account r)) WSOL_MINT pool (pool_wsol b) \<and>
     holds rt live st (info_key reserve_target) mint pair (pair_target b) \<and>
     holds rt live st (info_key reserve_wsol) WSOL_MINT pair (pair_wsol b))"

text \<open>Only token accounts change, so the checks keep passing.\<close>

lemma same_but_foreign:
  assumes "same_but ks st st'" "\<forall>k \<in> set ks. acc_owner (st k) = token" "acc_owner (st k) \<noteq> token"
  shows "st' k = st k"
  using assms by (auto simp: same_but_def)

lemma ready_stays:
  assumes "mock_ready env rt r arrays st" "same_but ks st st'" "set ks \<subseteq> set (token_keys r)"
    and "\<forall>k \<in> set ks. acc_owner (st k) = mr_token_program rt"
  shows "mock_ready env rt r arrays st' \<and> target_is_x st' r = target_is_x st r"
proof -
  note ready = assms(1) [unfolded mock_ready_def]
  have same: "st' k = st k" if "acc_owner (st k) = PUMP_SWAP_PROGRAM_ID \<or> acc_owner (st k) = METEORA_DLMM_PROGRAM_ID" for k
    by (rule same_but_foreign [OF assms(2,4)]) (use that ready in auto)
  have kept: "acc_owner (st' k) = acc_owner (st k)" "acc_executable (st' k) = acc_executable (st k)" for k
    using assms(2) by (auto simp: same_but_def)
  have pool: "st' (info_key (er_pump_pool r)) = st (info_key (er_pump_pool r))"
    using ready by (intro same) (auto simp: pump_validate_Ok pump_pool_matches_def pump_accounts_def info_owner_def)
  have pair: "st' (info_key (er_meteora_lb_pair r)) = st (info_key (er_meteora_lb_pair r))"
    using ready by (intro same)
      (auto simp: meteora_validate_Ok meteora_pair_matches_def meteora_accounts_of_def Let_def info_owner_def
        split: if_splits)
  have "pump_validate env st' (pump_accounts r) = Ok ()"
    using ready pool by (auto simp: pump_validate_Ok pump_pool_matches_def pump_accounts_def info_owner_def
        info_data_def info_executable_def kept)
  moreover have accounts: "meteora_accounts_of st' r i j = meteora_accounts_of st r i j" for i j
    using pair by (simp add: meteora_accounts_of_def info_data_def)
  moreover have "meteora_validate st' (meteora_accounts_of st r (er_user_target r) (er_user_wsol r)) arrays = Ok ()"
  proof -
    have m: "md_lb_pair (meteora_accounts_of st r i j) = er_meteora_lb_pair r" for i j
      by (auto simp: meteora_accounts_of_def Let_def split: prod.split)
    have arr: "bin_array_of st' k a \<longleftrightarrow> bin_array_of st k a" "bin_array_of st k a \<Longrightarrow> array_index_of st' a = array_index_of st a" for k a
      using same [of "info_key a"]
      by (auto simp: bin_array_of_def array_index_of_def info_owner_def info_data_def kept)
    have "validate_bin_arrays st' arrays k = Ok ()" if valid: "validate_bin_arrays st arrays k = Ok ()" for k
    proof -
      have "map (array_index_of st') arrays = map (array_index_of st) arrays"
        using valid arr(2) [of k] by (auto simp: validate_bin_arrays_Ok)
      then show ?thesis using valid by (simp only: validate_bin_arrays_Ok arr(1)) simp
    qed
    then show ?thesis
      using ready pair by (auto simp: meteora_validate_Ok meteora_pair_matches_def owned_or_sentinel_def m
          info_owner_def info_data_def info_executable_def kept)
  qed
  moreover have "cashback_sell_is_ready st' (pump_accounts r) = Ok True"
  proof -
    have ata: "info_data st' (er_pump_user_volume_accumulator_wsol_ata r) = info_data st (er_pump_user_volume_accumulator_wsol_ata r)"
      using assms(2,3) ready by (auto simp: same_but_def info_data_def)
    have old: "cashback_sell_is_ready st (pump_accounts r) = Ok True" using ready by blast
    then obtain prefix where prefix: "parse_pump_pool_prefix (info_data st (er_pump_pool r)) = Ok prefix"
      by (auto simp: cashback_sell_is_ready_def pump_accounts_def result_iff)
    show ?thesis
    proof (cases "prefix_is_cashback_coin prefix")
      case False
      with prefix pool show ?thesis by (simp add: cashback_sell_is_ready_def pump_accounts_def info_data_def)
    next
      case True
      with old prefix have "acc_owner (st (info_key (er_pump_user_volume_accumulator r))) = PUMP_SWAP_PROGRAM_ID"
        by (simp add: cashback_sell_is_ready_def pump_accounts_def info_owner_def Let_def)
      from same [OF disjI1 [OF this]] old prefix pool ata True show ?thesis
        by (simp add: cashback_sell_is_ready_def pump_accounts_def info_data_def info_owner_def kept)
    qed
  qed
  moreover have "target_is_x st' r = target_is_x st r"
    using pair by (simp add: target_is_x_def info_data_def)
  ultimately show ?thesis using ready by (simp add: mock_ready_def)
qed


section \<open>The four legs\<close>

lemma holds_token_owner: "holds rt live st k mint owner x \<Longrightarrow> acc_owner (st k) = mr_token_program rt"
  by (simp add: holds_def token_account_of_def)

lemma as_info_simps [simp]:
  "info_key (as_writable a s) = info_key a" "info_is_writable (as_writable a s)"
  "info_is_signer (as_writable a s) = s" "info_key (as_readonly a s) = info_key a"
  "info_is_signer (as_readonly a s) = s"
  by (simp_all add: as_writable_def as_readonly_def)

lemma mock_pump_buy:
  assumes "spl_transfers rt live" "mock_ready env rt r arrays st" "mock_holds rt live r st b"
    and "0 < a" "a \<le> user_wsol b" "unat (pool_wsol b) + unat a < 2 ^ 64" "2 * unat a \<le> unat (pool_target b)"
      "unat (user_target b) + 2 * unat a < 2 ^ 64" "unat least \<le> 2 * unat a"
  shows "\<exists>st'. pump_buy_exact_quote_in_call (mock_env rt env) st (pump_accounts r) a least = Ok st' \<and>
    mock_ready env rt r arrays st' \<and> mock_holds rt live r st'
      (b\<lparr>user_wsol := user_wsol b - a, pool_wsol := pool_wsol b + a,
        pool_target := pool_target b - 2 * a, user_target := user_target b + 2 * a\<rparr>)"
proof -
  note ready = assms(2) [unfolded mock_ready_def]
  note keys = ready [THEN conjunct2, THEN conjunct2, THEN conjunct2, THEN conjunct2, THEN conjunct2,
      THEN conjunct2, THEN conjunct2, THEN conjunct2, THEN conjunct2, THEN conjunct2, THEN conjunct2,
      unfolded token_keys_def, simplified]
  note held = assms(3) [unfolded mock_holds_def Let_def]
  let ?ks = "[info_key (er_user_wsol r), info_key (er_pump_pool_quote_token_account r),
    info_key (er_pump_pool_base_token_account r), info_key (er_user_target r)]"
  obtain st' where st': "pump_buy_exact_quote_in_call (mock_env rt env) st (pump_accounts r) a least = Ok st'"
    "same_but ?ks st st'"
    "holds rt live st' (info_key (er_user_wsol r)) WSOL_MINT (info_key (er_trader r)) (user_wsol b - a)"
    "holds rt live st' (info_key (er_pump_pool_quote_token_account r)) WSOL_MINT
      (info_key (er_pump_coin_creator_vault_authority r)) (pool_wsol b + a)"
    "holds rt live st' (info_key (er_pump_pool_base_token_account r)) (info_key (er_target_mint r))
      (info_key (er_pump_coin_creator_vault_authority r)) (pool_target b - 2 * a)"
    "holds rt live st' (info_key (er_user_target r)) (info_key (er_target_mint r)) (info_key (er_trader r))
      (user_target b + 2 * a)"
    using double_swap_moves [OF assms(1), of "as_readonly (er_target_token_program r) False"
        "as_writable (er_user_wsol r) False" "as_writable (er_pump_pool_quote_token_account r) False"
        "as_writable (er_pump_pool_base_token_account r) False" "as_writable (er_user_target r) False"
        "as_writable (er_trader r) True" PUMP_SWAP_PROGRAM_ID "as_readonly (er_pump_coin_creator_vault_authority r) False"
        st WSOL_MINT "user_wsol b" "info_key (er_pump_coin_creator_vault_authority r)" "pool_wsol b"
        "info_key (er_target_mint r)" "pool_target b" "info_key (er_trader r)" "user_target b" a least 1]
      held keys ready assms(5-9) pump_buy_on_mock [of env st "pump_accounts r" rt a least]
    by (auto simp: pump_accounts_def)
  have "\<forall>k \<in> set ?ks. acc_owner (st k) = mr_token_program rt"
    using held by (auto dest: holds_token_owner)
  with ready_stays [OF assms(2) st'(2)] have "mock_ready env rt r arrays st' \<and> target_is_x st' r = target_is_x st r"
    by (simp add: token_keys_def)
  moreover have "holds rt live st' k = holds rt live st k"
    if "k = info_key (er_meteora_reserve_x r) \<or> k = info_key (er_meteora_reserve_y r)" for k
    by (rule same_but_holds [OF st'(2)]) (use that keys in auto)
  ultimately show ?thesis
    using st'(1,3-6) held by (auto simp: mock_holds_def Let_def split: if_splits)
qed

lemma mock_pump_sell:
  assumes "spl_transfers rt live" "mock_ready env rt r arrays st" "mock_holds rt live r st b"
    and "a \<le> user_target b" "unat (pool_target b) + unat a < 2 ^ 64" "2 * unat a \<le> unat (pool_wsol b)"
      "unat (user_wsol b) + 2 * unat a < 2 ^ 64" "unat least \<le> 2 * unat a"
  shows "\<exists>st'. pump_sell_call (mock_env rt env) st (pump_accounts r) a least = Ok st' \<and>
    mock_ready env rt r arrays st' \<and> mock_holds rt live r st'
      (b\<lparr>user_target := user_target b - a, pool_target := pool_target b + a,
        pool_wsol := pool_wsol b - 2 * a, user_wsol := user_wsol b + 2 * a\<rparr>)"
proof -
  note ready = assms(2) [unfolded mock_ready_def]
  note keys = ready [THEN conjunct2, THEN conjunct2, THEN conjunct2, THEN conjunct2, THEN conjunct2,
      THEN conjunct2, THEN conjunct2, THEN conjunct2, THEN conjunct2, THEN conjunct2, THEN conjunct2,
      unfolded token_keys_def, simplified]
  note held = assms(3) [unfolded mock_holds_def Let_def]
  let ?ks = "[info_key (er_user_target r), info_key (er_pump_pool_base_token_account r),
    info_key (er_pump_pool_quote_token_account r), info_key (er_user_wsol r)]"
  obtain st' where st': "pump_sell_call (mock_env rt env) st (pump_accounts r) a least = Ok st'"
    "same_but ?ks st st'"
    "holds rt live st' (info_key (er_user_target r)) (info_key (er_target_mint r)) (info_key (er_trader r))
      (user_target b - a)"
    "holds rt live st' (info_key (er_pump_pool_base_token_account r)) (info_key (er_target_mint r))
      (info_key (er_pump_coin_creator_vault_authority r)) (pool_target b + a)"
    "holds rt live st' (info_key (er_pump_pool_quote_token_account r)) WSOL_MINT
      (info_key (er_pump_coin_creator_vault_authority r)) (pool_wsol b - 2 * a)"
    "holds rt live st' (info_key (er_user_wsol r)) WSOL_MINT (info_key (er_trader r)) (user_wsol b + 2 * a)"
    using double_swap_moves [OF assms(1), of "as_readonly (er_target_token_program r) False"
        "as_writable (er_user_target r) False" "as_writable (er_pump_pool_base_token_account r) False"
        "as_writable (er_pump_pool_quote_token_account r) False" "as_writable (er_user_wsol r) False"
        "as_writable (er_trader r) True" PUMP_SWAP_PROGRAM_ID "as_readonly (er_pump_coin_creator_vault_authority r) False"
        st "info_key (er_target_mint r)" "user_target b" "info_key (er_pump_coin_creator_vault_authority r)" "pool_target b"
        WSOL_MINT "pool_wsol b" "info_key (er_trader r)" "user_wsol b" a least 1]
      held keys ready assms(4-8) pump_sell_on_mock [of env st "pump_accounts r" rt a least]
    by (auto simp: pump_accounts_def)
  have "\<forall>k \<in> set ?ks. acc_owner (st k) = mr_token_program rt"
    using held by (auto dest: holds_token_owner)
  with ready_stays [OF assms(2) st'(2)] have "mock_ready env rt r arrays st' \<and> target_is_x st' r = target_is_x st r"
    by (simp add: token_keys_def)
  moreover have "holds rt live st' k = holds rt live st k"
    if "k = info_key (er_meteora_reserve_x r) \<or> k = info_key (er_meteora_reserve_y r)" for k
    by (rule same_but_holds [OF st'(2)]) (use that keys in auto)
  ultimately show ?thesis
    using st'(1,3-6) held by (auto simp: mock_holds_def Let_def split: if_splits)
qed

text \<open>The two swaps of the pair, for the input account of either token.\<close>

lemma meteora_accounts_of_simps [simp]:
  "md_reserve_x (meteora_accounts_of st r i j) = er_meteora_reserve_x r"
  "md_reserve_y (meteora_accounts_of st r i j) = er_meteora_reserve_y r"
  "md_user (meteora_accounts_of st r i j) = er_trader r"
  "md_user_token_in (meteora_accounts_of st r i j) = i"
  "md_user_token_out (meteora_accounts_of st r i j) = j"
  "md_event_authority (meteora_accounts_of st r i j) = er_meteora_event_authority r"
  "md_token_x_program (meteora_accounts_of st r i j) =
    (if target_is_x st r then er_target_token_program r else er_wsol_token_program r)"
  by (auto simp: meteora_accounts_of_def Let_def target_is_x_def split: prod.splits result.splits)

lemma meteora_validate_users:
  "meteora_validate st (meteora_accounts_of st r i j) arrays = meteora_validate st (meteora_accounts_of st r i' j') arrays"
  by (simp add: meteora_validate_def meteora_accounts_of_def Let_def split: prod.split)

lemma mock_meteora_swap:
  fixes st r
  defines "mint sold \<equiv> (if sold then info_key (er_target_mint r) else WSOL_MINT)"
    and "user sold \<equiv> (if sold then er_user_target r else er_user_wsol r)"
    and "reserve sold \<equiv> (if sold = target_is_x st r then er_meteora_reserve_x r else er_meteora_reserve_y r)"
  assumes spl: "spl_transfers rt live" "spl_reads rt env live" and ready: "mock_ready env rt r arrays st"
    and held: "holds rt live st (info_key (user sold)) (mint sold) (info_key (er_trader r)) x"
      "holds rt live st (info_key (reserve sold)) (mint sold) (info_key (er_meteora_event_authority r)) y"
      "holds rt live st (info_key (reserve (\<not> sold))) (mint (\<not> sold)) (info_key (er_meteora_event_authority r)) z"
      "holds rt live st (info_key (user (\<not> sold))) (mint (\<not> sold)) (info_key (er_trader r)) w"
    and fits: "a \<le> x" "unat y + unat a < 2 ^ 64" "2 * unat a \<le> unat z" "unat w + 2 * unat a < 2 ^ 64"
      "unat least \<le> 2 * unat a"
  shows "\<exists>st'. swap2 (mock_env rt env) st (meteora_accounts_of st r (user sold) (user (\<not> sold)), arrays) a least = Ok st' \<and>
    same_but [info_key (user sold), info_key (reserve sold), info_key (reserve (\<not> sold)), info_key (user (\<not> sold))] st st' \<and>
    holds rt live st' (info_key (user sold)) (mint sold) (info_key (er_trader r)) (x - a) \<and>
    holds rt live st' (info_key (reserve sold)) (mint sold) (info_key (er_meteora_event_authority r)) (y + a) \<and>
    holds rt live st' (info_key (reserve (\<not> sold))) (mint (\<not> sold)) (info_key (er_meteora_event_authority r)) (z - 2 * a) \<and>
    holds rt live st' (info_key (user (\<not> sold))) (mint (\<not> sold)) (info_key (er_trader r)) (w + 2 * a)"
proof -
  note ready' = ready [unfolded mock_ready_def token_keys_def]
  let ?m = "meteora_accounts_of st r (user sold) (user (\<not> sold))"
  have unpack: "mr_unpack rt (info_data st i) = Ok k" if "holds rt live st (info_key i) k o' n" for i k o' n
    using that spl(2) by (auto simp: holds_def token_account_of_def spl_reads_def info_data_def)
  have valid: "meteora_validate st ?m arrays = Ok ()"
    using ready' meteora_validate_users by metis
  have x: "mr_unpack rt (info_data st (md_reserve_x ?m)) = Ok (mint (target_is_x st r))"
    using unpack [OF held(2)] unpack [OF held(3)] by (cases sold; cases "target_is_x st r") (simp_all add: reserve_def)
  have mints: "mint sold = mint (target_is_x st r) \<longleftrightarrow> sold = target_is_x st r"
    using ready' by (auto simp: mint_def)
  have call: "swap2 (mock_env rt env) st (?m, arrays) a least = map_err CalledProgram (map_err (mr_code rt)
      (double_swap rt METEORA_DLMM_PROGRAM_ID 2 (as_readonly (md_token_x_program ?m) False)
      (as_readonly (er_trader r) True) (as_writable (user sold) False)
      (as_writable (reserve sold) False) (as_writable (reserve (\<not> sold)) False)
      (as_writable (user (\<not> sold)) False) (as_readonly (er_meteora_event_authority r) False) a least st))"
    using swap2_on_mock [OF valid unpack x, of "mint sold" "info_key (er_trader r)" x env a least] held(1) mints
    by (auto simp: reserve_def)
  have program: "info_key (md_token_x_program ?m) = mr_token_program rt"
    using ready' by simp
  have keys: "distinct [info_key (user sold), info_key (reserve sold), info_key (reserve (\<not> sold)), info_key (user (\<not> sold))]"
    using ready' by (cases sold; cases "target_is_x st r") (auto simp: user_def reserve_def)
  show ?thesis
    unfolding call
    using double_swap_moves [OF spl(1), of "as_readonly (md_token_x_program ?m) False"
        "as_writable (user sold) False" "as_writable (reserve sold) False" "as_writable (reserve (\<not> sold)) False"
        "as_writable (user (\<not> sold)) False" "as_readonly (er_trader r) True" METEORA_DLMM_PROGRAM_ID
        "as_readonly (er_meteora_event_authority r) False"
        st "mint sold" x "info_key (er_meteora_event_authority r)" y
        "mint (\<not> sold)" z "info_key (er_trader r)" w a least 2] held keys ready' program fits
    by (auto simp del: meteora_accounts_of_simps)
qed

lemma mock_meteora_leg:
  assumes spl: "spl_transfers rt live" "spl_reads rt env live"
    and ready: "mock_ready env rt r arrays st" and held: "mock_holds rt live r st b"
  shows "a \<le> user_target b \<Longrightarrow> unat (pair_target b) + unat a < 2 ^ 64 \<Longrightarrow> 2 * unat a \<le> unat (pair_wsol b) \<Longrightarrow>
    unat (user_wsol b) + 2 * unat a < 2 ^ 64 \<Longrightarrow> unat least \<le> 2 * unat a \<Longrightarrow>
    \<exists>st'. swap2 (mock_env rt env) st (meteora_accounts_of st r (er_user_target r) (er_user_wsol r), arrays) a least = Ok st' \<and>
      mock_ready env rt r arrays st' \<and> mock_holds rt live r st'
        (b\<lparr>user_target := user_target b - a, pair_target := pair_target b + a,
          pair_wsol := pair_wsol b - 2 * a, user_wsol := user_wsol b + 2 * a\<rparr>)"
    and "a \<le> user_wsol b \<Longrightarrow> unat (pair_wsol b) + unat a < 2 ^ 64 \<Longrightarrow> 2 * unat a \<le> unat (pair_target b) \<Longrightarrow>
    unat (user_target b) + 2 * unat a < 2 ^ 64 \<Longrightarrow> unat least \<le> 2 * unat a \<Longrightarrow>
    \<exists>st'. swap2 (mock_env rt env) st (meteora_accounts_of st r (er_user_wsol r) (er_user_target r), arrays) a least = Ok st' \<and>
      mock_ready env rt r arrays st' \<and> mock_holds rt live r st'
        (b\<lparr>user_wsol := user_wsol b - a, pair_wsol := pair_wsol b + a,
          pair_target := pair_target b - 2 * a, user_target := user_target b + 2 * a\<rparr>)"
proof -
  note holds = held [unfolded mock_holds_def Let_def]
  let ?ks = "{info_key (er_user_wsol r), info_key (er_user_target r), info_key (er_meteora_reserve_x r),
      info_key (er_meteora_reserve_y r)}"
  have stays: "mock_ready env rt r arrays st' \<and> target_is_x st' r = target_is_x st r \<and>
      holds rt live st' (info_key (er_pump_pool_base_token_account r)) (info_key (er_target_mint r))
        (info_key (er_pump_coin_creator_vault_authority r)) (pool_target b) \<and>
      holds rt live st' (info_key (er_pump_pool_quote_token_account r)) WSOL_MINT
        (info_key (er_pump_coin_creator_vault_authority r)) (pool_wsol b)"
    if "same_but ks st st'" "set ks \<subseteq> ?ks" for ks st'
  proof -
    have "\<forall>k \<in> set ks. acc_owner (st k) = mr_token_program rt"
      using that(2) holds by (auto dest: holds_token_owner split: if_splits)
    moreover have "set ks \<subseteq> set (token_keys r)" using that(2) by (auto simp: token_keys_def)
    moreover have "info_key (er_pump_pool_base_token_account r) \<notin> set ks"
      "info_key (er_pump_pool_quote_token_account r) \<notin> set ks"
      using that(2) ready by (auto simp: mock_ready_def token_keys_def)
    ultimately show ?thesis
      using ready_stays [OF ready that(1)] same_but_holds [OF that(1)] holds by simp
  qed
  show "\<exists>st'. swap2 (mock_env rt env) st (meteora_accounts_of st r (er_user_target r) (er_user_wsol r), arrays) a least = Ok st' \<and>
      mock_ready env rt r arrays st' \<and> mock_holds rt live r st'
        (b\<lparr>user_target := user_target b - a, pair_target := pair_target b + a,
          pair_wsol := pair_wsol b - 2 * a, user_wsol := user_wsol b + 2 * a\<rparr>)"
    if fits: "a \<le> user_target b" "unat (pair_target b) + unat a < 2 ^ 64" "2 * unat a \<le> unat (pair_wsol b)"
      "unat (user_wsol b) + 2 * unat a < 2 ^ 64" "unat least \<le> 2 * unat a"
  proof -
    obtain st' where st': "swap2 (mock_env rt env) st (meteora_accounts_of st r (er_user_target r) (er_user_wsol r), arrays) a least = Ok st'"
      "same_but [info_key (er_user_target r), info_key (if target_is_x st r then er_meteora_reserve_x r else er_meteora_reserve_y r),
        info_key (if target_is_x st r then er_meteora_reserve_y r else er_meteora_reserve_x r), info_key (er_user_wsol r)] st st'"
      "holds rt live st' (info_key (er_user_target r)) (info_key (er_target_mint r)) (info_key (er_trader r)) (user_target b - a)"
      "holds rt live st' (info_key (if target_is_x st r then er_meteora_reserve_x r else er_meteora_reserve_y r))
        (info_key (er_target_mint r)) (info_key (er_meteora_event_authority r)) (pair_target b + a)"
      "holds rt live st' (info_key (if target_is_x st r then er_meteora_reserve_y r else er_meteora_reserve_x r))
        WSOL_MINT (info_key (er_meteora_event_authority r)) (pair_wsol b - 2 * a)"
      "holds rt live st' (info_key (er_user_wsol r)) WSOL_MINT (info_key (er_trader r)) (user_wsol b + 2 * a)"
      using mock_meteora_swap [OF spl ready, where sold = True and x = "user_target b" and y = "pair_target b"
          and z = "pair_wsol b" and w = "user_wsol b"] holds fits
      by (auto split: if_splits)
    from stays [OF st'(2)] st'(1,3-6) show ?thesis
      by (cases "target_is_x st r") (simp_all add: mock_holds_def)
  qed
  show "\<exists>st'. swap2 (mock_env rt env) st (meteora_accounts_of st r (er_user_wsol r) (er_user_target r), arrays) a least = Ok st' \<and>
      mock_ready env rt r arrays st' \<and> mock_holds rt live r st'
        (b\<lparr>user_wsol := user_wsol b - a, pair_wsol := pair_wsol b + a,
          pair_target := pair_target b - 2 * a, user_target := user_target b + 2 * a\<rparr>)"
    if fits: "a \<le> user_wsol b" "unat (pair_wsol b) + unat a < 2 ^ 64" "2 * unat a \<le> unat (pair_target b)"
      "unat (user_target b) + 2 * unat a < 2 ^ 64" "unat least \<le> 2 * unat a"
  proof -
    obtain st' where st': "swap2 (mock_env rt env) st (meteora_accounts_of st r (er_user_wsol r) (er_user_target r), arrays) a least = Ok st'"
      "same_but [info_key (er_user_wsol r), info_key (if target_is_x st r then er_meteora_reserve_y r else er_meteora_reserve_x r),
        info_key (if target_is_x st r then er_meteora_reserve_x r else er_meteora_reserve_y r), info_key (er_user_target r)] st st'"
      "holds rt live st' (info_key (er_user_wsol r)) WSOL_MINT (info_key (er_trader r)) (user_wsol b - a)"
      "holds rt live st' (info_key (if target_is_x st r then er_meteora_reserve_y r else er_meteora_reserve_x r))
        WSOL_MINT (info_key (er_meteora_event_authority r)) (pair_wsol b + a)"
      "holds rt live st' (info_key (if target_is_x st r then er_meteora_reserve_x r else er_meteora_reserve_y r))
        (info_key (er_target_mint r)) (info_key (er_meteora_event_authority r)) (pair_target b - 2 * a)"
      "holds rt live st' (info_key (er_user_target r)) (info_key (er_target_mint r)) (info_key (er_trader r)) (user_target b + 2 * a)"
      using mock_meteora_swap [OF spl ready, where sold = False and x = "user_wsol b" and y = "pair_wsol b"
          and z = "pair_target b" and w = "user_target b"] holds fits
      by (auto split: if_splits)
    from stays [OF st'(2)] st'(1,3-6) show ?thesis
      by (cases "target_is_x st r") (simp_all add: mock_holds_def)
  qed
qed

section \<open>The route\<close>

text \<open>The trade fits the balances: nothing overflows, the vaults pay, and the demanded profit is at most what
  two doublings make.\<close>

definition mock_covers :: "route_direction \<Rightarrow> mock_balances \<Rightarrow> u64 \<Rightarrow> u64 \<Rightarrow> bool" where
  "mock_covers d b a profit \<longleftrightarrow>
    0 < a \<and> a \<le> user_wsol b \<and> unat (user_wsol b) + 3 * unat a < 2 ^ 64 \<and>
    unat (user_target b) + 2 * unat a < 2 ^ 64 \<and> unat profit \<le> 3 * unat a \<and>
    (case d of
      PumpToMeteora \<Rightarrow> unat (pool_wsol b) + unat a < 2 ^ 64 \<and> 2 * unat a \<le> unat (pool_target b) \<and>
        unat (pair_target b) + 2 * unat a < 2 ^ 64 \<and> 4 * unat a \<le> unat (pair_wsol b)
    | MeteoraToPump \<Rightarrow> unat (pair_wsol b) + unat a < 2 ^ 64 \<and> 2 * unat a \<le> unat (pair_target b) \<and>
        unat (pool_target b) + 2 * unat a < 2 ^ 64 \<and> 4 * unat a \<le> unat (pool_wsol b))"

lemma unat_double: "2 * unat a < 2 ^ 64 \<Longrightarrow> unat (2 * a :: u64) = 2 * unat a"
  using unat_mult_lem [of 2 a] by simp

lemma doubled_sums:
  fixes w t a profit :: u64
  assumes "0 < a" "a \<le> w" "unat w + 3 * unat a < 2 ^ 64" "unat t + 2 * unat a < 2 ^ 64" "unat profit \<le> 3 * unat a"
  shows "checked_increase t (t + 2 * a) = Ok (2 * a)"
    "required_second_leg_out w (w - a) profit = Ok (a + profit)"
    "unat (a + profit) \<le> 4 * unat a" "unat (w - a) + 4 * unat a < 2 ^ 64"
    "checked_increase (w - a) (w + 3 * a) = Ok (4 * a)" "enforce w (w + 3 * a) profit t t = Ok ()"
proof -
  have a: "0 < unat a" using assms(1) by (simp add: word_less_nat_alt)
  have aw: "unat (w - a) = unat w - unat a" using assms(2) by (simp add: unat_sub)
  have le: "unat a \<le> unat w" using assms(2) by (simp add: word_le_nat_alt)
  have three: "unat (3 * a) = 3 * unat a" using unat_mult_lem [of 3 a] assms(3) by simp
  have four: "unat (4 * a) = 4 * unat a" using unat_mult_lem [of 4 a] assms(3) le by simp
  have sum: "unat (w + 3 * a) = unat w + 3 * unat a" using unat_add_lem [of w "3 * a"] three assms(3) by simp
  have two: "unat (t + 2 * a) = unat t + 2 * unat a"
    using unat_add_lem [of t "2 * a"] unat_double [of a] assms(4) by simp
  have profit: "unat (w + profit) = unat w + unat profit" "unat (a + profit) = unat a + unat profit"
    using unat_add_lem [of w profit] unat_add_lem [of a profit] assms(3,5) le by simp_all
  show "unat (a + profit) \<le> 4 * unat a" using profit(2) assms(5) by simp
  show "unat (w - a) + 4 * unat a < 2 ^ 64" using aw le assms(3) by simp
  show "checked_increase t (t + 2 * a) = Ok (2 * a)"
    using two a unat_double [of a] assms(4) by (simp add: checked_increase_def checked_sub_def require_def word_le_nat_alt word_less_nat_alt)
  show "checked_increase (w - a) (w + 3 * a) = Ok (4 * a)"
    using sum aw le a
    by (simp add: checked_increase_def checked_sub_def require_def word_le_nat_alt word_less_nat_alt four)
  show "enforce w (w + 3 * a) profit t t = Ok ()" using sum assms(5) by (simp add: enforce_Ok)
  have "w - a \<le> w + profit" using profit(1) aw le by (simp add: word_le_nat_alt)
  moreover have "1 \<le> a + profit" using profit(2) a by (simp add: word_le_nat_alt)
  moreover have "checked_add w profit = Some (w + profit)" using assms(3,5) by (simp add: checked_add_def)
  ultimately show "required_second_leg_out w (w - a) profit = Ok (a + profit)"
    by (simp add: required_second_leg_out_def saturating_sub_def max_absorb1 add.commute [of profit a])
qed

lemma mock_legs_complete:
  assumes reads: "spl_reads rt env live"
    and first: "first (exec_store s) = Ok st1" "mock_holds rt live r st1 b1"
      "user_wsol b1 = w - a" "user_target b1 = t + 2 * a"
    and second: "second st1 (2 * a) (a + profit) = Ok st2" "mock_holds rt live r st2 b2"
      "user_wsol b2 = w + 3 * a" "user_target b2 = t"
    and start: "token_balance (exec_wsol s) = w" "token_balance (exec_target s) = t"
    and fits: "0 < a" "a \<le> w" "unat w + 3 * unat a < 2 ^ 64" "unat t + 2 * unat a < 2 ^ 64" "unat profit \<le> 3 * unat a"
  shows "\<exists>s'. execute_legs (mock_env rt env) r d first second profit s = Ok s' \<and> exec_store s' = st2 \<and>
    token_balance (exec_wsol s') = w + 3 * a \<and> token_balance (exec_target s') = t"
proof -
  have reload: "env_reload env (st (info_key (er_user_wsol r))) =
        Some \<lparr>token_mint = WSOL_MINT, token_owner = info_key (er_trader r), token_balance = user_wsol b\<rparr>"
      "env_reload env (st (info_key (er_user_target r))) =
        Some \<lparr>token_mint = info_key (er_target_mint r), token_owner = info_key (er_trader r), token_balance = user_target b\<rparr>"
    if "mock_holds rt live r st b" for st b
    using that reads by (auto simp: mock_holds_def Let_def holds_def token_account_of_def spl_reads_def)
  obtain s' where s': "route_trace (mock_env rt env) r d first second profit s s' st1
      \<lparr>token_mint = info_key (er_target_mint r), token_owner = info_key (er_trader r), token_balance = t + 2 * a\<rparr>
      \<lparr>token_mint = WSOL_MINT, token_owner = info_key (er_trader r), token_balance = w - a\<rparr> (2 * a) (a + profit) (4 * a)"
    "exec_store s' = st2" "token_balance (exec_wsol s') = w + 3 * a" "token_balance (exec_target s') = t"
    by (rule that [of "\<lparr>exec_store = st2,
        exec_wsol = \<lparr>token_mint = WSOL_MINT, token_owner = info_key (er_trader r), token_balance = w + 3 * a\<rparr>,
        exec_target = \<lparr>token_mint = info_key (er_target_mint r), token_owner = info_key (er_trader r), token_balance = t\<rparr>,
        exec_events = _\<rparr>"])
      (simp_all add: route_trace_def first second start doubled_sums [OF fits] reload [OF first(2)] reload [OF second(2)])
  from execute_legs_complete [OF s'(1)] s'(2-4) show ?thesis by blast
qed

lemma mock_direction_completes:
  assumes spl: "spl_transfers rt live" "spl_reads rt env live"
    and ready: "mock_ready env rt r arrays (exec_store s)" and held: "mock_holds rt live r (exec_store s) b"
    and start: "token_balance (exec_wsol s) = user_wsol b" "token_balance (exec_target s) = user_target b"
    and covers: "mock_covers d b a profit"
  shows "\<exists>s'. execute_direction (mock_env rt env) r arrays a profit d s = Ok s' \<and>
    token_balance (exec_wsol s') = user_wsol b + 3 * a \<and> token_balance (exec_target s') = user_target b"
proof -
  note fits = covers [unfolded mock_covers_def]
  then have small: "0 < a" "a \<le> user_wsol b" "unat (user_wsol b) + 3 * unat a < 2 ^ 64"
    "unat (user_target b) + 2 * unat a < 2 ^ 64" "unat profit \<le> 3 * unat a" by simp_all
  note sums = doubled_sums [OF small]
  have one: "unat (1 :: u64) \<le> 2 * unat a" using small(1) by (simp add: word_less_nat_alt)
  have double: "unat (2 * a) = 2 * unat a" using small(4) by (simp add: unat_double)
  have more: "2 * a \<le> user_target b + 2 * a"
    using unat_add_lem [of "user_target b" "2 * a"] small(4) double by (simp add: word_le_nat_alt)
  have total: "user_wsol b - a + 2 * (2 * a) = user_wsol b + 3 * a" by simp
  show ?thesis
  proof (cases d)
    case PumpToMeteora
    with fits obtain st1 where first:
      "pump_buy_exact_quote_in_call (mock_env rt env) (exec_store s) (pump_accounts r) a 1 = Ok st1"
      "mock_ready env rt r arrays st1" "mock_holds rt live r st1 (b\<lparr>user_wsol := user_wsol b - a,
        pool_wsol := pool_wsol b + a, pool_target := pool_target b - 2 * a, user_target := user_target b + 2 * a\<rparr>)"
      using mock_pump_buy [OF spl(1) ready held _ _ _ _ _ one] by auto
    obtain st2 b2 where second:
      "swap2 (mock_env rt env) st1 (meteora_accounts_of st1 r (er_user_target r) (er_user_wsol r), arrays) (2 * a) (a + profit) = Ok st2"
      "mock_holds rt live r st2 b2" "user_wsol b2 = user_wsol b + 3 * a" "user_target b2 = user_target b"
      using mock_meteora_leg(1) [OF spl first(2,3), of "2 * a" "a + profit"] fits PumpToMeteora sums(3,4) double more
        total by fastforce
    show ?thesis
      using mock_legs_complete [OF spl(2) _ first(3) _ _ _ second(2-4) start small, where d = d
          and first = "\<lambda>st. pump_buy_exact_quote_in_call (mock_env rt env) st (pump_accounts r) a 1"
          and second = "\<lambda>st delta required_out. swap2 (mock_env rt env) st
            (meteora_accounts_of st r (er_user_target r) (er_user_wsol r), arrays) delta required_out"]
        first(1) second(1) PumpToMeteora
      by (auto simp: execute_direction_def pump_to_meteora_execute_def)
  next
    case MeteoraToPump
    with fits obtain st1 where first:
      "swap2 (mock_env rt env) (exec_store s) (meteora_accounts_of (exec_store s) r (er_user_wsol r) (er_user_target r), arrays) a 1 = Ok st1"
      "mock_ready env rt r arrays st1" "mock_holds rt live r st1 (b\<lparr>user_wsol := user_wsol b - a,
        pair_wsol := pair_wsol b + a, pair_target := pair_target b - 2 * a, user_target := user_target b + 2 * a\<rparr>)"
      using mock_meteora_leg(2) [OF spl ready held _ _ _ _ one] by auto
    obtain st2 b2 where second:
      "pump_sell_call (mock_env rt env) st1 (pump_accounts r) (2 * a) (a + profit) = Ok st2"
      "mock_holds rt live r st2 b2" "user_wsol b2 = user_wsol b + 3 * a" "user_target b2 = user_target b"
      using mock_pump_sell [OF spl(1) first(2,3), of "2 * a" "a + profit"] fits MeteoraToPump sums(3,4) double more
        total by fastforce
    show ?thesis
      using mock_legs_complete [OF spl(2) _ first(3) _ _ _ second(2-4) start small, where d = d
          and first = "\<lambda>st. swap2 (mock_env rt env) st
            (meteora_accounts_of st r (er_user_wsol r) (er_user_target r), arrays) a 1"
          and second = "\<lambda>st delta required_out. pump_sell_call (mock_env rt env) st (pump_accounts r) delta required_out"]
        first(1) second(1) MeteoraToPump
      by (auto simp: execute_direction_def meteora_to_pump_execute_def)
  qed
qed

section \<open>A token program\<close>

text \<open>A runtime for closed runs: token accounts are bytes, a transfer checks what the token program checks
  and rewrites the two amounts, and the vaults have the authorities of the sample accounts.\<close>

definition with_amount :: "account \<Rightarrow> u64 \<Rightarrow> account" where
  "with_amount a n = a\<lparr>acc_data := take 64 (acc_data a) @ word_to_le n @ drop 72 (acc_data a)\<rparr>"

definition run_derived :: "u8 list list \<Rightarrow> pubkey \<Rightarrow> pubkey option" where
  "run_derived seeds caller = Some (if caller = PUMP_SWAP_PROGRAM_ID then key 48 else key 13)"

definition run_transfer :: "pubkey \<Rightarrow> pubkey \<Rightarrow> pubkey \<Rightarrow> pubkey \<Rightarrow> u64 \<Rightarrow> (solana_error, instr) result" where
  "run_transfer token_program source destination authority amount =
    Ok \<lparr>instr_program = token_program, instr_accounts = [meta_new source False, meta_new destination False,
      meta_new_readonly authority True], instr_data = 3 # word_to_le amount\<rparr>"

definition run_invoke_signed ::
    "pubkey \<Rightarrow> instr \<Rightarrow> account_info list \<Rightarrow> u8 list list list \<Rightarrow> store \<Rightarrow> (solana_error, store) result" where
  "run_invoke_signed caller i infos seeds st =
    (let source = meta_key (instr_accounts i ! 0); destination = meta_key (instr_accounts i ! 1);
         authority = meta_key (instr_accounts i ! 2);
         amount = word_from_le (tl (instr_data i)) in
     case (run_reload (st source), run_reload (st destination)) of
       (Some f, Some g) \<Rightarrow>
         if token_mint f = token_mint g \<and> token_owner f = authority \<and> amount \<le> token_balance f \<and>
           (info_is_signer (infos ! 2) \<or> (\<exists>s \<in> set seeds. run_derived s caller = Some authority)) \<and>
           instr_program i = key 40 \<and> source \<noteq> destination
         then Ok (st(source := with_amount (st source) (token_balance f - amount),
           destination := with_amount (st destination) (token_balance g + amount)))
         else Err (OtherProgramError 1)
     | _ \<Rightarrow> Err (OtherProgramError 2))"

definition run_runtime :: mock_runtime where
  "run_runtime = \<lparr>mr_code = (\<lambda>_. 0), mr_token_program = key 40, mr_bump = (\<lambda>_ _. 255),
    mr_derived = run_derived, mr_unpack = (\<lambda>data. Ok (take 32 data)), mr_transfer = run_transfer,
    mr_invoke_signed = run_invoke_signed\<rparr>"

lemma run_reload_with_amount:
  "run_reload a = Some f \<Longrightarrow> run_reload (with_amount a n) = Some (f\<lparr>token_balance := n\<rparr>)"
  by (auto simp: run_reload_def with_amount_def Let_def length_word_to_le min_def drop_append take_append drop_take
      word_decode_encode [where n = 8] split: if_splits)

lemma run_spl: "spl_transfers run_runtime run_reload"
  unfolding spl_transfers_def
proof (intro allI impI)
  fix caller and token_program source destination authority :: account_info and amount seeds st f g
  assume *: "info_key token_program = mr_token_program run_runtime" "info_key source \<noteq> info_key destination"
    "token_account_of run_runtime run_reload (st (info_key source)) f"
    "token_account_of run_runtime run_reload (st (info_key destination)) g"
    "token_mint f = token_mint g" "token_owner f = info_key authority"
    "signs run_runtime caller authority seeds" "amount \<le> token_balance f"
  let ?a = "with_amount (st (info_key source)) (token_balance f - amount)"
  let ?b = "with_amount (st (info_key destination)) (token_balance g + amount)"
  have "mock_transfer run_runtime caller token_program source destination authority amount seeds st =
      Ok (st(info_key source := ?a, info_key destination := ?b))"
    using * by (cases seeds) (auto simp: mock_transfer_def run_runtime_def run_transfer_def run_invoke_signed_def
        meta_new_def meta_new_readonly_def token_account_of_def signs_def word_decode_encode [where n = 8] Let_def)
  moreover have "token_account_of run_runtime run_reload ?a (f\<lparr>token_balance := token_balance f - amount\<rparr>)"
    "token_account_of run_runtime run_reload ?b (g\<lparr>token_balance := token_balance g + amount\<rparr>)"
    using *(3,4) run_reload_with_amount by (auto simp: token_account_of_def with_amount_def)
  ultimately show "\<exists>a b. mock_transfer run_runtime caller token_program source destination authority amount seeds st =
        Ok (st(info_key source := a, info_key destination := b)) \<and>
      token_account_of run_runtime run_reload a (f\<lparr>token_balance := token_balance f - amount\<rparr>) \<and>
      token_account_of run_runtime run_reload b (g\<lparr>token_balance := token_balance g + amount\<rparr>)"
    by blast
qed

lemma run_spl_reads: "spl_reads run_runtime run_env run_reload"
  by (auto simp: spl_reads_def run_runtime_def run_env_def run_reload_def Let_def split: if_splits)

definition run_balances :: mock_balances where
  "run_balances = \<lparr>user_wsol = 5000, user_target = 5, pool_target = 1000000, pool_wsol = 1000000,
    pair_target = 1000000, pair_wsol = 1000000\<rparr>"

lemma run_mock_ready: "mock_ready run_env run_runtime run_route run_bin_arrays run_store"
proof -
  have seeds: "run_derived (vault_seeds rt caller) c = run_derived [] c" for rt caller c
    by (simp add: run_derived_def)
  have "cashback_sell_is_ready run_store (pump_accounts run_route) = Ok True"
    by (simp add: cashback_sell_is_ready_def pump_accounts_def run_simps run_pool_prefix
        run_lookups [OF run_like_store])
  then show ?thesis
    using run_pump_validate [OF run_like_store] run_meteora_validate [OF run_like_store]
    by (simp add: mock_ready_def run_runtime_def seeds token_keys_def)
      (simp add: run_derived_def run_route_def plain_info_def)
qed

lemma run_mock_holds: "mock_holds run_runtime run_reload run_route run_store run_balances"
proof -
  have "target_is_x run_store run_route"
    by (simp add: target_is_x_def run_simps run_lookups [OF run_like_store] run_pair_prefix)
  moreover have "run_reload (vault_account owner mint amount) =
      Some \<lparr>token_mint = mint, token_owner = owner, token_balance = word_from_le amount\<rparr>"
    if "length mint = 32" "length owner = 32" "length amount = 8" for mint owner amount
    using that by (simp add: run_reload_def vault_account_def run_token_def run_bytes)
  moreover have "acc_owner (token_account m n) = key 40" "\<not> acc_executable (token_account m n)"
    "acc_owner (vault_account k m n) = key 40" "\<not> acc_executable (vault_account k m n)" for k m n
    by (simp_all add: token_account_def vault_account_def)
  moreover have "run_store (key 3) = token_account WSOL_MINT [136, 19, 0, 0, 0, 0, 0, 0]"
    "run_store (key 4) = token_account (key 2) [5, 0, 0, 0, 0, 0, 0, 0]"
    "run_store (key 10) = vault_account (key 13) (key 2) million" "run_store (key 11) = vault_account (key 13) WSOL_MINT million"
    by (simp_all add: run_store_def)
  ultimately show ?thesis
    by (simp add: mock_holds_def holds_def token_account_of_def run_runtime_def run_balances_def
        run_route_def plain_info_def run_reloads run_lookups [OF run_like_store] run_million)
      (simp add: word_from_le_def)
qed

lemma run_mock_constraints:
  "execute_route_constraints (mock_env rt run_env) run_route run_exec = Ok ()"
  "validate_route_mints (mock_env rt run_env) run_route run_exec = Ok ()"
proof -
  have "env_token_program (mock_env rt env) = env_token_program env"
    "env_token_2022_program (mock_env rt env) = env_token_2022_program env"
    "env_mint_extensions (mock_env rt env) = env_mint_extensions env" for env
    by (simp_all add: mock_env_def)
  then have "execute_route_constraints (mock_env rt env) r s = execute_route_constraints env r s"
    "validate_route_mints (mock_env rt env) r s = validate_route_mints env r s" for env r s
    by (simp_all only: execute_route_constraints_def validate_route_mints_def validate_route_token_programs_def
        validate_supported_target_mint_def is_supported_token_program_def mock_env_simps)
  then show "execute_route_constraints (mock_env rt run_env) run_route run_exec = Ok ()"
    "validate_route_mints (mock_env rt run_env) run_route run_exec = Ok ()"
    by (simp_all add: run_constraints run_route_mints)
qed

lemma run_mock_covers: "mock_covers d run_balances 1000 500"
  by (cases d) (simp_all add: mock_covers_def run_balances_def)

section \<open>Property\<close>

definition fixed_instruction :: "route_direction \<Rightarrow> route_args \<Rightarrow> instruction" where
  "fixed_instruction d args = (case d of
    PumpToMeteora \<Rightarrow> ExecutePumpToMeteora args | MeteoraToPump \<Rightarrow> ExecuteMeteoraToPump args)"

text \<open>C37. A route completes: with the mock as both exchanges, an instruction of either fixed direction whose
  accounts pass the checks, on a market with one token program for both mints (\<open>mock_ready\<close>), whose trader
  and vaults can pay (\<open>mock_covers\<close>) and whose demanded profit is positive and at most three times its
  input succeeds, and the user ends with exactly that threefold profit and the old target balance.  It
  needs of the token program only that transfers move what they should (\<open>spl_transfers\<close>) and that
  balances are read from the accounts (\<open>spl_reads\<close>).  So the order in which the adapters name accounts and
  encode amounts is the one in which the mock reads them.\<close>

theorem mock_route_completes:
  assumes "spl_transfers rt live" "spl_reads rt env live"
    and "execute_route_constraints (mock_env rt env) r s = Ok ()"
    and "validate_route_mints (mock_env rt env) r s = Ok ()"
    and "mock_ready env rt r arrays (exec_store s)" "mock_holds rt live r (exec_store s) b"
    and "token_balance (exec_wsol s) = user_wsol b" "token_balance (exec_target s) = user_target b"
    and "mock_covers d b (wsol_amount_in args) (min_profit_lamports args)" "0 < min_profit_lamports args"
  shows "\<exists>s'. process (mock_env rt env) r arrays (fixed_instruction d args) s = Ok s' \<and>
    token_balance (exec_wsol s') = user_wsol b + 3 * wsol_amount_in args \<and>
    token_balance (exec_target s') = user_target b"
proof -
  from mock_direction_completes [OF assms(1,2,5-9)] obtain s' where
    "execute_direction (mock_env rt env) r arrays (wsol_amount_in args) (min_profit_lamports args) d s = Ok s'"
    "token_balance (exec_wsol s') = user_wsol b + 3 * wsol_amount_in args"
    "token_balance (exec_target s') = user_target b" by blast
  moreover have "validate_args (wsol_amount_in args) (min_profit_lamports args) = Ok ()"
    using assms(9,10) by (simp add: validate_args_def mock_covers_def require_def)
  ultimately show ?thesis using assms(3,4)
    by (cases d) (simp_all add: process_def fixed_instruction_def pump_to_meteora_handler_def
        meteora_to_pump_handler_def execute_direction_def)
qed

theorem mock_route_completes_witness:
  "\<exists>s'. process (mock_env run_runtime run_env) run_route run_bin_arrays
      (ExecuteMeteoraToPump \<lparr>wsol_amount_in = 1000, min_profit_lamports = 500\<rparr>) run_exec = Ok s' \<and>
    token_balance (exec_wsol s') = 8000 \<and> token_balance (exec_target s') = 5"
proof -
  have store: "exec_store run_exec = run_store" by (simp add: run_exec_def)
  have balances: "token_balance (exec_wsol run_exec) = user_wsol run_balances"
    "token_balance (exec_target run_exec) = user_target run_balances"
    by (simp_all add: run_exec_def run_wsol_def run_target_def run_balances_def)
  have covers: "mock_covers MeteoraToPump run_balances (wsol_amount_in \<lparr>wsol_amount_in = 1000, min_profit_lamports = 500\<rparr>)
      (min_profit_lamports \<lparr>wsol_amount_in = 1000, min_profit_lamports = 500\<rparr>)"
    using run_mock_covers by simp
  from mock_route_completes [OF run_spl run_spl_reads run_mock_constraints run_mock_ready [folded store]
      run_mock_holds [folded store] balances covers]
  show ?thesis by (simp add: fixed_instruction_def run_balances_def)
qed

end
