(* ===== verification/Account_Layout.thy ===== *)
theory Account_Layout
  imports Dlmm_Accounts
begin

text \<open>
  The layout of the accounts of a DLMM pair as a table of offsets and bytes: \<open>parse_lb_pair\<close> and
  \<open>parse_bin_array\<close> of \<^verbatim>\<open>quote/accounts.rs\<close> accept exactly the buffers that show the encoded fields at
  these offsets.  Signed fields are integers in the model; here they are also put in the range of
  their Rust types.
\<close>

section \<open>Fields of a buffer\<close>

definition shows_field :: "u8 list \<Rightarrow> usize \<times> u8 list \<Rightarrow> bool" where
  "shows_field data = (\<lambda>(offset, bs). offset + length bs \<le> length data \<and> take (length bs) (drop offset data) = bs)"

lemma shows_append:
  "shows_field data (offset, xs @ ys) \<longleftrightarrow> shows_field data (offset, xs) \<and> shows_field data (offset + length xs, ys)"
proof (cases "offset + length xs \<le> length data")
  case True
  have "take (length xs + length ys) (drop offset data) =
      take (length xs) (drop offset data) @ take (length ys) (drop (offset + length xs) data)"
    by (simp add: take_add add.commute)
  moreover have "length (take (length xs) (drop offset data)) = length xs" using True by simp
  ultimately have "take (length (xs @ ys)) (drop offset data) = xs @ ys \<longleftrightarrow>
      take (length xs) (drop offset data) = xs \<and> take (length ys) (drop (offset + length xs) data) = ys"
    using append_eq_append_conv [of "take (length xs) (drop offset data)" xs] by simp
  then show ?thesis using True by (auto simp: shows_field_def add.assoc)
qed (simp add: shows_field_def)

lemma word_shown:
  "read_u16 data offset = Ok a \<longleftrightarrow> shows_field data (offset, word_to_le a)"
  "read_u32 data offset = Ok b \<longleftrightarrow> shows_field data (offset, word_to_le b)"
  "read_u64 data offset = Ok c \<longleftrightarrow> shows_field data (offset, word_to_le c)"
  "read_u128 data offset = Ok d \<longleftrightarrow> shows_field data (offset, word_to_le d)"
  by (simp_all add: read_u16_def read_u32_def read_u64_def read_u128_def shows_field_def length_word_to_le
      u16_field.read_Ok_iff u32_field.read_Ok_iff u64_field.read_Ok_iff u128_field.read_Ok_iff)

definition in_i64 :: "int \<Rightarrow> bool" where
  "in_i64 v \<longleftrightarrow> - (2 ^ 63) \<le> v \<and> v < 2 ^ 63"

lemma int_shown:
  "read_i32 data offset = Ok v \<longleftrightarrow> in_i32 v \<and> shows_field data (offset, int_to_le 4 v)"
  "read_i64 data offset = Ok v \<longleftrightarrow> in_i64 v \<and> shows_field data (offset, int_to_le 8 v)"
  by (auto simp: read_i32_def read_i64_def shows_field_def length_int_to_le i32_field.read_Ok_iff
      i64_field.read_Ok_iff in_i32_def in_i64_def)

lemma byte_shown: "get_byte data offset = Ok b \<longleftrightarrow> shows_field data (offset, [b])"
  by (auto simp: shows_field_def get_byte_def take_Suc_conv_app_nth hd_drop_conv_nth take_Suc
      split: if_splits)

lemma words_shown:
  assumes "base \<le> length data"
  shows "collect (\<lambda>i. read_u64 data (base + i * 8)) [0..<n] = Ok ws \<longleftrightarrow>
    length ws = n \<and> shows_field data (base, concat (map word_to_le ws))"
  unfolding collect_Ok_iff
proof (induction n arbitrary: ws)
  case 0
  with assms show ?case by (auto simp: shows_field_def)
next
  case (Suc n)
  let ?P = "\<lambda>i w. read_u64 data (base + i * 8) = Ok w"
  have "length (concat (map word_to_le (vs :: u64 list))) = length vs * 8" for vs
    by (induction vs) (simp_all add: length_word_to_le)
  moreover have "list_all2 ?P ([0..<n] @ [n]) (vs @ [w]) \<longleftrightarrow> list_all2 ?P [0..<n] vs \<and> ?P n w" for vs w
    using list_all2_rev [of ?P "[0..<n] @ [n]" "vs @ [w]"] list_all2_rev [of ?P "[0..<n]" vs] by auto
  ultimately show ?case
    using Suc.IH by (cases ws rule: rev_cases) (auto simp: word_shown shows_append)
qed

section \<open>The pair\<close>

definition typed_variable :: "dlmm_variable_parameters \<Rightarrow> bool" where
  "typed_variable v \<longleftrightarrow> in_i32 (index_reference v) \<and> in_i64 (last_update_timestamp v)"

text \<open>The bitmap is \<^verbatim>\<open>[u64; 16]\<close> in the source.\<close>

definition typed_pair :: "lb_pair_state \<Rightarrow> bool" where
  "typed_pair pair \<longleftrightarrow> in_i32 (active_id pair) \<and> typed_variable (variable_parameters pair) \<and>
    length (bitmap pair) = 16"

definition pair_layout :: "lb_pair_state \<Rightarrow> (usize \<times> u8 list) list" where
  "pair_layout pair =
    (let s = static_parameters pair; v = variable_parameters pair in
     [(8, word_to_le (base_factor s)), (10, word_to_le (filter_period s)), (12, word_to_le (decay_period s)),
      (14, word_to_le (reduction_factor s)), (16, word_to_le (variable_fee_control s)),
      (20, word_to_le (max_volatility_accumulator s)), (32, word_to_le (protocol_share s)),
      (34, [base_fee_power_factor s]), (35, [function_type s]), (36, [collect_fee_mode s]),
      (40, word_to_le (volatility_accumulator v)), (44, word_to_le (volatility_reference v)),
      (48, int_to_le 4 (index_reference v)), (56, int_to_le 8 (last_update_timestamp v)),
      (76, int_to_le 4 (active_id pair)), (80, word_to_le (bin_step pair)),
      (584, concat (map word_to_le (bitmap pair)))])"

lemma parse_static_layout:
  "parse_static_parameters data = Ok s \<longleftrightarrow> list_all (shows_field data)
    [(8, word_to_le (base_factor s)), (10, word_to_le (filter_period s)), (12, word_to_le (decay_period s)),
     (14, word_to_le (reduction_factor s)), (16, word_to_le (variable_fee_control s)),
     (20, word_to_le (max_volatility_accumulator s)), (32, word_to_le (protocol_share s)),
     (34, [base_fee_power_factor s]), (35, [function_type s]), (36, [collect_fee_mode s])]"
  by (cases s) (auto simp: parse_static_parameters_def PAIR_BASE_def Let_def result_iff word_shown byte_shown)

lemma parse_variable_layout:
  "parse_variable_parameters data = Ok v \<longleftrightarrow> typed_variable v \<and> list_all (shows_field data)
    [(40, word_to_le (volatility_accumulator v)), (44, word_to_le (volatility_reference v)),
     (48, int_to_le 4 (index_reference v)), (56, int_to_le 8 (last_update_timestamp v))]"
  by (cases v) (auto simp: parse_variable_parameters_def typed_variable_def PAIR_BASE_def Let_def result_iff
      word_shown int_shown)

lemma parse_pair_layout:
  "parse_lb_pair data = Ok pair \<longleftrightarrow> 712 \<le> length data \<and> typed_pair pair \<and>
    list_all (shows_field data) (pair_layout pair) \<and>
    (rewards_are_empty pair \<longleftrightarrow>
      take 32 (drop 264 data) = replicate 32 0 \<and> take 32 (drop 408 data) = replicate 32 0)"
proof (cases "712 \<le> length data")
  case True
  then have bitmap: "collect (\<lambda>i. read_u64 data (584 + i * 8)) [0..<16] = Ok ws \<longleftrightarrow>
      length ws = 16 \<and> shows_field data (584, concat (map word_to_le ws))" for ws
    by (intro words_shown) simp
  show ?thesis
    using True
    by (cases pair) (auto simp: parse_lb_pair_def PAIR_BASE_def Let_def result_iff word_shown int_shown bitmap
        parse_static_layout parse_variable_layout typed_pair_def pair_layout_def simp del: upt_rec_numeral)
next
  case False
  with parse_lb_pair_total [of data] show ?thesis by simp
qed

section \<open>The bins\<close>

definition bin_layout :: "usize \<Rightarrow> bin \<Rightarrow> (usize \<times> u8 list) list" where
  "bin_layout offset b =
    [(offset, word_to_le (amount_x b)), (offset + 8, word_to_le (amount_y b)),
     (offset + 16, word_to_le (price_q64 b)), (offset + 112, word_to_le (open_order_amount b)),
     (offset + 128, word_to_le (processed_order_remaining_amount b))]"

lemma bin_at_layout:
  assumes "offset + 141 \<le> length data"
  shows "b = bin_at data offset \<longleftrightarrow> list_all (shows_field data) (bin_layout offset b) \<and>
    (limit_order_ask_side b \<longleftrightarrow> data ! (offset + 140) \<noteq> 0)"
  using assms word_shown(3) [of data offset "amount_x b"] word_shown(3) [of data "offset + 8" "amount_y b"]
    word_shown(4) [of data "offset + 16" "price_q64 b"] word_shown(3) [of data "offset + 112" "open_order_amount b"]
    word_shown(3) [of data "offset + 128" "processed_order_remaining_amount b"]
  by (cases b) (auto simp: bin_at_def bin_layout_def reader_cases)

definition typed_array :: "parsed_bin_array \<Rightarrow> bool" where
  "typed_array arr \<longleftrightarrow> in_i64 (array_index arr) \<and> map fst (array_bins arr) = map of_nat [0..<70]"

lemma parse_array_layout:
  "parse_bin_array data = Ok arr \<longleftrightarrow> 10133 \<le> length data \<and> typed_array arr \<and>
    shows_field data (8, int_to_le 8 (array_index arr)) \<and>
    list_all (\<lambda>i. let b = snd (array_bins arr ! i) in
      list_all (shows_field data) (bin_layout (56 + 144 * i) b) \<and>
      (limit_order_ask_side b \<longleftrightarrow> data ! (196 + 144 * i) \<noteq> 0)) [0..<70]"
proof (cases "10133 \<le> length data")
  case True
  let ?bins = "map (\<lambda>i. (of_nat i :: u8, bin_at data (56 + 144 * i))) [0..<70]"
  have bin: "b = bin_at data (56 + 144 * i) \<longleftrightarrow> list_all (shows_field data) (bin_layout (56 + 144 * i) b) \<and>
      (limit_order_ask_side b \<longleftrightarrow> data ! (196 + 144 * i) \<noteq> 0)" if "i < 70" for b i
    using bin_at_layout [of "56 + 144 * i" data b] True that by (simp add: add.commute)
  have index: "int_from_le 8 (take 8 (drop 8 data)) = v \<longleftrightarrow> in_i64 v \<and> shows_field data (8, int_to_le 8 v)" for v
    using int_shown(2) [of data 8 v] True by (simp add: reader_cases)
  have "array_bins arr = ?bins \<longleftrightarrow> map fst (array_bins arr) = map of_nat [0..<70] \<and>
      (\<forall>i < 70. snd (array_bins arr ! i) = bin_at data (56 + 144 * i))"
    by (auto simp: list_eq_iff_nth_eq prod_eq_iff simp del: upt_rec_numeral)
  with bin have bins: "array_bins arr = ?bins \<longleftrightarrow> map fst (array_bins arr) = map of_nat [0..<70] \<and>
      list_all (\<lambda>i. let b = snd (array_bins arr ! i) in
        list_all (shows_field data) (bin_layout (56 + 144 * i) b) \<and>
        (limit_order_ask_side b \<longleftrightarrow> data ! (196 + 144 * i) \<noteq> 0)) [0..<70]"
    by (simp add: list_all_iff Let_def Ball_def del: upt_rec_numeral)
  have "parse_bin_array data = Ok arr \<longleftrightarrow>
      int_from_le 8 (take 8 (drop 8 data)) = array_index arr \<and> array_bins arr = ?bins"
    using True by (cases arr) (auto simp: parse_bin_array_eq simp del: upt_rec_numeral)
  with True bins index show ?thesis by (auto simp: typed_array_def simp del: upt_rec_numeral)
next
  case False
  then show ?thesis by (simp add: parse_bin_array_eq del: upt_rec_numeral)
qed

section \<open>Property\<close>

text \<open>C39. The accounts of a DLMM pair are read field by field from fixed offsets, and nothing else is accepted
  or refused.  The pair parser succeeds exactly on buffers of at least 712 bytes, with the one state
  whose fields, encoded in little endian at their width, stand at the offsets of \<open>pair_layout\<close>, the sixteen words
  of the bitmap in a row, and whose rewards are empty just when both mints are zero; the array
  parser exactly on buffers of at least 10133 bytes, with the array whose index stands at byte 8 and whose bin
  \<open>i\<close> at byte 56 + 144 i by \<open>bin_layout\<close>.  Every other buffer is \<open>InvalidInput\<close>.\<close>

theorem dlmm_accounts_exact:
  "(parse_lb_pair data = Ok pair \<longleftrightarrow> 712 \<le> length data \<and> typed_pair pair \<and>
      list_all (shows_field data) (pair_layout pair) \<and>
      (rewards_are_empty pair \<longleftrightarrow>
        take 32 (drop 264 data) = replicate 32 0 \<and> take 32 (drop 408 data) = replicate 32 0)) \<and>
   (parse_bin_array data = Ok arr \<longleftrightarrow> 10133 \<le> length data \<and> typed_array arr \<and>
      shows_field data (8, int_to_le 8 (array_index arr)) \<and>
      list_all (\<lambda>i. let b = snd (array_bins arr ! i) in
        list_all (shows_field data) (bin_layout (56 + 144 * i) b) \<and>
        (limit_order_ask_side b \<longleftrightarrow> data ! (196 + 144 * i) \<noteq> 0)) [0..<70]) \<and>
   parse_lb_pair data \<in> {Err InvalidInput} \<union> range Ok \<and> parse_bin_array data \<in> {Err InvalidInput} \<union> range Ok"
  using parse_pair_layout [of data pair] parse_array_layout [of data arr]
    parse_lb_pair_total [of data] parse_bin_array_eq [of data]
  by (auto split: if_splits simp del: upt_rec_numeral)

end
