(* ===== verification/Quote_Types.thy ===== *)
theory Quote_Types
  imports Best_Direction Account_Layout
begin

text \<open>
  Signed fields of the accounts are integers in the model and \<^verbatim>\<open>i32\<close> or \<^verbatim>\<open>i64\<close> in
  \<^verbatim>\<open>quote/accounts.rs\<close>.  Here: every parsed value is in the range of its Rust type, and every state
  of the walk keeps it there, so that no conversion of the source is lost in the model.
\<close>

section \<open>Values in the range of their Rust type\<close>

definition typed_walk :: "walk \<Rightarrow> bool" where
  "typed_walk w \<longleftrightarrow> in_i32 (walk_id w) \<and> typed_variable (walk_variable w) \<and>
    (\<forall>index \<in> set (walk_used w). in_i32 (index * 70) \<or> in_i32 (index * 70 + 69))"

lemma update_reference_typed:
  "in_i32 active \<Longrightarrow> typed_variable v \<Longrightarrow> typed_variable (update_reference active v s t)"
  by (simp add: typed_variable_def update_reference_def Let_def)

lemma fee_state_typed: "typed_variable (walk_variable w) \<Longrightarrow> typed_variable (fee_state pair w)"
  by (simp add: typed_variable_def fee_state_def update_volatility_accumulator_def Let_def)

lemma array_of_id_typed: "in_i32 i \<Longrightarrow> in_i32 (bin_array_index i * 70) \<or> in_i32 (bin_array_index i * 70 + 69)"
  using div_mult_mod_eq [of i 70] pos_mod_bound [of 70 i] pos_mod_sign [of 70 i]
  by (simp add: in_i32_def bin_array_index_def) linarith

lemma step_typed:
  assumes "typed_walk w" "snapshot_step pair arrays ext d i l w = Ok w'"
  shows "typed_walk w'"
  using assms(2)
proof (cases rule: snapshot_step_Ok)
  case skip
  with assms(1) show ?thesis by (simp add: typed_walk_def next_id_in_i32)
next
  case (spend b used)
  from mark_used_Ok [OF visit_bin_Some [OF spend(1)]] array_of_id_typed [of "walk_id w"] assms(1)
  have "\<forall>index \<in> set used. in_i32 (index * 70) \<or> in_i32 (index * 70 + 69)"
    by (auto simp: typed_walk_def)
  then show ?thesis
    using spend(2) assms(1) fee_state_typed [of w pair]
    by (auto elim!: spend_on_bin_Ok simp: typed_walk_def next_id_in_i32)
qed

lemma loop_typed:
  "typed_walk w \<Longrightarrow> snapshot_loop pair arrays ext d i l n w = Ok w' \<Longrightarrow> typed_walk w'"
  by (induction n arbitrary: w) (auto simp: result_iff split: if_splits dest: step_typed)

text \<open>Whatever bytes the pair and the bin arrays have, parsed values are in range, and so is every state of
  the walk, in either direction and with either fee mode.\<close>

lemma quote_values_typed:
  assumes "parse_lb_pair data = Ok pair"
    and "list_all2 (\<lambda>bytes arr. parse_bin_array bytes = Ok arr) datas arrays"
    and "snapshot_loop pair arrays ext d i l n
      \<lparr>walk_id = active_id pair, walk_remaining = amount, walk_out = 0, walk_fee = 0, walk_used = [],
       walk_variable = update_reference (active_id pair) (variable_parameters pair) (static_parameters pair) t\<rparr> = Ok w"
  shows "typed_pair pair \<and> list_all typed_array arrays \<and> typed_walk w"
proof -
  have pair: "typed_pair pair" using assms(1) by (simp add: parse_pair_layout)
  have "list_all typed_array arrays"
    using assms(2) by (induction rule: list_all2_induct) (simp_all add: parse_array_layout)
  moreover have "typed_walk w"
    by (rule loop_typed [OF _ assms(3)]) (use pair in \<open>simp add: typed_pair_def typed_walk_def update_reference_typed\<close>)
  ultimately show ?thesis using pair by blast
qed

end
