(* ===== verification/Session.thy ===== *)
theory Session
  imports Program_Entry
begin

text \<open>
  Transactions one after another, as the two token accounts of a trader see them: some run an
  instruction of \<^verbatim>\<open>lib.rs\<close> on these accounts and are committed when that succeeds and reverted
  otherwise; the others leave the two accounts alone.  The guarantee of one instruction becomes an
  invariant of every such history.
\<close>

section \<open>Histories of two token accounts\<close>

text \<open>What Anchor deserialises at the start of an instruction, by the layout \<open>reload\<close> of token accounts.\<close>

definition load_accounts :: "(account \<Rightarrow> token_fields option) \<Rightarrow> pubkey \<Rightarrow> pubkey \<Rightarrow> store \<Rightarrow> exec option" where
  "load_accounts reload wsol_key target_key st =
    (case (reload (st wsol_key), reload (st target_key)) of
      (Some wsol, Some target) \<Rightarrow>
        Some \<lparr>exec_store = st, exec_wsol = wsol, exec_target = target, exec_events = []\<rparr>
    | _ \<Rightarrow> None)"

text \<open>A transaction on the two accounts; its clock, the programs it calls, its pools and all its other
  accounts are its own.\<close>

definition trades_on ::
    "(account \<Rightarrow> token_fields option) \<Rightarrow> pubkey \<Rightarrow> pubkey \<Rightarrow> env \<Rightarrow> execute_route \<Rightarrow> bool" where
  "trades_on reload wsol_key target_key env r \<longleftrightarrow> env_reload env = reload \<and>
    info_key (er_user_wsol r) = wsol_key \<and> info_key (er_user_target r) = target_key"

text \<open>The profits are those demanded by the committed transactions of the program, in order.\<close>

inductive session ::
    "(account \<Rightarrow> token_fields option) \<Rightarrow> pubkey \<Rightarrow> pubkey \<Rightarrow> store \<Rightarrow> u64 list \<Rightarrow> store \<Rightarrow> bool"
  for reload wsol_key target_key st where
  start: "session reload wsol_key target_key st [] st"
| commit: "session reload wsol_key target_key st profits st1 \<Longrightarrow> trades_on reload wsol_key target_key env r \<Longrightarrow>
    load_accounts reload wsol_key target_key st1 = Some s \<Longrightarrow> process env r remaining i s = Ok s' \<Longrightarrow>
    session reload wsol_key target_key st (profits @ [demanded_profit i]) (exec_store s')"
| revert: "session reload wsol_key target_key st profits st1 \<Longrightarrow> trades_on reload wsol_key target_key env r \<Longrightarrow>
    load_accounts reload wsol_key target_key st1 = Some s \<Longrightarrow> (\<And>s'. process env r remaining i s \<noteq> Ok s') \<Longrightarrow>
    session reload wsol_key target_key st profits st1"
| other: "session reload wsol_key target_key st profits st1 \<Longrightarrow>
    st2 wsol_key = st1 wsol_key \<Longrightarrow> st2 target_key = st1 target_key \<Longrightarrow>
    session reload wsol_key target_key st profits st2"

lemma load_accounts_Some:
  "load_accounts reload wsol_key target_key st = Some s \<longleftrightarrow> exec_store s = st \<and> exec_events s = [] \<and>
    reload (st wsol_key) = Some (exec_wsol s) \<and> reload (st target_key) = Some (exec_target s)"
  by (cases s) (auto simp: load_accounts_def split: option.splits)

text \<open>One committed transaction.\<close>

lemma commit_profitable:
  assumes "process env r remaining i s = Ok s'" "trades_on reload wsol_key target_key env r"
  shows "\<exists>u. load_accounts reload wsol_key target_key (exec_store s') = Some u \<and>
    unat (token_balance (exec_wsol s)) + unat (demanded_profit i) \<le> unat (token_balance (exec_wsol u)) \<and>
    token_balance (exec_target u) = token_balance (exec_target s)"
proof -
  from process_executes [OF assms(1)] obtain arrays amount d events where
    run: "execute_direction env r arrays amount (demanded_profit i) d
      (s\<lparr>exec_events := exec_events s @ events\<rparr>) = Ok s'" by blast
  have "load_accounts reload wsol_key target_key (exec_store s') = Some (s'\<lparr>exec_events := []\<rparr>)"
    using execute_direction_reloads [OF run] assms(2) by (simp add: load_accounts_Some trades_on_def)
  with execute_direction_profit [OF run] show ?thesis by (intro exI [of _ "s'\<lparr>exec_events := []\<rparr>"]) simp
qed

section \<open>Property\<close>

text \<open>C40. Over any history of the two token accounts of a trader, in which transactions of the program of any
  kind, each with its own clock, pools, bin arrays, accounts and called programs (which do whatever they
  like), are committed or reverted, and between which other transactions change any account but these
  two, the WSOL balance grows by at least the sum of the profits that the committed transactions
  demanded, the target balance is the one at the start, and both accounts can be read at the end.\<close>

theorem session_profitable:
  assumes "session reload wsol_key target_key st profits st'"
    and "load_accounts reload wsol_key target_key st = Some s"
  shows "\<exists>s'. load_accounts reload wsol_key target_key st' = Some s' \<and>
    unat (token_balance (exec_wsol s)) + (\<Sum>p \<leftarrow> profits. unat p) \<le> unat (token_balance (exec_wsol s')) \<and>
    token_balance (exec_target s') = token_balance (exec_target s)"
  using assms
proof (induction rule: session.induct)
  case (commit profits st1 env r s1 remaining i s2)
  then obtain s3 where s3: "load_accounts reload wsol_key target_key st1 = Some s3"
    "unat (token_balance (exec_wsol s)) + (\<Sum>p \<leftarrow> profits. unat p) \<le> unat (token_balance (exec_wsol s3))"
    "token_balance (exec_target s3) = token_balance (exec_target s)" by blast
  with commit.hyps(3) have "s3 = s1" by simp
  with s3 commit_profitable [OF commit.hyps(4,2)] show ?case by fastforce
next
  case (other profits st1 st2)
  then obtain s3 where s3: "load_accounts reload wsol_key target_key st1 = Some s3"
    "unat (token_balance (exec_wsol s)) + (\<Sum>p \<leftarrow> profits. unat p) \<le> unat (token_balance (exec_wsol s3))"
    "token_balance (exec_target s3) = token_balance (exec_target s)" by blast
  with other.hyps(2,3) have "load_accounts reload wsol_key target_key st2 = Some (s3\<lparr>exec_store := st2\<rparr>)"
    by (simp add: load_accounts_Some)
  with s3 show ?case by (intro exI [of _ "s3\<lparr>exec_store := st2\<rparr>"]) simp
qed auto

text \<open>A history: an attempt at another time, whose called programs fail and whose amount is zero; a
  committed transaction; and a change of the pool's account by somebody else.\<close>

theorem session_profitable_witness:
  "\<exists>st' s'. session run_reload (key 3) (key 4) run_store [500] st' \<and> st' (key 5) \<noteq> run_store (key 5) \<and>
    load_accounts run_reload (key 3) (key 4) st' = Some s' \<and>
    5000 + 500 \<le> unat (token_balance (exec_wsol s')) \<and> token_balance (exec_target s') = 5"
proof -
  have "run_store (key 3) = token_account WSOL_MINT [136, 19, 0, 0, 0, 0, 0, 0]"
    "run_store (key 4) = token_account (key 2) [5, 0, 0, 0, 0, 0, 0, 0]"
    by (simp_all add: run_store_def)
  then have load: "load_accounts run_reload (key 3) (key 4) run_store = Some run_exec"
    by (simp add: load_accounts_Some run_exec_def run_reloads run_wsol_def run_target_def)
      (simp add: word_from_le_def)
  have on: "trades_on run_reload (key 3) (key 4) run_env run_route"
    "trades_on run_reload (key 3) (key 4)
      (run_env\<lparr>env_clock := Some 900, env_invoke := \<lambda>_ _ _. Err 1\<rparr>) run_route"
    by (simp_all add: trades_on_def run_env_def run_route_def plain_info_def)
  have "process (run_env\<lparr>env_clock := Some 900, env_invoke := \<lambda>_ _ _. Err 1\<rparr>) run_route []
      (ExecutePumpToMeteora \<lparr>wsol_amount_in = 0, min_profit_lamports = 1\<rparr>) run_exec \<noteq> Ok s2" for s2
    by (simp add: process_def pump_to_meteora_handler_def validate_args_def require_def result_iff)
  from session.revert [OF session.start on(2) load this]
  have reverted: "session run_reload (key 3) (key 4) run_store [] run_store" .
  obtain s' where s': "process run_env run_route run_bin_arrays (ExecuteBestDirectionDynamic
      \<lparr>min_wsol_amount_in = 1000, max_wsol_amount_in = 1000, dynamic_min_profit_lamports = 500\<rparr>) run_exec = Ok s'"
    using run_process by blast
  from session.commit [OF reverted on(1) load this]
  have committed: "session run_reload (key 3) (key 4) run_store [500] (exec_store s')" by simp
  let ?st = "(exec_store s')(key 5 := (run_store (key 5))\<lparr>acc_executable := \<not> acc_executable (run_store (key 5))\<rparr>)"
  have "key 3 \<noteq> key 5" "key 4 \<noteq> key 5" by simp_all
  then have final: "session run_reload (key 3) (key 4) run_store [500] ?st"
    by (intro session.other [OF committed]) simp_all
  have "?st (key 5) \<noteq> run_store (key 5)" by (cases "run_store (key 5)") simp
  with session_profitable [OF final load] final show ?thesis
    by (auto simp: run_exec_def run_wsol_def run_target_def)
qed

end
