(* ===== verification/Quote_Probe.thy ===== *)
theory Quote_Probe
  imports Best_Direction Pump_Quote
begin

text \<open>
  The probe program \<^verbatim>\<open>src/test-programs/quote-probe\<close>: it runs the production quotes on accounts given
  to it and logs the results (\<^verbatim>\<open>lib.rs\<close>), or tries a few amounts in both directions and logs the best
  (\<^verbatim>\<open>amount_search.rs\<close>).  A log line is the value that it prints.  The main result is that a row of
  the amount probe is what the best-direction instruction would be quoted on the same accounts.
\<close>

section \<open>Rows and the choice\<close>

definition MAX_TRIALS :: usize where "MAX_TRIALS = 9"

record market =
  mk_base :: u64
  mk_quote :: u64
  mk_virtual_quote :: u64
  mk_fees :: pump_fees
  mk_pair :: lb_pair_state
  mk_arrays :: "parsed_bin_array list"
  mk_target_is_x :: bool
  mk_timestamp :: i64

text \<open>A row stores two results as values; a panic of a quote is not a value (\<open>stored\<close> lets it
  through).\<close>

record probe_row =
  row_input :: u64
  row_forward :: "(quote_error, u64) result"
  row_reverse :: "(quote_error, u64) result"

fun stored :: "('e, 'a) result \<Rightarrow> ('f, ('e, 'a) result) result" where
  "stored (Ok x) = Ok (Ok x)"
| "stored (Err e) = Ok (Err e)"
| "stored Panic = Panic"

record probe_choice =
  pc_input :: u64
  pc_output :: u64
  pc_reverse :: bool

definition consider_row ::
    "u64 \<Rightarrow> u64 \<Rightarrow> bool \<Rightarrow> (quote_error, u64) result \<Rightarrow> probe_choice option
      \<Rightarrow> ('e, probe_choice option) result" where
  "consider_row min_profit input reverse quoted best =
    (case quoted of
      Ok output \<Rightarrow>
        (case checked_sub output input of
          None \<Rightarrow> Ok best
        | Some profit \<Rightarrow>
            let this = \<lparr>pc_input = input, pc_output = output, pc_reverse = reverse\<rparr> in
            if profit < min_profit then Ok best
            else
              (case best of
                None \<Rightarrow> Ok (Some this)
              | Some b \<Rightarrow>
                  map_ok (\<lambda>current. if current < profit then Some this else best)
                    (sub_or_panic (pc_output b) (pc_input b))))
    | _ \<Rightarrow> Ok best)"

fun choose_loop :: "u64 \<Rightarrow> probe_row list \<Rightarrow> probe_choice option \<Rightarrow> ('e, probe_choice option) result" where
  "choose_loop min_profit [] best = Ok best"
| "choose_loop min_profit (row # rows) best =
    and_then (consider_row min_profit (row_input row) False (row_forward row) best) (\<lambda>best.
    and_then (consider_row min_profit (row_input row) True (row_reverse row) best)
      (choose_loop min_profit rows))"

definition choose_row :: "probe_row list \<Rightarrow> u64 \<Rightarrow> ('e, probe_choice option) result" where
  "choose_row rows min_profit = choose_loop min_profit rows None"

section \<open>The market and its rows\<close>

definition market_parse :: "env \<Rightarrow> u8 list list \<Rightarrow> i64 \<Rightarrow> (quote_error, market) result" where
  "market_parse env data timestamp =
    and_then (require (8 \<le> length data \<and> length data \<le> 11) InvalidInput) (\<lambda>_.
    and_then (parse_pump_pool (data ! 0)) (\<lambda>pool.
    and_then (token_amount (data ! 4)) (\<lambda>base.
    and_then (token_amount (data ! 5)) (\<lambda>quote.
    let expected_creator = env_find_program_address env
      [ascii ''pool-authority'', pool_base_mint pool] PUMP_PROGRAM_ID in
    and_then (parse_pump_global_fees (data ! 1)) (\<lambda>global.
    and_then (mint_supply (data ! 3)) (\<lambda>supply.
    and_then (ok_or MathOverflow (checked_add quote (pool_virtual_quote_reserves pool)))
      (\<lambda>effective_quote_reserve.
    and_then (select_pump_fees_from_data (data ! 2) global (pool_creator pool = expected_creator)
      supply base effective_quote_reserve) (\<lambda>fees.
    let fees = (if pool_coin_creator pool = replicate 32 0 then fees \<lparr>creator_fee_bps := 0\<rparr>
      else fees) in
    and_then (parse_lb_pair (data ! 6)) (\<lambda>pair.
    let target_is_x = (slice (data ! 6) 88 32 = Some (pool_base_mint pool)) in
    and_then (require (target_is_x \<or> slice (data ! 6) 120 32 = Some (pool_base_mint pool)) InvalidInput)
      (\<lambda>_.
    and_then (collect (\<lambda>d. parse_bin_array_window d (active_id pair)) (drop 7 data)) (\<lambda>arrays.
    Ok \<lparr>mk_base = base, mk_quote = quote, mk_virtual_quote = pool_virtual_quote_reserves pool,
       mk_fees = fees, mk_pair = pair, mk_arrays = arrays, mk_target_is_x = target_is_x,
       mk_timestamp = timestamp\<rparr>)))))))))))"

definition market_row :: "market \<Rightarrow> u64 \<Rightarrow> ('e, probe_row) result" where
  "market_row m input =
    (let f = mk_fees m in
     and_then (stored (map_ok quote_amount_out
       (and_then (pump_buy_exact_quote_in input (mk_base m) (mk_quote m) (mk_virtual_quote m)
         (lp_fee_bps f) (protocol_fee_bps f) (creator_fee_bps f)) (\<lambda>buy.
       quote_dlmm_snapshot (quote_amount_out buy) (mk_pair m) (mk_arrays m) (mk_target_is_x m)
         (mk_timestamp m))))) (\<lambda>forward.
     and_then (stored (map_ok quote_amount_out
       (and_then (quote_dlmm_snapshot input (mk_pair m) (mk_arrays m) (\<not> mk_target_is_x m)
         (mk_timestamp m)) (\<lambda>buy.
       pump_sell_base_in (quote_amount_out buy) (mk_base m) (mk_quote m) (mk_virtual_quote m)
         (lp_fee_bps f) (protocol_fee_bps f) (creator_fee_bps f))))) (\<lambda>reverse.
     Ok \<lparr>row_input = input, row_forward = forward, row_reverse = reverse\<rparr>)))"

text \<open>What the programs log.  The lines with the compute units left are not modelled.\<close>

datatype probe_line =
    PumpLine u64 u64 u64
  | DlmmLine u64 u64 u64 usize
  | SyntheticLine u64 usize
  | RealLine u64 u64
  | RowLine probe_row
  | BestLine "probe_choice option"

text \<open>Borrowing the data of an account fails only while it is borrowed mutably, which nothing here does;
  so \<open>accounts\<close> are the bytes.\<close>

definition search_process ::
    "env \<Rightarrow> u8 list list \<Rightarrow> u8 list \<Rightarrow> (solana_error, probe_line list) result" where
  "search_process env accounts data =
    (if length data < 18 then Err InvalidInstructionData
     else
       let count = unat (data ! 9) in
       if count = 0 \<or> MAX_TRIALS < count \<or> length data \<noteq> 10 + 8 * count then Err InvalidInstructionData
       else
         let timestamp = int_from_le 8 (take 8 (drop 1 data)) in
         and_then (map_err (\<lambda>_. SolanaInvalidAccountData) (market_parse env accounts timestamp)) (\<lambda>m.
         and_then (collect (\<lambda>k. market_row m (word_from_le (take 8 (drop (10 + 8 * k) data)))) [0..<count])
           (\<lambda>rows.
         map_ok (\<lambda>best. map RowLine rows @ [BestLine best]) (choose_row rows 1))))"

section \<open>Single quotes\<close>

definition probe_read_u64 :: "u8 list \<Rightarrow> usize \<Rightarrow> (solana_error, u64) result" where
  "probe_read_u64 data offset =
    and_then (ok_or InvalidInstructionData (slice data offset 8)) (\<lambda>bs. Ok (word_from_le bs))"

text \<open>\<open>from_le_bytes\<close> of a subslice, which panics when it is out of bounds.\<close>

definition word_at :: "u8 list \<Rightarrow> usize \<Rightarrow> usize \<Rightarrow> ('e, 'w::len word) result" where
  "word_at data offset n = map_ok word_from_le (or_panic (slice data offset n))"

definition probe_pump :: "u8 list \<Rightarrow> (solana_error, probe_line list) result" where
  "probe_pump data =
    (if length data \<noteq> 39 then Err InvalidInstructionData
     else
       and_then (probe_read_u64 data 1) (\<lambda>quote_in.
       and_then (probe_read_u64 data 9) (\<lambda>base_reserve.
       and_then (probe_read_u64 data 17) (\<lambda>quote_reserve.
       and_then (probe_read_u64 data 25) (\<lambda>virtual_quote_reserves.
       and_then (word_at data 33 2) (\<lambda>lp.
       and_then (word_at data 35 2) (\<lambda>protocol.
       and_then (word_at data 37 2) (\<lambda>creator.
       map_ok (\<lambda>r. [PumpLine (quote_amount_in r) (quote_amount_out r) (quote_fee r)])
         (map_err (\<lambda>_. InvalidArgument) (pump_buy_exact_quote_in quote_in base_reserve quote_reserve
           virtual_quote_reserves lp protocol creator))))))))))"

definition probe_bin :: "u8 list \<Rightarrow> usize \<Rightarrow> (solana_error, bin) result" where
  "probe_bin data index =
    (let offset = 25 + index * 32 in
     and_then (word_at data offset 16) (\<lambda>price.
     and_then (probe_read_u64 data (offset + 16)) (\<lambda>x.
     and_then (probe_read_u64 data (offset + 24)) (\<lambda>y.
     Ok \<lparr>price_q64 = price, amount_x = x, amount_y = y, open_order_amount = 0,
       processed_order_remaining_amount = 0, limit_order_ask_side = False\<rparr>))))"

definition probe_dlmm :: "u8 list \<Rightarrow> (solana_error, probe_line list) result" where
  "probe_dlmm data =
    (if length data < 25 then Err InvalidInstructionData
     else
       and_then (probe_read_u64 data 1) (\<lambda>amount_in.
       let bin_count = unat (data ! 9) in
       if bin_count = 0 \<or> 140 < bin_count \<or> length data \<noteq> 25 + bin_count * 32
       then Err InvalidInstructionData
       else
         and_then (word_at data 12 2) (\<lambda>step.
         and_then (word_at data 14 2) (\<lambda>factor.
         and_then (word_at data 17 4) (\<lambda>control.
         and_then (word_at data 21 4) (\<lambda>volatility.
         let parameters = \<lparr>fee_bin_step = step, fee_base_factor = factor,
           fee_base_fee_power_factor = data ! 16, fee_variable_fee_control = control,
           fee_volatility_accumulator = volatility\<rparr> in
         and_then (collect (probe_bin data) [0..<bin_count]) (\<lambda>bins.
         map_ok (\<lambda>r. [DlmmLine (quote_amount_in r) (quote_amount_out r) (quote_fee r) bin_count])
           (map_err (\<lambda>_. InvalidArgument) (dlmm_quote_exact_in amount_in bins (data ! 10 \<noteq> 0)
             (data ! 11 \<noteq> 0) parameters)))))))))"

definition synthetic_bin :: "usize \<Rightarrow> usize \<Rightarrow> (solana_error, bin) result" where
  "synthetic_bin bin_count index =
    and_then (mul_or_panic (push_bit 64 1) (ucast (saturating_sub (10000 :: u16) (of_nat index))))
      (\<lambda>scaled.
    and_then (div_or_panic scaled 10000) (\<lambda>price.
    Ok \<lparr>price_q64 = price, amount_x = 0,
      amount_y = (if index + 1 = bin_count then 10000000 else 1), open_order_amount = 0,
      processed_order_remaining_amount = 0, limit_order_ask_side = False\<rparr>))"

definition probe_synthetic :: "u8 list \<Rightarrow> (solana_error, probe_line list) result" where
  "probe_synthetic data =
    (if length data < 2 then Err InvalidInstructionData
     else
       let bin_count = unat (data ! 1) in
       if bin_count = 0 \<or> 140 < bin_count then Err InvalidInstructionData
       else
         and_then (collect (synthetic_bin bin_count) [0..<bin_count]) (\<lambda>bins.
         map_ok (\<lambda>r. [SyntheticLine (quote_amount_out r) bin_count])
           (map_err (\<lambda>_. InvalidArgument) (dlmm_quote_exact_in 5000000 bins True True
             \<lparr>fee_bin_step = 10, fee_base_factor = 200, fee_base_fee_power_factor = 0,
              fee_variable_fee_control = 100, fee_volatility_accumulator = 1000\<rparr>))))"

text \<open>The quote of both directions on a snapshot of the accounts; unlike \<open>market_parse\<close> it takes every
  pool to be a Pump pool and the target to be token X.\<close>

definition invalid_account :: "(quote_error, 'a) result \<Rightarrow> (solana_error, 'a) result" where
  "invalid_account r = map_err (\<lambda>_. SolanaInvalidAccountData) r"

definition invalid_argument :: "(quote_error, 'a) result \<Rightarrow> (solana_error, 'a) result" where
  "invalid_argument r = map_err (\<lambda>_. InvalidArgument) r"

definition probe_real :: "u8 list list \<Rightarrow> u8 list \<Rightarrow> (solana_error, probe_line list) result" where
  "probe_real accounts data =
    (if length data \<noteq> 17 \<or> length accounts < 8 then Err InvalidInstructionData
     else
       let timestamp = int_from_le 8 (take 8 (drop 1 data)) in
       and_then (probe_read_u64 data 9) (\<lambda>input.
       and_then (invalid_account (parse_pump_pool (accounts ! 0))) (\<lambda>pool.
       and_then (invalid_account (token_amount (accounts ! 4))) (\<lambda>base_reserve.
       and_then (invalid_account (token_amount (accounts ! 5))) (\<lambda>quote_reserve.
       and_then (invalid_account (parse_pump_fee_config (accounts ! 2))) (\<lambda>config.
       and_then (invalid_account (parse_pump_global_fees (accounts ! 1))) (\<lambda>global.
       and_then (invalid_account (mint_supply (accounts ! 3))) (\<lambda>supply.
       and_then (ok_or SolanaArithmeticOverflow
         (checked_add quote_reserve (pool_virtual_quote_reserves pool))) (\<lambda>effective.
       and_then (invalid_account (select_pump_fees (Some config) global True supply base_reserve effective))
         (\<lambda>fees.
       and_then (invalid_account (parse_lb_pair (accounts ! 6))) (\<lambda>pair.
       and_then (invalid_account (parse_bin_array (accounts ! 7))) (\<lambda>arr.
       let arrays = [arr] in
       and_then (invalid_argument (pump_buy_exact_quote_in input base_reserve quote_reserve
         (pool_virtual_quote_reserves pool) (lp_fee_bps fees) (protocol_fee_bps fees) (creator_fee_bps fees)))
         (\<lambda>pump_buy.
       and_then (invalid_argument (quote_dlmm_snapshot (quote_amount_out pump_buy) pair arrays True timestamp))
         (\<lambda>forward.
       and_then (invalid_argument (quote_dlmm_snapshot input pair arrays False timestamp)) (\<lambda>reverse.
       and_then (invalid_argument (pump_sell_base_in (quote_amount_out reverse) base_reserve quote_reserve
         (pool_virtual_quote_reserves pool) (lp_fee_bps fees) (protocol_fee_bps fees) (creator_fee_bps fees)))
         (\<lambda>reverse_final.
       Ok [RealLine (quote_amount_out forward) (quote_amount_out reverse_final)]))))))))))))))))"

definition probe_process ::
    "env \<Rightarrow> u8 list list \<Rightarrow> u8 list \<Rightarrow> (solana_error, probe_line list) result" where
  "probe_process env accounts data =
    (case data of
      [] \<Rightarrow> Err InvalidInstructionData
    | tag # _ \<Rightarrow>
        if tag = 4 then search_process env accounts data
        else if tag = 0 then probe_pump data
        else if tag = 1 then probe_dlmm data
        else if tag = 2 then probe_synthetic data
        else if tag = 255 then Ok []
        else if tag = 3 then probe_real accounts data
        else Err InvalidInstructionData)"

section \<open>The best row\<close>

text \<open>What a choice may be: a quoted direction of a row with at least the demanded profit.\<close>

definition offered :: "probe_row list \<Rightarrow> u64 \<Rightarrow> probe_choice \<Rightarrow> bool" where
  "offered rows min_profit c \<longleftrightarrow> (\<exists>row \<in> set rows. pc_input c = row_input row \<and>
    (if pc_reverse c then row_reverse row else row_forward row) = Ok (pc_output c) \<and>
    pc_input c \<le> pc_output c \<and> min_profit \<le> pc_output c - pc_input c)"

definition probe_best :: "(probe_choice \<Rightarrow> bool) \<Rightarrow> probe_choice option \<Rightarrow> bool" where
  "probe_best P b \<longleftrightarrow> (case b of None \<Rightarrow> \<forall>c. \<not> P c
    | Some c \<Rightarrow> P c \<and> pc_input c \<le> pc_output c \<and>
        (\<forall>c'. P c' \<longrightarrow> pc_output c' - pc_input c' \<le> pc_output c - pc_input c))"

lemma consider_row_best:
  assumes "probe_best P best" "\<And>c. P c \<Longrightarrow> pc_input c \<le> pc_output c"
  shows "\<exists>b. (consider_row min_profit input reverse quoted best :: ('e, probe_choice option) result) = Ok b \<and>
    probe_best (\<lambda>c. P c \<or> pc_input c = input \<and> pc_reverse c = reverse \<and> quoted = Ok (pc_output c) \<and>
      input \<le> pc_output c \<and> min_profit \<le> pc_output c - input) b"
proof -
  let ?Q = "\<lambda>c. pc_input c = input \<and> pc_reverse c = reverse \<and> quoted = Ok (pc_output c) \<and>
      input \<le> pc_output c \<and> min_profit \<le> pc_output c - input"
  show ?thesis
  proof (cases "\<exists>amount. quoted = Ok amount \<and> input \<le> amount \<and> min_profit \<le> amount - input")
    case False
    then have "(\<lambda>c. P c \<or> ?Q c) = P" by (auto simp: fun_eq_iff)
    moreover have "(consider_row min_profit input reverse quoted best :: ('e, probe_choice option) result) = Ok best"
      using False by (auto simp: consider_row_def checked_sub_def Let_def not_le split: result.split)
    ultimately show ?thesis using assms(1) by (intro exI [of _ best]) simp
  next
    case True
    then obtain amount where o: "quoted = Ok amount" "input \<le> amount" "min_profit \<le> amount - input" by blast
    let ?choice = "\<lparr>pc_input = input, pc_output = amount, pc_reverse = reverse\<rparr>"
    have Q: "?Q c \<longleftrightarrow> c = ?choice" for c using o by auto
    show ?thesis
    proof (cases best)
      case None
      with assms(1) o show ?thesis
        unfolding Q by (auto simp: consider_row_def checked_sub_def Let_def probe_best_def)
    next
      case (Some b)
      then have b: "pc_input b \<le> pc_output b" using assms(1) by (simp add: probe_best_def)
      let ?new = "if pc_output b - pc_input b < amount - input then Some ?choice else best"
      have "(consider_row min_profit input reverse quoted best :: ('e, probe_choice option) result) = Ok ?new"
        using Some o by (simp add: consider_row_def checked_sub_def Let_def sub_or_panic_le [OF b] not_less)
      moreover have "probe_best (\<lambda>c. P c \<or> c = ?choice) ?new"
        using Some assms(1) o(2) by (auto simp: probe_best_def intro: order_trans)
      ultimately show ?thesis unfolding Q by blast
    qed
  qed
qed

lemma choose_loop_best:
  assumes "probe_best P best" "\<And>c. P c \<Longrightarrow> pc_input c \<le> pc_output c"
  shows "\<exists>b. (choose_loop min_profit rows best :: ('e, probe_choice option) result) = Ok b \<and>
    probe_best (\<lambda>c. P c \<or> offered rows min_profit c) b"
  using assms
proof (induction rows arbitrary: P best)
  case Nil
  then show ?case by (simp add: offered_def)
next
  case (Cons row rows)
  let ?F = "\<lambda>c. P c \<or> pc_input c = row_input row \<and> pc_reverse c = False \<and> row_forward row = Ok (pc_output c) \<and>
      row_input row \<le> pc_output c \<and> min_profit \<le> pc_output c - row_input row"
  let ?R = "\<lambda>c. ?F c \<or> pc_input c = row_input row \<and> pc_reverse c = True \<and> row_reverse row = Ok (pc_output c) \<and>
      row_input row \<le> pc_output c \<and> min_profit \<le> pc_output c - row_input row"
  obtain f where f: "(consider_row min_profit (row_input row) False (row_forward row) best
      :: ('e, probe_choice option) result) = Ok f" "probe_best ?F f"
    using consider_row_best [OF Cons.prems] by blast
  have F: "pc_input c \<le> pc_output c" if "?F c" for c using that Cons.prems(2) by auto
  obtain v where v: "(consider_row min_profit (row_input row) True (row_reverse row) f
      :: ('e, probe_choice option) result) = Ok v" "probe_best ?R v"
    using consider_row_best [OF f(2) F] by blast
  have R: "pc_input c \<le> pc_output c" if "?R c" for c using that F by auto
  obtain b where b: "(choose_loop min_profit rows v :: ('e, probe_choice option) result) = Ok b"
    "probe_best (\<lambda>c. ?R c \<or> offered rows min_profit c) b"
    using Cons.IH [OF v(2) R] by blast
  have "(\<lambda>c. ?R c \<or> offered rows min_profit c) = (\<lambda>c. P c \<or> offered (row # rows) min_profit c)"
    by (auto simp: offered_def fun_eq_iff split: if_splits)
  with f(1) v(1) b show ?case by simp
qed

lemma choose_best:
  "\<exists>b. (choose_row rows min_profit :: ('e, probe_choice option) result) = Ok b \<and> probe_best (offered rows min_profit) b"
  using choose_loop_best [of "\<lambda>_. False" None min_profit rows]
  by (simp add: choose_row_def probe_best_def)


section \<open>The rows are production quotes\<close>

text \<open>The accounts of a route in the order of the probe.\<close>

definition probe_accounts :: "execute_route \<Rightarrow> account_info list \<Rightarrow> account_info list" where
  "probe_accounts r arrays =
    [er_pump_pool r, er_pump_global_config r, er_pump_fee_config r, er_target_mint r,
     er_pump_pool_base_token_account r, er_pump_pool_quote_token_account r, er_meteora_lb_pair r] @ arrays"

text \<open>Inputs and arrays that the instructions read from the same accounts.\<close>

definition market_matches :: "store \<Rightarrow> account_info list \<Rightarrow> pool_inputs \<Rightarrow> market \<Rightarrow> bool" where
  "market_matches st arrays p m \<longleftrightarrow> mk_base m = in_base_reserve p \<and> mk_quote m = in_quote_reserve p \<and>
    mk_virtual_quote m = in_virtual_quote_reserves p \<and> mk_fees m = in_fees p \<and> mk_pair m = in_pair p \<and>
    mk_target_is_x m = in_target_is_x p \<and> in_i32 (active_id (in_pair p)) \<and>
    list_all2 (\<lambda>a win. parse_bin_array_window (info_data st a) (active_id (in_pair p)) = Ok win) arrays (mk_arrays m)"

lemma market_parse_matches:
  assumes "market_parse env (map (info_data st) (probe_accounts r arrays)) t = Ok m"
    and "read_inputs env st r = Ok p"
    and "mint_supply (info_data st (er_target_mint r)) = Ok (er_target_mint_supply r)"
    and "take 32 (drop 43 (info_data st (er_pump_pool r))) = info_key (er_target_mint r)"
  shows "market_matches st arrays p m \<and> mk_timestamp m = t"
proof -
  let ?pool = "info_data st (er_pump_pool r)" and ?pair = "info_data st (er_meteora_lb_pair r)"
  from assms(1) obtain pool base quote global effective fees pair windows where market:
    "parse_pump_pool ?pool = Ok pool"
    "token_amount (info_data st (er_pump_pool_base_token_account r)) = Ok base"
    "token_amount (info_data st (er_pump_pool_quote_token_account r)) = Ok quote"
    "parse_pump_global_fees (info_data st (er_pump_global_config r)) = Ok global"
    "checked_add quote (pool_virtual_quote_reserves pool) = Some effective"
    "select_pump_fees_from_data (info_data st (er_pump_fee_config r)) global
      (pool_creator pool = env_find_program_address env [ascii ''pool-authority'', pool_base_mint pool] PUMP_PROGRAM_ID)
      (er_target_mint_supply r) base effective = Ok fees"
    "parse_lb_pair ?pair = Ok pair"
    "collect (\<lambda>d. parse_bin_array_window d (active_id pair)) (map (info_data st) arrays) = Ok windows"
    "m = \<lparr>mk_base = base, mk_quote = quote, mk_virtual_quote = pool_virtual_quote_reserves pool,
       mk_fees = (if pool_coin_creator pool = replicate 32 0 then fees \<lparr>creator_fee_bps := 0\<rparr> else fees),
       mk_pair = pair, mk_arrays = windows, mk_target_is_x = (slice ?pair 88 32 = Some (pool_base_mint pool)),
       mk_timestamp = t\<rparr>"
    unfolding market_parse_def Let_def
    by (auto simp: result_iff probe_accounts_def nth_Cons' assms(3))
  have mint: "pool_base_mint pool = info_key (er_target_mint r)"
    using market(1) assms(4) by (auto simp: parse_pump_pool_def bytes_def result_iff split: if_splits)
  from assms(2) obtain prefix where prefix: "parse_meteora_pair ?pair = Ok prefix"
    and p: "p = \<lparr>in_base_reserve = base, in_quote_reserve = quote,
       in_virtual_quote_reserves = pool_virtual_quote_reserves pool,
       in_fees = (if pool_coin_creator pool = replicate 32 0 then fees \<lparr>creator_fee_bps := 0\<rparr> else fees),
       in_pair = pair, in_target_is_x = (pair_token_x_mint prefix = info_key (er_target_mint r))\<rparr>"
    using market mint unfolding read_inputs_def Let_def by (auto simp: result_iff)
  have x: "slice ?pair 88 32 = Some (info_key (er_target_mint r)) \<longleftrightarrow>
      pair_token_x_mint prefix = info_key (er_target_mint r)"
    using prefix by (auto simp: slice_def parse_meteora_pair_Ok)
  have "in_i32 (active_id pair)" using parse_lb_pair_total [of ?pair] market(7) by (auto split: if_splits)
  moreover have "list_all2 (\<lambda>a win. parse_bin_array_window (info_data st a) (active_id pair) = Ok win) arrays windows"
    using market(8) by (simp add: collect_Ok_iff list_all2_map1)
  ultimately show ?thesis using market(9) p mint x by (simp add: market_matches_def)
qed


text \<open>Arrays that parse as a whole, with an index whose bins have ids in range.\<close>

definition whole_arrays :: "store \<Rightarrow> account_info list \<Rightarrow> bool" where
  "whole_arrays st arrays \<longleftrightarrow> (\<forall>a \<in> set arrays. \<exists>arr. parse_bin_array (info_data st a) = Ok arr \<and>
    - (2 ^ 62) \<le> array_index arr * 70 \<and> array_index arr * 70 < 2 ^ 62)"

lemma whole_arrays_parsed:
  "whole_arrays st arrays \<Longrightarrow> \<exists>arrs. list_all2 (\<lambda>a arr. parse_bin_array (info_data st a) = Ok arr \<and>
    - (2 ^ 62) \<le> array_index arr * 70 \<and> array_index arr * 70 < 2 ^ 62) arrays arrs"
proof (induction arrays)
  case (Cons a arrays)
  then obtain arrs arr where "list_all2 (\<lambda>a arr. parse_bin_array (info_data st a) = Ok arr \<and>
    - (2 ^ 62) \<le> array_index arr * 70 \<and> array_index arr * 70 < 2 ^ 62) arrays arrs"
    "parse_bin_array (info_data st a) = Ok arr \<and>
    - (2 ^ 62) \<le> array_index arr * 70 \<and> array_index arr * 70 < 2 ^ 62"
    by (auto simp: whole_arrays_def)
  then show ?case by (intro exI [of _ "arr # arrs"]) simp
next
  case Nil
  show ?case by (intro exI [of _ "[]"]) simp
qed

lemma probe_dlmm_agrees:
  assumes "in_i32 (active_id pair)" "whole_arrays st arrays"
    and "list_all2 (\<lambda>a win. parse_bin_array_window (info_data st a) (active_id pair) = Ok win) arrays windows"
  shows "agree (\<lambda>r q. quote_amount_out r = adq_amount_out q)
    (quote_dlmm_snapshot amount pair windows d t) (quote_dlmm_from_accounts st amount pair arrays None d t)"
proof -
  obtain arrs where arrs: "list_all2 (\<lambda>a arr. parse_bin_array (info_data st a) = Ok arr \<and>
    - (2 ^ 62) \<le> array_index arr * 70 \<and> array_index arr * 70 < 2 ^ 62) arrays arrs"
    using whole_arrays_parsed [OF assms(2)] by blast
  then have parsed: "list_all2 (parsed_as st) arrays arrs"
    by (auto simp: parsed_as_def elim!: list_all2_mono)
  have "windows = map (bin_window (active_id pair)) arrs"
    using arrs assms(3)
  proof (induction arrays arrs arbitrary: windows rule: list_all2_induct)
    case (Cons a arrays arr arrs)
    then show ?case
      using parse_window_eq [of "info_data st a" arr "active_id pair"]
      by (auto simp: list_all2_Cons1 bin_window_def)
  qed simp
  then have same: "quote_dlmm_snapshot amount pair windows d t =
      map_ok snapshot_result (quote_dlmm_snapshot_with_bitmap amount pair arrs None d t)"
    by (simp add: quote_dlmm_snapshot_def quote_dlmm_snapshot_with_arrays_def quote_snapshot_window [OF assms(1)])
  show ?thesis
    unfolding same using quotes_agree [OF assms(1) parsed, of amount None d t]
    by (cases "quote_dlmm_snapshot_with_bitmap amount pair arrs None d t";
        cases "quote_dlmm_from_accounts st amount pair arrays None d t") auto
qed

definition as_option :: "('e, 'a) result \<Rightarrow> 'a option" where
  "as_option x = (case x of Ok y \<Rightarrow> Some y | _ \<Rightarrow> None)"

lemma stored_agrees:
  assumes "agree (\<lambda>x y. x = g y) r r'" "stored r = (Ok v :: ('f, ('e, 'a) result) result)"
  shows "\<exists>w. ok r' = (Ok w :: ('h, _) result) \<and> map_option g w = as_option v"
  using assms by (cases r; cases r') (auto simp: as_option_def)

lemma market_row_is_production:
  assumes "market_matches st arrays p m" "whole_arrays st arrays"
    and "market_row m a = (Ok row :: ('e, probe_row) result)"
  shows "row_input row = a \<and>
    (\<exists>f v. forward_quote st p arrays None a (mk_timestamp m) = Ok f \<and>
      reverse_quote st p arrays None a (mk_timestamp m) = Ok v \<and>
      map_option adq_amount_out f = as_option (row_forward row) \<and>
      map_option fst v = as_option (row_reverse row))"
proof -
  let ?t = "mk_timestamp m"
  let ?forward = "map_ok quote_amount_out (and_then (pump_buy_quote p a) (\<lambda>buy.
      quote_dlmm_snapshot (quote_amount_out buy) (in_pair p) (mk_arrays m) (in_target_is_x p) ?t))"
  let ?reverse = "map_ok quote_amount_out (and_then
      (quote_dlmm_snapshot a (in_pair p) (mk_arrays m) (\<not> in_target_is_x p) ?t) (\<lambda>buy.
      pump_sell_quote p (quote_amount_out buy)))"
  note m = assms(1) [unfolded market_matches_def]
  from assms(3) m have row: "row_input row = a"
    "stored ?forward = (Ok (row_forward row) :: ('e, (quote_error, u64) result) result)"
    "stored ?reverse = (Ok (row_reverse row) :: ('e, (quote_error, u64) result) result)"
    by (auto simp: market_row_def Let_def result_iff pump_buy_quote_def pump_sell_quote_def)
  have dlmm: "agree (\<lambda>r q. quote_amount_out r = adq_amount_out q) (quote_dlmm_snapshot x (in_pair p) (mk_arrays m) d ?t)
      (quote_dlmm_from_accounts st x (in_pair p) arrays None d ?t)" for x d
    using probe_dlmm_agrees m assms(2) by blast
  have "agree (\<lambda>x q. x = adq_amount_out q) ?forward (and_then (map_err incomplete (pump_buy_quote p a))
      (\<lambda>b. quote_dlmm_from_accounts st (quote_amount_out b) (in_pair p) arrays None (in_target_is_x p) ?t))"
  proof (cases "pump_buy_quote p a")
    case (Ok b)
    with dlmm [of "quote_amount_out b" "in_target_is_x p"] show ?thesis
      by (cases "quote_dlmm_snapshot (quote_amount_out b) (in_pair p) (mk_arrays m) (in_target_is_x p) ?t";
          cases "quote_dlmm_from_accounts st (quote_amount_out b) (in_pair p) arrays None (in_target_is_x p) ?t") auto
  qed simp_all
  from stored_agrees [OF this row(2)] obtain f where
    "(ok (and_then (map_err incomplete (pump_buy_quote p a)) (\<lambda>b. quote_dlmm_from_accounts st
      (quote_amount_out b) (in_pair p) arrays None (in_target_is_x p) ?t)) :: (program_error, _) result) = Ok f"
    "map_option adq_amount_out f = as_option (row_forward row)" by blast
  then have f: "forward_quote st p arrays None a ?t = Ok f" "map_option adq_amount_out f = as_option (row_forward row)"
    by (cases "pump_buy_quote p a"; simp add: forward_quote_def)+
  have "agree (\<lambda>x y. x = fst y) ?reverse (and_then (quote_dlmm_from_accounts st a (in_pair p) arrays None
      (\<not> in_target_is_x p) ?t) (\<lambda>q. map_ok (\<lambda>s. (quote_amount_out s, q))
      (map_err incomplete (pump_sell_quote p (adq_amount_out q)))))"
  proof -
    from dlmm [of a "\<not> in_target_is_x p"] show ?thesis
      by (cases "quote_dlmm_snapshot a (in_pair p) (mk_arrays m) (\<not> in_target_is_x p) ?t";
          cases "quote_dlmm_from_accounts st a (in_pair p) arrays None (\<not> in_target_is_x p) ?t")
        (auto, rename_tac r q, case_tac "pump_sell_quote p (adq_amount_out q)", auto)
  qed
  from stored_agrees [OF this row(3)] obtain v where
    "(ok (and_then (quote_dlmm_from_accounts st a (in_pair p) arrays None (\<not> in_target_is_x p) ?t)
      (\<lambda>q. map_ok (\<lambda>s. (quote_amount_out s, q)) (map_err incomplete (pump_sell_quote p (adq_amount_out q)))))
      :: (program_error, _) result) = Ok v"
    "map_option fst v = as_option (row_reverse row)" by blast
  then have v: "reverse_quote st p arrays None a ?t = Ok v" "map_option fst v = as_option (row_reverse row)"
    by (cases "quote_dlmm_from_accounts st a (in_pair p) arrays None (\<not> in_target_is_x p) ?t";
        auto simp: reverse_quote_def; rename_tac q; case_tac "pump_sell_quote p (adq_amount_out q)"; auto)+
  from row(1) f v show ?thesis by blast
qed


section \<open>The probe does not panic\<close>

lemma collect_no_panic: "(\<And>x. x \<in> set xs \<Longrightarrow> f x \<noteq> Panic) \<Longrightarrow> collect f xs \<noteq> Panic"
  by (induction xs) (auto simp: result_iff)

lemma pump_readers_no_panic:
  "token_amount data \<noteq> Panic" "mint_supply data \<noteq> Panic" "parse_pump_pool data \<noteq> Panic"
  "parse_fees data offset \<noteq> Panic" "parse_pump_global_fees data \<noteq> Panic"
  by (auto simp: token_amount_def mint_supply_def read_u64_def parse_pump_pool_def i128_to_u64_def
      parse_fees_def read_bps_def parse_pump_global_fees_def result_iff Let_def
      split: if_splits)

lemma market_cap_no_panic: "base \<noteq> 0 \<Longrightarrow> market_cap supply base effective \<noteq> Panic"
  by (auto simp: market_cap_def div_or_panic_def result_iff unat_eq_zero [symmetric] simp del: unat_eq_zero)

lemma select_tier_data_no_panic: "select_tier_data data offset cap k n selected \<noteq> Panic"
  by (induction n arbitrary: k selected)
    (auto simp: result_iff read_u128_def pump_readers_no_panic split: if_splits)

lemma select_from_data_no_panic:
  "select_pump_fees_from_data data global is_pump supply base effective \<noteq> Panic"
  by (auto simp: select_pump_fees_from_data_def Let_def result_iff read_u32_def
      pump_readers_no_panic market_cap_no_panic select_tier_data_no_panic split: if_splits)

lemma select_fees_no_panic: "select_pump_fees config global is_pump supply base effective \<noteq> Panic"
  by (auto simp: select_pump_fees_def Let_def result_iff market_cap_no_panic nth_or_panic_def
      split: option.splits if_splits)

lemma parse_tiers_no_panic: "parse_tiers n data offset \<noteq> Panic"
  by (induction n data offset rule: parse_tiers.induct)
    (auto simp: result_iff read_u128_def pump_readers_no_panic)

lemma parse_fee_config_no_panic: "parse_pump_fee_config data \<noteq> Panic"
  by (auto simp: parse_pump_fee_config_def Let_def result_iff read_u32_def pump_readers_no_panic
      parse_tiers_no_panic split: if_splits)

lemma dlmm_parsers_no_panic:
  "parse_lb_pair data \<noteq> Panic" "parse_bin_array data \<noteq> Panic" "parse_bin_array_window data active \<noteq> Panic"
proof -
  show "parse_lb_pair data \<noteq> Panic" using parse_lb_pair_total [of data] by (auto split: if_splits)
  show "parse_bin_array data \<noteq> Panic" by (simp add: parse_bin_array_eq)
  have "parse_bin data base k \<noteq> Panic" for base k
    by (auto simp: parse_bin_def reader_cases result_iff split: if_splits)
  then show "parse_bin_array_window data active \<noteq> Panic"
    by (auto simp: parse_bin_array_window_def parse_bin_array_index_def reader_cases Let_def result_iff
        intro!: collect_no_panic split: if_splits)
qed

lemma pump_quotes_no_panic:
  "pump_buy_exact_quote_in q base quote virt lp protocol creator \<noteq> Panic"
  "pump_sell_base_in q base quote virt lp protocol creator \<noteq> Panic"
  by (auto simp: pump_buy_closed pump_sell_closed Let_def)

lemma snapshot_quote_no_panic: "quote_dlmm_snapshot amount pair arrays d t \<noteq> Panic"
  by (auto simp: quote_dlmm_snapshot_def quote_dlmm_snapshot_with_arrays_def result_iff snapshot_no_panic)

lemmas probe_no_panics = pump_readers_no_panic select_from_data_no_panic select_fees_no_panic
  parse_fee_config_no_panic dlmm_parsers_no_panic pump_quotes_no_panic snapshot_quote_no_panic

lemma market_parse_no_panic: "market_parse env data t \<noteq> Panic"
  by (auto simp: market_parse_def Let_def result_iff probe_no_panics intro!: collect_no_panic)

lemma stored_Ok: "r \<noteq> Panic \<Longrightarrow> \<exists>v. stored r = Ok v"
  by (cases r) auto

lemma stored_total:
  "r \<noteq> Panic \<Longrightarrow> (\<And>x. f x \<noteq> Panic) \<Longrightarrow> \<exists>v. stored (map_ok g (and_then r f)) = Ok v"
  by (cases r) (auto intro!: stored_Ok simp: result_iff)

lemma market_row_total: "\<exists>row. market_row m a = (Ok row :: ('e, probe_row) result)"
proof -
  let ?f = "mk_fees m"
  have "\<exists>forward. stored (map_ok quote_amount_out
       (and_then (pump_buy_exact_quote_in a (mk_base m) (mk_quote m) (mk_virtual_quote m)
         (lp_fee_bps ?f) (protocol_fee_bps ?f) (creator_fee_bps ?f)) (\<lambda>buy.
       quote_dlmm_snapshot (quote_amount_out buy) (mk_pair m) (mk_arrays m) (mk_target_is_x m)
         (mk_timestamp m)))) = (Ok forward :: ('e, (quote_error, u64) result) result)"
    by (intro stored_total pump_quotes_no_panic snapshot_quote_no_panic)
  moreover have "\<exists>reverse. stored (map_ok quote_amount_out
       (and_then (quote_dlmm_snapshot a (mk_pair m) (mk_arrays m) (\<not> mk_target_is_x m)
         (mk_timestamp m)) (\<lambda>buy.
       pump_sell_base_in (quote_amount_out buy) (mk_base m) (mk_quote m) (mk_virtual_quote m)
         (lp_fee_bps ?f) (protocol_fee_bps ?f) (creator_fee_bps ?f)))) =
       (Ok reverse :: ('e, (quote_error, u64) result) result)"
    by (intro stored_total pump_quotes_no_panic snapshot_quote_no_panic)
  ultimately show ?thesis by (auto simp: market_row_def Let_def)
qed

text \<open>What the search takes as input.\<close>

definition search_shape :: "u8 list \<Rightarrow> bool" where
  "search_shape data \<longleftrightarrow> 10 \<le> length data \<and> 1 \<le> unat (data ! 9) \<and> unat (data ! 9) \<le> 9 \<and>
    length data = 10 + 8 * unat (data ! 9)"

definition search_amounts :: "u8 list \<Rightarrow> u64 list" where
  "search_amounts data = map (\<lambda>k. word_from_le (take 8 (drop (10 + 8 * k) data))) [0..<unat (data ! 9)]"

definition search_timestamp :: "u8 list \<Rightarrow> i64" where
  "search_timestamp data = int_from_le 8 (take 8 (drop 1 data))"

lemma collect_map: "collect (\<lambda>x. f (g x)) xs = collect f (map g xs)"
  by (induction xs) auto

lemma collect_total:
  "(\<And>x. \<exists>y. f x = Ok y) \<Longrightarrow> \<exists>ys. collect f xs = Ok ys"
  by (induction xs) (auto, metis and_then.simps(1) map_ok.simps(1))

lemma search_shape_iff:
  "search_shape data \<longleftrightarrow> \<not> length data < 18 \<and> \<not> (unat (data ! 9) = 0 \<or> MAX_TRIALS < unat (data ! 9) \<or>
    length data \<noteq> 10 + 8 * unat (data ! 9))"
  unfolding search_shape_def MAX_TRIALS_def by linarith

lemma search_process_eq:
  "search_process env accounts data =
    (if search_shape data
     then and_then (map_err (\<lambda>_. SolanaInvalidAccountData) (market_parse env accounts (search_timestamp data)))
       (\<lambda>m. and_then (collect (market_row m) (search_amounts data)) (\<lambda>rows.
         map_ok (\<lambda>best. map RowLine rows @ [BestLine best]) (choose_row rows 1)))
     else Err InvalidInstructionData)"
  unfolding search_process_def search_shape_iff Let_def search_timestamp_def search_amounts_def
  by (simp only: collect_map [symmetric] if_not_P if_P if_bool_eq_conj) metis

lemma probe_read_u64_no_panic: "probe_read_u64 data offset \<noteq> Panic"
  by (auto simp: probe_read_u64_def result_iff)

lemma word_at_no_panic: "offset + n \<le> length data \<Longrightarrow> word_at data offset n \<noteq> Panic"
  by (simp add: word_at_def slice_def or_panic_def)

lemma search_process_no_panic: "search_process env accounts data \<noteq> Panic"
proof -
  have "choose_row rows 1 \<noteq> (Panic :: (solana_error, probe_choice option) result)" for rows
    using choose_best [where 'e = solana_error, of rows 1] by auto
  moreover have "market_row m a \<noteq> (Panic :: (solana_error, probe_row) result)" for m a
    using market_row_total [where 'e = solana_error, of m a] by auto
  ultimately show ?thesis
    by (auto simp: search_process_eq result_iff market_parse_no_panic collect_no_panic)
qed

lemma synthetic_bin_no_panic: "synthetic_bin n k \<noteq> Panic"
proof -
  have "unat (saturating_sub 10000 (of_nat k) :: u16) < 2 ^ 16"
    using unat_lt_exp [of "saturating_sub 10000 (of_nat k) :: u16"] by simp
  then show ?thesis
    by (auto simp: synthetic_bin_def result_iff arith_iff div_or_panic_def unat_ucast_up)
qed

lemma probe_process_no_panic: "probe_process env accounts data \<noteq> Panic"
proof -
  have "probe_pump data \<noteq> Panic"
    by (auto simp: probe_pump_def result_iff probe_read_u64_no_panic word_at_no_panic probe_no_panics)
  moreover have "probe_dlmm data \<noteq> Panic"
    by (auto simp: probe_dlmm_def Let_def result_iff probe_read_u64_no_panic word_at_no_panic
        dlmm_quote_exact_in_def dlmm_quote_never_panics probe_bin_def intro!: collect_no_panic)
  moreover have "probe_synthetic data \<noteq> Panic"
    by (auto simp: probe_synthetic_def Let_def result_iff synthetic_bin_no_panic
        dlmm_quote_exact_in_def dlmm_quote_never_panics collect_no_panic)
  moreover have "probe_real accounts data \<noteq> Panic"
    by (auto simp: probe_real_def Let_def result_iff probe_read_u64_no_panic probe_no_panics
        invalid_account_def invalid_argument_def)
  ultimately show ?thesis
    by (auto simp: probe_process_def search_process_no_panic split: list.split)
qed

section \<open>A run on the sample accounts\<close>

lemma run_whole_arrays: "whole_arrays run_store run_bin_arrays"
  by (simp add: whole_arrays_def run_bin_arrays_def run_array_data parse_bin_array_eq run_array_fields)
    (simp add: int_from_le_def)

lemma run_mint_supply: "mint_supply run_mint = Ok 1000000"
  by (simp add: mint_supply_def read_u64_def bytes_def run_mint_def run_million)

lemma run_market_parse:
  "\<exists>m. market_parse run_env (map (info_data run_store) (probe_accounts run_route run_bin_arrays)) 1000 = Ok m \<and>
    mk_timestamp m = 1000"
proof -
  obtain arr where arr: "parse_bin_array run_array = Ok arr" "- (2 ^ 62) \<le> array_index arr * 70"
    "array_index arr * 70 < 2 ^ 62"
    using run_whole_arrays by (auto simp: whole_arrays_def run_bin_arrays_def run_array_data)
  have mint: "acc_data (run_store (key 2)) = run_mint"
    by (simp add: run_store_def)
  have at_x: "slice run_pair 88 32 = Some (key 2)"
    using run_pair_fields by (simp add: slice_def)
  have [simp]: "key 30 \<noteq> ascii ''pool-authority''" by simp
  show ?thesis
    by (simp add: market_parse_def probe_accounts_def run_bin_arrays_def run_array_data require_def
        parse_window_eq [OF arr] at_x run_mint_supply mint
        run_simps run_lookups [OF run_like_store] run_pool_parsed token_account_def
        run_token_parsed run_million run_global_parsed run_fees_selected run_pair_parsed
        run_env_def checked_add_def Let_def)
qed

section \<open>Properties\<close>

text \<open>C35. The amount probe, exactly: it succeeds on the inputs of the right shape (one to nine amounts) whose
  accounts parse, logs one row per amount in their order and then the best choice over all rows and
  both directions with at least one unit of profit (or none when there is none); every other input is one of two
  reported errors, and it never panics.\<close>

theorem probe_search_exact:
  "case search_process env accounts data of
     Ok lines \<Rightarrow> search_shape data \<and> (\<exists>m rows best. market_parse env accounts (search_timestamp data) = Ok m \<and>
       lines = map RowLine rows @ [BestLine best] \<and>
       list_all2 (\<lambda>a row. market_row m a = (Ok row :: (solana_error, probe_row) result)) (search_amounts data) rows \<and>
       probe_best (offered rows 1) best)
   | Err e \<Rightarrow>
       if search_shape data
       then e = SolanaInvalidAccountData \<and> (\<exists>q. market_parse env accounts (search_timestamp data) = Err q)
       else e = InvalidInstructionData
   | Panic \<Rightarrow> False"
proof (cases "search_shape data")
  case False
  then show ?thesis by (simp add: search_process_eq)
next
  case shape: True
  show ?thesis
  proof (cases "market_parse env accounts (search_timestamp data)")
    case (Ok m)
    obtain rows where rows: "collect (market_row m) (search_amounts data) = (Ok rows :: (solana_error, _) result)"
      using collect_total [of "market_row m :: _ \<Rightarrow> (solana_error, _) result"] market_row_total by blast
    obtain best where "choose_row rows 1 = (Ok best :: (solana_error, _) result)" "probe_best (offered rows 1) best"
      using choose_best [where 'e = solana_error, of rows 1] by blast
    with Ok shape rows show ?thesis by (auto simp: search_process_eq rows [unfolded collect_Ok_iff])
  qed (use shape in \<open>simp_all add: search_process_eq market_parse_no_panic\<close>)
qed

text \<open>C36. The rows of the probe are production quotes: on the accounts of a route without a bitmap
  extension, with whole bin arrays and with a mint and pool that state the route's supply and target mint,
  a market that the probe parses gives for every amount a row whose two results are what the best-direction instruction is
  quoted from the same account bytes at the same time, failures included, although the probe walks
  parsed windows of the arrays and takes the mint's supply from its bytes.\<close>

theorem probe_row_is_production:
  assumes "market_parse env (map (info_data st) (probe_accounts r arrays)) t = Ok m"
    and "read_inputs env st r = Ok p"
    and "mint_supply (info_data st (er_target_mint r)) = Ok (er_target_mint_supply r)"
    and "take 32 (drop 43 (info_data st (er_pump_pool r))) = info_key (er_target_mint r)"
    and "whole_arrays st arrays"
  shows "\<exists>row f v. market_row m a = (Ok row :: (solana_error, probe_row) result) \<and> row_input row = a \<and>
    forward_quote st p arrays None a t = Ok f \<and> reverse_quote st p arrays None a t = Ok v \<and>
    as_option (row_forward row) = map_option adq_amount_out f \<and>
    as_option (row_reverse row) = map_option fst v"
proof -
  from market_parse_matches [OF assms(1-4)] have m: "market_matches st arrays p m" "mk_timestamp m = t"
    by simp_all
  obtain row where row: "market_row m a = (Ok row :: (solana_error, probe_row) result)"
    using market_row_total by blast
  from market_row_is_production [OF m(1) assms(5) row] row m(2) show ?thesis by auto
qed

theorem probe_row_is_production_witness:
  "\<exists>m row. market_parse run_env (map (info_data run_store) (probe_accounts run_route run_bin_arrays)) 1000 = Ok m \<and>
    market_row m 1000 = (Ok row :: (solana_error, probe_row) result) \<and>
    as_option (row_forward row) = Some 1996 \<and> as_option (row_reverse row) = None"
proof -
  obtain m where m: "market_parse run_env (map (info_data run_store) (probe_accounts run_route run_bin_arrays)) 1000 = Ok m"
    using run_market_parse by blast
  have minted: "mint_supply (info_data run_store (er_target_mint run_route)) = Ok (er_target_mint_supply run_route)"
    using run_mint_supply by (simp add: run_simps run_store_def)
  have mint: "take 32 (drop 43 (info_data run_store (er_pump_pool run_route))) = info_key (er_target_mint run_route)"
    by (simp add: run_simps run_lookups [OF run_like_store] run_pool_def PUMP_POOL_DISCRIMINATOR_def run_bytes)
  from probe_row_is_production [OF m run_reads minted mint run_whole_arrays, of 1000] m
  show ?thesis by (auto simp: run_forward_quote run_reverse_quote)
qed

end
