(* ===== verification/Interior_Test.thy ===== *)
theory Interior_Test
  imports Dynamic_Candidates
begin

text \<open>
  \<^verbatim>\<open>forward_interior_candidate\<close> and \<^verbatim>\<open>reverse_interior_candidate\<close> of
  \<^verbatim>\<open>instructions/dynamic_amount.rs\<close> rule out most segments by an approximate interval test
  before they take a square root.  The test never changes their result: this theory defines the two
  functions without it and shows them equal.
\<close>

section \<open>The interior test loses nothing\<close>

lemma total_fee_bps_spec:
  "\<exists>f. pump_total_fee_bps m = Ok f \<and> unat f < 2 ^ 18"
proof -
  let ?f = "market_pump_fees m"
  have bounds: "unat (ucast (x :: u16) :: u64) < 2 ^ 16" for x
    using unat_lt_exp [of x] by (simp add: unsigned_ucast_eq take_bit_nat_eq_self)
  obtain a where a: "checked_add (ucast (lp_fee_bps ?f) :: u64) (ucast (protocol_fee_bps ?f)) = Some a"
    "unat a < 2 ^ 17"
    using checked_add_fits [of "ucast (lp_fee_bps ?f) :: u64" "ucast (protocol_fee_bps ?f)"]
      bounds [of "lp_fee_bps ?f"] bounds [of "protocol_fee_bps ?f"] by auto
  obtain b where "checked_add a (ucast (creator_fee_bps ?f)) = Some b" "unat b < 2 ^ 18"
    using checked_add_fits [of a "ucast (creator_fee_bps ?f)"] a(2) bounds [of "creator_fee_bps ?f"] by auto
  with a(1) show ?thesis by (auto simp: pump_total_fee_bps_def)
qed

lemma effective_quote_spec:
  "\<exists>e. market_effective_quote m = Ok e \<and> unat e < 2 ^ 65"
proof -
  obtain e where "checked_add (ucast (pump_quote_reserve m)) (ucast (pump_virtual_quote_reserve m)) = Some (e :: u128)"
    "unat e = unat (pump_quote_reserve m) + unat (pump_virtual_quote_reserve m)"
    using checked_add_fits [of "ucast (pump_quote_reserve m) :: u128" "ucast (pump_virtual_quote_reserve m)"]
      unat_u64_bound [of "pump_quote_reserve m"] unat_u64_bound [of "pump_virtual_quote_reserve m"]
    by (auto simp: unat_ucast_u128)
  then show ?thesis
    using unat_u64_bound [of "pump_quote_reserve m"] unat_u64_bound [of "pump_virtual_quote_reserve m"]
    by (auto simp: market_effective_quote_def)
qed

lemma u128_div_ceil_spec:
  assumes "d \<noteq> 0" "unat n + unat d < 2 ^ 128"
  shows "\<exists>c. u128_div_ceil n d = Ok c \<and> unat c = ceil_nat (unat n) (unat d)"
proof -
  have pos: "0 < unat d" using assms(1) by (simp add: unat_gt_0)
  then obtain k where k: "checked_sub d 1 = Some k" "unat k = unat d - 1"
    using checked_sub_fits [of 1 d] by auto
  then have "unat n + unat k < 2 ^ LENGTH(128)" using assms(2) by simp
  then obtain s where "checked_add n k = Some s" "unat s = unat n + (unat d - 1)"
    using checked_add_fits [of n k] k(2) by auto
  with k(1) assms(1) show ?thesis by (simp add: u128_div_ceil_def unat_div ceil_nat_def)
qed

lemma bits_bound: "unat v < 2 ^ k \<Longrightarrow> int (bits v) \<le> int k"
  using bit_length_le by simp

lemma bits_u64: "int (bits (ucast (x :: u64))) \<le> 64"
  using bits_bound [of "ucast x" 64] unat_u64_bound [of x] by (simp add: unat_ucast_u128)

lemma bits_pos: "v \<noteq> 0 \<Longrightarrow> 1 \<le> int (bits v)"
  using bit_length_bounds [of "unat v"] by (simp add: unat_eq_zero)

lemma in_range_weaken: "in_range x lo hi \<Longrightarrow> lo' \<le> lo \<Longrightarrow> hi \<le> hi' \<Longrightarrow> in_range x lo' hi'"
  by (auto simp: in_range_def)

lemma ratio_root:
  assumes "normalized_product_ratio [a, b, c, e] [p, q] = Ok x"
    and "int (bits a) + int (bits b) + int (bits c) + int (bits e) \<le> 252"
      "int (bits p) \<le> 64" "int (bits q) \<le> 64"
  shows "normal x \<and> (\<exists>root. sqrt_floor x = Ok root \<and> near_root (unat root) (val x))"
proof -
  note range = product_ratio_range [of "[a, b, c, e]" "[p, q]"]
  have nz: "0 \<notin> set [a, b, c, e] \<union> set [p, q]" using range assms(1) by (auto split: if_splits)
  then have pos: "1 \<le> int (bits a)" "1 \<le> int (bits b)" "1 \<le> int (bits c)" "1 \<le> int (bits e)"
    using bits_pos by auto
  have "in_range x (-128) 252"
    using range assms(1) nz
    by (auto elim!: in_range_weaken) (use pos assms(2-) in linarith)+
  with sqrt_floor_spec show ?thesis by (auto simp: in_range_def)
qed

lemma forward_amount_outside:
  assumes "sqrt_floor x = Ok rt" "checked_add PUMP_FEE_DENOMINATOR (ucast fee) = Some factor"
    "unat lower = unat e + unat a * 10000 div unat factor"
    "unat upper = unat e + ceil_nat (unat b * 10000) (unat factor)"
    "unat rt \<le> unat lower \<or> unat upper \<le> unat rt"
  shows "forward_amount e fee a b x = Err ()"
proof (cases "rt \<le> e")
  case False
  then have sub: "checked_sub rt e = Some (rt - e)" "unat (rt - e) = unat rt - unat e"
    by (auto simp: checked_sub_def unat_sub_small)
  have factor: "0 < unat factor" using assms(2) by (auto simp: checked_add_Some PUMP_FEE_DENOMINATOR_def)
  have den: "PUMP_FEE_DENOMINATOR \<noteq> 0" "unat PUMP_FEE_DENOMINATOR = 10000"
    by (simp_all add: PUMP_FEE_DENOMINATOR_def)
  show ?thesis
  proof (cases "checked_mul (rt - e) factor")
    case (Some scaled)
    let ?n = "scaled div PUMP_FEE_DENOMINATOR"
    have n: "unat ?n = (unat rt - unat e) * unat factor div 10000"
      using Some sub(2) by (simp add: checked_mul_Some unat_div den)
    have "\<not> (a < c \<and> c < b)" if "unat c = unat ?n" for c
    proof -
      from assms(5) show ?thesis
      proof
        assume "unat rt \<le> unat lower"
        then have "unat rt - unat e \<le> unat a * 10000 div unat factor" using assms(3) by simp
        then have "(unat rt - unat e) * unat factor \<le> unat a * 10000"
          using factor by (simp add: less_eq_div_iff_mult_less_eq)
        then have "unat c \<le> unat a" unfolding that n using div_le_mono [of _ _ 10000] by fastforce
        then show ?thesis by (simp add: word_less_nat_alt)
      next
        assume "unat upper \<le> unat rt"
        then have "ceil_nat (unat b * 10000) (unat factor) \<le> unat rt - unat e" using assms(4) by simp
        then have "unat b * 10000 \<le> (unat rt - unat e) * unat factor" using factor by (simp add: ceil_nat_le_iff)
        then have "unat b \<le> unat c" unfolding that n by (simp add: less_eq_div_iff_mult_less_eq)
        then show ?thesis by (simp add: word_less_nat_alt)
      qed
    qed
    moreover have "unat c = unat ?n" if "try_narrow ?n = Some c" for c :: u64
      using that by (simp add: try_narrow_Some)
    ultimately have "and_then (ok_or () (try_narrow ?n)) (\<lambda>c. if a < c \<and> c < b then Ok c else Err ()) = Err ()"
      by (cases "try_narrow ?n :: u64 option") auto
    then show ?thesis
      using False assms(1,2) sub(1) Some den by (simp add: forward_amount_def div_or_panic_def)
  qed (use False assms(1,2) sub(1) in \<open>simp add: forward_amount_def\<close>)
qed (use assms(1) in \<open>simp add: forward_amount_def\<close>)

lemma reverse_amount_outside:
  assumes "sqrt_floor x = Ok rt"
    "unat lower = unat base + unat (output_start s)" "unat upper = unat base + unat (output_end s)"
    "unat rt \<le> unat lower \<or> unat upper \<le> unat rt"
  shows "reverse_amount base s x = Err ()"
proof (cases "checked_sub rt (ucast base)")
  case (Some target)
  then have "unat target = unat rt - unat base" by (simp add: checked_sub_Some unat_ucast_u128)
  with assms(2-4) have "target \<le> ucast (output_start s) \<or> ucast (output_end s) \<le> target"
    using Some by (auto simp: word_le_nat_alt unat_ucast_u128 checked_sub_Some)
  with assms(1) Some show ?thesis by (auto simp: reverse_amount_def)
qed (use assms(1) in \<open>simp add: reverse_amount_def\<close>)


text \<open>The two candidates without the test.\<close>

definition forward_untested :: "market_state \<Rightarrow> dlmm_segment \<Rightarrow> u64 \<Rightarrow> u64 \<Rightarrow> u64 maybe" where
  "forward_untested m segment segment_start segment_end =
    and_then (pump_total_fee_bps m) (\<lambda>total_fee_bps.
    and_then (market_effective_quote m) (\<lambda>effective_quote_reserve.
    and_then (output_capacity segment) (\<lambda>output_cap.
    and_then (input_capacity segment) (\<lambda>input_cap.
    and_then (ok_or () (checked_add PUMP_FEE_DENOMINATOR (ucast total_fee_bps))) (\<lambda>fee_factor.
    and_then (normalized_product_ratio
      [ucast output_cap, ucast (pump_base_reserve m), PUMP_FEE_DENOMINATOR, effective_quote_reserve]
      [ucast input_cap, fee_factor])
    (forward_amount effective_quote_reserve total_fee_bps segment_start segment_end))))))"

definition reverse_untested :: "market_state \<Rightarrow> dlmm_segment \<Rightarrow> u64 maybe" where
  "reverse_untested m segment =
    and_then (pump_total_fee_bps m) (\<lambda>total_fee_bps.
    if PUMP_FEE_DENOMINATOR \<le> ucast total_fee_bps then Err ()
    else
      and_then (market_effective_quote m) (\<lambda>effective_quote_reserve.
      and_then (output_capacity segment) (\<lambda>output_cap.
      and_then (ok_or () (checked_sub PUMP_FEE_DENOMINATOR (ucast total_fee_bps))) (\<lambda>fee_left.
      and_then (input_capacity segment) (\<lambda>input_cap.
      and_then (normalized_product_ratio
        [ucast output_cap, effective_quote_reserve, ucast (pump_base_reserve m), fee_left]
        [ucast input_cap, PUMP_FEE_DENOMINATOR])
      (reverse_amount (pump_base_reserve m) segment))))))"

lemma sub_or_panic_cases:
  "(sub_or_panic a b :: ('e, 'a::len word) result) = Panic \<or>
    (\<exists>c. (sub_or_panic a b :: ('e, 'a word) result) = Ok c)"
  by (cases "checked_sub a b") (auto simp: sub_or_panic_def or_panic_def)

lemma maybe_cases:
  fixes r :: "'a maybe"
  obtains x where "r = Ok x" | "r = Err ()" | "r = Panic"
  by (cases r) auto

lemma tested_step:
  assumes "excluded = True \<Longrightarrow> continue = Err ()"
    "sqrt_interval_definitely_excludes x lower upper = Ok excluded"
  shows "and_then (sqrt_interval_definitely_excludes x lower upper) (\<lambda>excluded.
    if excluded then Err () else continue) = continue"
  using assms by auto

lemma bits_10000: "bits PUMP_FEE_DENOMINATOR = 14"
  by (simp add: PUMP_FEE_DENOMINATOR_def bit_length.simps)

lemma forward_test_sound: "forward_interior_candidate m segment a b = forward_untested m segment a b"
proof -
  obtain f where f: "pump_total_fee_bps m = Ok f" "unat f < 2 ^ 18" using total_fee_bps_spec by blast
  obtain e where e: "market_effective_quote m = Ok e" "unat e < 2 ^ 65" using effective_quote_spec by blast
  obtain ff where ff: "checked_add PUMP_FEE_DENOMINATOR (ucast f) = Some ff" "unat ff = 10000 + unat f"
    using checked_add_fits [of PUMP_FEE_DENOMINATOR "ucast f"] f(2)
    by (auto simp: unat_ucast_u128 PUMP_FEE_DENOMINATOR_def)
  have ff0: "ff \<noteq> 0" using ff(2) by auto
  have den: "unat PUMP_FEE_DENOMINATOR = 10000" by (simp add: PUMP_FEE_DENOMINATOR_def)
  have scale: "\<exists>w. checked_mul (ucast (x :: u64)) PUMP_FEE_DENOMINATOR = Some w \<and> unat w = unat x * 10000" for x
    using checked_mul_fits [of "ucast x" PUMP_FEE_DENOMINATOR] unat_u64_bound [of x]
    by (auto simp: unat_ucast_u128 den)
  obtain wa wb where wa: "checked_mul (ucast a) PUMP_FEE_DENOMINATOR = Some wa" "unat wa = unat a * 10000"
    and wb: "checked_mul (ucast b) PUMP_FEE_DENOMINATOR = Some wb" "unat wb = unat b * 10000"
    using scale by blast
  have na: "div_or_panic wa ff = (Ok (wa div ff) :: u128 maybe)" "unat (wa div ff) = unat a * 10000 div unat ff"
    using ff0 wa(2) by (simp_all add: div_or_panic_def unat_div)
  have small_a: "unat a * 10000 div unat ff < 2 ^ 64"
    using unat_u64_bound [of a] ff(2) by (intro less_mult_imp_div_less) (simp add: algebra_simps)
  obtain nb where nb: "u128_div_ceil wb ff = Ok nb" "unat nb = ceil_nat (unat b * 10000) (unat ff)"
    using u128_div_ceil_spec [OF ff0, of wb] wb(2) ff(2) f(2) unat_u64_bound [of b] by auto
  have small_b: "unat nb \<le> 2 ^ 64"
    unfolding nb(2) using unat_u64_bound [of b] ff(2) by (subst ceil_nat_le_iff) auto
  obtain lower where lower: "checked_add e (wa div ff) = Some lower" "unat lower = unat e + unat a * 10000 div unat ff"
    using checked_add_fits [of e "wa div ff"] e(2) na(2) small_a by auto
  obtain upper where upper: "checked_add e nb = Some upper" "unat upper = unat e + ceil_nat (unat b * 10000) (unat ff)"
    using checked_add_fits [of e nb] e(2) nb(2) small_b by auto
  have bound: "unat upper < 2 ^ 66 - 32" using e(2) upper(2) small_b nb(2) by simp
  note steps = forward_interior_candidate_def forward_untested_def f(1) e(1) ff(1)
    input_capacity_def output_capacity_def
  show ?thesis
  proof (cases "\<exists>ic oc. sub_or_panic (input_end segment) (input_start segment) = (Ok ic :: u64 maybe) \<and>
      sub_or_panic (output_end segment) (output_start segment) = (Ok oc :: u64 maybe)")
    case True
    then obtain ic oc where caps: "sub_or_panic (input_end segment) (input_start segment) = (Ok ic :: u64 maybe)"
      "sub_or_panic (output_end segment) (output_start segment) = (Ok oc :: u64 maybe)" by blast
    let ?ratio = "normalized_product_ratio
      [ucast oc, ucast (pump_base_reserve m), PUMP_FEE_DENOMINATOR, e] [ucast ic, ff]"
    show ?thesis
    proof (cases ?ratio rule: maybe_cases)
      case (1 x)
      have "int (bits e) \<le> 65" "int (bits ff) \<le> 64"
        using bits_bound [of e 65] bits_bound [of ff 64] e(2) ff(2) f(2) by simp_all
      with ratio_root [OF 1] bits_u64 [of oc] bits_u64 [of ic] bits_u64 [of "pump_base_reserve m"]
      obtain w where x: "normal x" "sqrt_floor x = Ok w" "near_root (unat w) (val x)"
        by (auto simp: bits_10000)
      obtain excluded where excluded: "sqrt_interval_definitely_excludes x lower upper = Ok excluded"
        using excludes_returns by blast
      have "forward_amount e f a b x = Err ()" if "excluded = True"
        using excludes_sound [OF excluded [unfolded that] x(1,3) bound]
        by (rule forward_amount_outside [OF x(2) ff(1) lower(2) upper(2)])
      from tested_step [OF this excluded] show ?thesis
        by (simp add: steps caps 1 wa(1) wb(1) na(1) nb(1) lower(1) upper(1))
    qed (simp_all add: steps caps)
  next
    case False
    then show ?thesis
      using sub_or_panic_cases [where 'e = unit, of "input_end segment" "input_start segment"]
        sub_or_panic_cases [where 'e = unit, of "output_end segment" "output_start segment"]
      by (auto simp: steps)
  qed
qed


lemma reverse_test_sound: "reverse_interior_candidate m segment = reverse_untested m segment"
proof -
  obtain f where f: "pump_total_fee_bps m = Ok f" "unat f < 2 ^ 18" using total_fee_bps_spec by blast
  obtain e where e: "market_effective_quote m = Ok e" "unat e < 2 ^ 65" using effective_quote_spec by blast
  have sum: "\<exists>w. checked_add (ucast (x :: u64)) (ucast (y :: u64)) = Some (w :: u128) \<and> unat w = unat x + unat y" for x y
    using checked_add_fits [of "ucast x :: u128" "ucast y"] unat_u64_bound [of x] unat_u64_bound [of y]
    by (auto simp: unat_ucast_u128)
  obtain lower where lower: "checked_add (ucast (pump_base_reserve m)) (ucast (output_start segment)) = Some (lower :: u128)"
    "unat lower = unat (pump_base_reserve m) + unat (output_start segment)" using sum by blast
  obtain upper where upper: "checked_add (ucast (pump_base_reserve m)) (ucast (output_end segment)) = Some (upper :: u128)"
    "unat upper = unat (pump_base_reserve m) + unat (output_end segment)" using sum by blast
  have bound: "unat upper < 2 ^ 66 - 32"
    using upper(2) unat_u64_bound [of "pump_base_reserve m"] unat_u64_bound [of "output_end segment"] by simp
  note steps = reverse_interior_candidate_def reverse_untested_def f(1) e(1)
    input_capacity_def output_capacity_def
  show ?thesis
  proof (cases "PUMP_FEE_DENOMINATOR \<le> ucast f")
    case False
    then have sub: "checked_sub PUMP_FEE_DENOMINATOR (ucast f) = Some (PUMP_FEE_DENOMINATOR - ucast f)"
      by (simp add: checked_sub_def)
    have "unat (PUMP_FEE_DENOMINATOR - ucast f) \<le> unat PUMP_FEE_DENOMINATOR"
      using False by (simp add: unat_sub_small)
    then have left: "int (bits (PUMP_FEE_DENOMINATOR - ucast f)) \<le> 14"
      using bits_bound [of "PUMP_FEE_DENOMINATOR - ucast f" 14] by (simp add: PUMP_FEE_DENOMINATOR_def)
    show ?thesis
    proof (cases "\<exists>ic oc. sub_or_panic (input_end segment) (input_start segment) = (Ok ic :: u64 maybe) \<and>
        sub_or_panic (output_end segment) (output_start segment) = (Ok oc :: u64 maybe)")
      case True
      then obtain ic oc where caps: "sub_or_panic (input_end segment) (input_start segment) = (Ok ic :: u64 maybe)"
        "sub_or_panic (output_end segment) (output_start segment) = (Ok oc :: u64 maybe)" by blast
      let ?ratio = "normalized_product_ratio
        [ucast oc, e, ucast (pump_base_reserve m), PUMP_FEE_DENOMINATOR - ucast f]
        [ucast ic, PUMP_FEE_DENOMINATOR]"
      show ?thesis
      proof (cases ?ratio rule: maybe_cases)
        case (1 x)
        have "int (bits e) \<le> 65" using bits_bound [of e 65] e(2) by simp
        with ratio_root [OF 1] bits_u64 [of oc] bits_u64 [of ic] bits_u64 [of "pump_base_reserve m"] left
        obtain w where x: "normal x" "sqrt_floor x = Ok w" "near_root (unat w) (val x)"
          by (auto simp: bits_10000)
        obtain excluded where excluded: "sqrt_interval_definitely_excludes x lower upper = Ok excluded"
          using excludes_returns by blast
        have "reverse_amount (pump_base_reserve m) segment x = Err ()" if "excluded = True"
          using excludes_sound [OF excluded [unfolded that] x(1,3) bound]
          by (rule reverse_amount_outside [OF x(2) lower(2) upper(2)])
        from tested_step [OF this excluded] False show ?thesis
          by (simp add: steps caps sub 1 lower(1) upper(1))
      qed (use False in \<open>simp_all add: steps caps sub\<close>)
    next
      case outer: False
      then show ?thesis
        using sub_or_panic_cases [where 'e = unit, of "input_end segment" "input_start segment"]
          sub_or_panic_cases [where 'e = unit, of "output_end segment" "output_start segment"] False
        by (auto simp: steps sub)
    qed
  qed (simp add: steps)
qed


section \<open>Property\<close>

text \<open>C26. The approximate test in front of the square root is lossless: on every market and segment both
  interior candidates are what they would be without it, failures included.  So the widened
  exponents and the error margins of the normalized numbers are wide enough.\<close>

theorem interior_test_lossless:
  "forward_interior_candidate m segment segment_start segment_end =
    forward_untested m segment segment_start segment_end \<and>
  reverse_interior_candidate m segment = reverse_untested m segment"
  by (simp only: forward_test_sound reverse_test_sound)

end
