(* ===== verification/Pump_Boundary.thy ===== *)
theory Pump_Boundary
  imports Pump_Quote Interior_Test
begin

text \<open>
  \<^verbatim>\<open>pump_input_at_or_below_target_out\<close> of \<^verbatim>\<open>instructions/dynamic_amount.rs\<close>: the Pump input that the
  search derives from an output at which the DLMM curve changes its segment.  The theory computes it
  over the naturals (\<open>pump_boundary_iff\<close>), shows that it lies on the safe side of the transition and
  at most eight units away from it, and compares it with the doubling and halving search by which
  the unit tests of the source look for the transition.
\<close>

section \<open>The boundary over the naturals\<close>

abbreviation total_bps :: "market_state \<Rightarrow> nat" where
  "total_bps m \<equiv> unat (lp_fee_bps (market_pump_fees m)) + unat (protocol_fee_bps (market_pump_fees m))
    + unat (creator_fee_bps (market_pump_fees m))"

abbreviation quote_side :: "market_state \<Rightarrow> nat" where
  "quote_side m \<equiv> unat (pump_quote_reserve m) + unat (pump_virtual_quote_reserve m)"

text \<open>The least amount on the curve that buys \<open>target\<close>, and the gross input that the source
  derives from it.\<close>

definition curve_boundary :: "nat \<Rightarrow> nat \<Rightarrow> nat \<Rightarrow> nat" where
  "curve_boundary base quote target = ceil_nat (target * quote) (base - target)"

definition gross_boundary :: "market_state \<Rightarrow> nat \<Rightarrow> nat" where
  "gross_boundary m target =
    curve_boundary (unat (pump_base_reserve m)) (quote_side m) target * (10000 + total_bps m) div 10000"

lemma product_out_less_iff:
  assumes "target < base" "0 < quote"
  shows "product_out base quote c < target \<longleftrightarrow> c < curve_boundary base quote target"
proof -
  have "product_out base quote c < target \<longleftrightarrow> base * c < target * (quote + c)"
    using assms(2) by (simp add: product_out_def div_less_iff_less_mult)
  also have "\<dots> \<longleftrightarrow> c * (base - target) < target * quote"
    using assms(1) by (auto simp: algebra_simps diff_mult_distrib2 less_diff_conv2 less_imp_le)
  also have "\<dots> \<longleftrightarrow> c < curve_boundary base quote target"
    using assms(1) by (simp add: curve_boundary_def ceil_nat_less_iff)
  finally show ?thesis .
qed

lemma pump_buy_amount_out_OkD:
  assumes "pump_buy_amount_out m a = Ok out"
  shows "\<exists>r. market_buy m a = Ok r \<and> quote_amount_out r = out"
  using assms by (cases "market_buy m a") (auto simp: pump_buy_amount_out_def)

text \<open>Below the boundary the net amount does not reach the curve boundary.\<close>

lemma below_boundary:
  assumes "target < unat (pump_base_reserve m)" "unat a \<le> gross_boundary m target"
    and "pump_buy_amount_out m a = Ok out"
  shows "unat out < target"
proof -
  let ?f = "market_pump_fees m"
  obtain r where r: "market_buy m a = Ok r" "quote_amount_out r = out"
    using pump_buy_amount_out_OkD [OF assms(3)] by blast
  note buy = pump_buy_OkD [OF r(1) [unfolded market_buy_def]]
  let ?n = "effective_quote_in (unat a) (unat (lp_fee_bps ?f)) (unat (protocol_fee_bps ?f))
    (unat (creator_fee_bps ?f))"
  let ?c = "curve_boundary (unat (pump_base_reserve m)) (quote_side m) target"
  have "?n \<le> net_quote (unat a) (unat (lp_fee_bps ?f)) (unat (protocol_fee_bps ?f))
      (unat (creator_fee_bps ?f))"
    by (simp add: effective_quote_in_def)
  also have "\<dots> \<le> gross_boundary m target * 10000 div (10000 + total_bps m)"
    using assms(2) by (simp add: net_quote_def div_le_mono)
  also have "\<dots> \<le> ?c * (10000 + total_bps m) div (10000 + total_bps m)"
    unfolding gross_boundary_def by (intro div_le_mono) simp
  finally have "?n \<le> ?c" by simp
  with buy(4) have "?n - 1 < ?c" by linarith
  with assms(1) buy(3) show ?thesis
    by (simp add: product_out_less_iff unat_gt_0 buy(6) flip: r(2))
qed

text \<open>Eight units above it, the three rounded fees are paid for and the curve boundary is passed.\<close>

lemma above_boundary:
  assumes "target < unat (pump_base_reserve m)" "pump_quote_reserve m \<noteq> 0"
    and "total_bps m \<le> 13333" "gross_boundary m target + 8 \<le> unat a"
  shows "\<exists>out. pump_buy_amount_out m a = Ok out \<and> target \<le> unat out"
proof -
  let ?f = "market_pump_fees m"
  let ?c = "curve_boundary (unat (pump_base_reserve m)) (quote_side m) target"
  let ?e = "net_quote (unat a) (unat (lp_fee_bps ?f)) (unat (protocol_fee_bps ?f))
      (unat (creator_fee_bps ?f))"
  let ?x = "fee_excess (unat a) (unat (lp_fee_bps ?f)) (unat (protocol_fee_bps ?f))
      (unat (creator_fee_bps ?f))"
  let ?d = "10000 + total_bps m"
  have "?c * ?d < gross_boundary m target * 10000 + 10000"
    unfolding gross_boundary_def using div_mult_mod_eq [of "?c * ?d" 10000] mod_less_divisor [of 10000 "?c * ?d"]
    by linarith
  moreover have "gross_boundary m target * 10000 + 80000 \<le> unat a * 10000"
    using assms(4) by simp
  moreover have "3 * ?d \<le> 70000" using assms(3) by simp
  ultimately have "(?c + 3) * ?d \<le> unat a * 10000" by (simp add: algebra_simps)
  then have "?c + 3 \<le> ?e" by (simp add: net_quote_def less_eq_div_iff_mult_less_eq)
  then have e: "?x < ?e" "?c \<le> ?e - ?x - 1"
    using fee_excess_le_2 [of "unat a" "unat (lp_fee_bps ?f)" "unat (protocol_fee_bps ?f)"
        "unat (creator_fee_bps ?f)"] by linarith+
  have a: "a \<noteq> 0" "pump_base_reserve m \<noteq> 0" using assms(1,4) by auto
  let ?o = "product_out (unat (pump_base_reserve m)) (quote_side m) (?e - ?x - 1)"
  have "?o < 2 ^ LENGTH(64)" by (rule le_less_trans [OF product_out_le unat_lt_exp])
  note out = unat_of_nat_small [OF this]
  have "\<not> ?o < target"
    using e(2) assms(1,2) by (simp add: product_out_less_iff unat_gt_0)
  with a assms(2) e(1) out show ?thesis
    by (auto simp: pump_buy_amount_out_def market_buy_def pump_buy_closed Let_def simp del: of_nat_diff)
qed

lemma effective_quote_unat:
  "\<exists>e. market_effective_quote m = Ok e \<and> unat e = quote_side m"
proof -
  obtain e where "checked_add (ucast (pump_quote_reserve m)) (ucast (pump_virtual_quote_reserve m)) = Some (e :: u128)"
    "unat e = quote_side m"
    using checked_add_fits [of "ucast (pump_quote_reserve m) :: u128" "ucast (pump_virtual_quote_reserve m)"]
      unat_u64_bound [of "pump_quote_reserve m"] unat_u64_bound [of "pump_virtual_quote_reserve m"]
    by (auto simp: unat_ucast_u128)
  then show ?thesis by (auto simp: market_effective_quote_def)
qed

lemma total_fee_bps_unat: "\<exists>f. pump_total_fee_bps m = Ok f \<and> unat f = total_bps m"
proof -
  let ?f = "market_pump_fees m"
  have small: "unat (ucast (x :: u16) :: u64) = unat x" for x
    using unat_lt_exp [of x] by (simp add: unsigned_ucast_eq take_bit_nat_eq_self)
  note bounds = unat_u16_bound [of "lp_fee_bps ?f"] unat_u16_bound [of "protocol_fee_bps ?f"]
    unat_u16_bound [of "creator_fee_bps ?f"]
  obtain a where a: "checked_add (ucast (lp_fee_bps ?f) :: u64) (ucast (protocol_fee_bps ?f)) = Some a"
    "unat a = unat (lp_fee_bps ?f) + unat (protocol_fee_bps ?f)"
    using checked_add_fits [of "ucast (lp_fee_bps ?f) :: u64" "ucast (protocol_fee_bps ?f)"] bounds
    by (auto simp: small)
  obtain b where "checked_add a (ucast (creator_fee_bps ?f)) = Some b" "unat b = total_bps m"
    using checked_add_fits [of a "ucast (creator_fee_bps ?f)"] a(2) bounds by (auto simp: small)
  with a(1) show ?thesis by (auto simp: pump_total_fee_bps_def)
qed

text \<open>The candidate of the source, before its last check.\<close>

definition boundary_candidate :: "market_state \<Rightarrow> u64 \<Rightarrow> u64 maybe" where
  "boundary_candidate m target_out =
    and_then (market_effective_quote m) (\<lambda>e.
    and_then (ok_or () (checked_mul (ucast target_out) e)) (\<lambda>product.
    and_then (ok_or () (checked_sub (pump_base_reserve m) target_out)) (\<lambda>base_left.
    and_then (u128_div_ceil product (ucast base_left)) (\<lambda>boundary.
    and_then (pump_total_fee_bps m) (\<lambda>fee.
    and_then (ok_or () (checked_add PUMP_FEE_DENOMINATOR (ucast fee))) (\<lambda>factor.
    and_then (ok_or () (checked_mul boundary factor)) (\<lambda>scaled.
    and_then (div_or_panic scaled PUMP_FEE_DENOMINATOR) (\<lambda>gross.
    ok_or () (try_narrow gross)))))))))"

lemma boundary_candidate_fits:
  assumes "target < pump_base_reserve m" "gross_boundary m (unat target) < 2 ^ 64"
  shows "\<exists>c. boundary_candidate m target = Ok c \<and> unat c = gross_boundary m (unat target)"
proof -
  let ?base = "pump_base_reserve m" and ?t = "unat target"
  let ?c = "curve_boundary (unat ?base) (quote_side m) ?t"
  have less: "?t < unat ?base" using assms(1) by (simp add: word_less_nat_alt)
  note bounds = unat_u64_bound [of ?base] unat_u16_bound [of "lp_fee_bps (market_pump_fees m)"]
    unat_u16_bound [of "protocol_fee_bps (market_pump_fees m)"]
    unat_u16_bound [of "creator_fee_bps (market_pump_fees m)"]
  have "?c * 10000 \<le> ?c * (10000 + total_bps m)" by simp
  also have scaled_less: "\<dots> < 2 ^ 64 * 10000"
    using assms(2) by (simp add: gross_boundary_def div_less_iff_less_mult)
  finally have c_less: "?c < 2 ^ 64" by simp
  obtain e where e: "market_effective_quote m = Ok e" "unat e = quote_side m"
    using effective_quote_unat by blast
  have "?t * quote_side m \<le> ?c * (unat ?base - ?t)"
    using less by (simp add: curve_boundary_def ceil_nat_mult_ge)
  also have "\<dots> \<le> (2 ^ 64 - 1) * (2 ^ 64 - 1)"
    using c_less bounds(1) by (intro mult_mono) auto
  finally have product_less: "?t * quote_side m \<le> (2 ^ 64 - 1) * (2 ^ 64 - 1)" .
  obtain product where product: "checked_mul (ucast target) e = Some product"
      "unat product = ?t * quote_side m"
    using checked_mul_fits [of "ucast target :: u128" e] product_less e(2)
    by (auto simp: unat_ucast_u128)
  obtain left where left: "checked_sub ?base target = Some left" "unat left = unat ?base - ?t"
    using checked_sub_fits [of target ?base] less by auto
  have "unat product + unat (ucast left :: u128) < 2 ^ 128"
    using product(2) product_less left(2) bounds(1) by (simp add: unat_ucast_u128)
  moreover have "(ucast left :: u128) \<noteq> 0"
    using left(2) less by (simp add: unat_ucast_u128 flip: unat_eq_zero)
  ultimately obtain curve where curve: "u128_div_ceil product (ucast left) = Ok curve" "unat curve = ?c"
    using u128_div_ceil_spec [of "ucast left" product] product(2) left(2)
    by (auto simp: curve_boundary_def unat_ucast_u128)
  obtain fee where fee: "pump_total_fee_bps m = Ok fee" "unat fee = total_bps m"
    using total_fee_bps_unat by blast
  obtain factor where factor: "checked_add PUMP_FEE_DENOMINATOR (ucast fee) = Some factor"
      "unat factor = 10000 + total_bps m"
    using checked_add_fits [of PUMP_FEE_DENOMINATOR "ucast fee"] fee(2) bounds
    by (auto simp: PUMP_FEE_DENOMINATOR_def unat_ucast_u128)
  obtain scaled where scaled: "checked_mul curve factor = Some scaled"
      "unat scaled = ?c * (10000 + total_bps m)"
    using checked_mul_fits [of curve factor] curve(2) factor(2) scaled_less by auto
  obtain gross where gross: "div_or_panic scaled PUMP_FEE_DENOMINATOR = (Ok gross :: u128 maybe)"
      "unat gross = gross_boundary m ?t"
    using div_or_panic_fits [of PUMP_FEE_DENOMINATOR scaled] scaled(2)
    by (auto simp: PUMP_FEE_DENOMINATOR_def gross_boundary_def)
  obtain c :: u64 where "try_narrow gross = Some c" "unat c = gross_boundary m ?t"
    using try_narrow_fits [of gross, where 'b = 64] gross(2) assms(2) by auto
  with e(1) product(1) left(1) curve(1) fee(1) factor(1) scaled(1) gross(1) show ?thesis
    by (simp add: boundary_candidate_def)
qed

lemma u128_div_ceil_OkD:
  assumes "u128_div_ceil n d = Ok c"
  shows "unat c = ceil_nat (unat n) (unat d)"
  using assms
  by (auto simp: u128_div_ceil_def ceil_nat_def result_iff unat_div checked_add_Some checked_sub_Some
      bind_eq_Some_conv split: if_splits)

lemma boundary_candidate_OkD:
  assumes "boundary_candidate m target = Ok c"
  shows "unat c = gross_boundary m (unat target)"
proof -
  obtain e product left curve fee factor scaled gross where
    e: "market_effective_quote m = Ok e" and product: "checked_mul (ucast target) e = Some product" and
    left: "checked_sub (pump_base_reserve m) target = Some left" and
    curve: "u128_div_ceil product (ucast left) = Ok curve" and
    fee: "pump_total_fee_bps m = Ok fee" and
    factor: "checked_add PUMP_FEE_DENOMINATOR (ucast fee) = Some factor" and
    scaled: "checked_mul curve factor = Some scaled" and
    gross: "div_or_panic scaled PUMP_FEE_DENOMINATOR = (Ok gross :: u128 maybe)" and
    c: "try_narrow gross = Some c"
    using assms by (auto simp: boundary_candidate_def result_iff)
  have "unat e = quote_side m" using e effective_quote_unat [of m] by auto
  moreover have "unat fee = total_bps m" using fee total_fee_bps_unat [of m] by auto
  moreover have "unat c = unat gross"
    using c by (auto simp: try_narrow_def unsigned_ucast_eq take_bit_nat_eq_self split: if_splits)
  ultimately show ?thesis
    using product left u128_div_ceil_OkD [OF curve] factor scaled gross
    by (simp add: checked_mul_Some checked_sub_Some checked_add_Some arith_iff unat_ucast_u128
        PUMP_FEE_DENOMINATOR_def gross_boundary_def curve_boundary_def)
qed

lemma pump_buy_amount_out_no_panic: "pump_buy_amount_out m a \<noteq> Panic"
  by (simp add: pump_buy_amount_out_def market_buy_def pump_buy_closed Let_def)

text \<open>The check of the source at the end never fails on a quote that can be had.\<close>

lemma pump_boundary_iff:
  "pump_input_at_or_below_target_out m target = Ok c \<longleftrightarrow>
    target \<noteq> 0 \<and> target < pump_base_reserve m \<and> unat c = gross_boundary m (unat target) \<and> c \<noteq> 0 \<and>
    (\<exists>out. pump_buy_amount_out m c = Ok out)"
proof (cases "target = 0 \<or> pump_base_reserve m \<le> target")
  case False
  then have less: "target < pump_base_reserve m" by (simp add: not_le)
  have run: "pump_input_at_or_below_target_out m target =
    and_then (boundary_candidate m target) (\<lambda>candidate.
      if candidate = 0 then Err ()
      else and_then (ok (pump_buy_amount_out m candidate)) (\<lambda>output.
        case output of Some out \<Rightarrow> if out < target then Ok candidate else Err () | None \<Rightarrow> Err ()))"
    using False unfolding pump_input_at_or_below_target_out_def boundary_candidate_def
    by (simp add: and_then_assoc)
  have below: "out < target" if "pump_buy_amount_out m c = Ok out" "unat c = gross_boundary m (unat target)" for out
    using below_boundary [of "unat target" m c out] that less by (simp add: word_less_nat_alt)
  show ?thesis
  proof
    assume ok: "pump_input_at_or_below_target_out m target = Ok c"
    then obtain c' where c': "boundary_candidate m target = Ok c'" unfolding run by (auto simp: result_iff)
    with ok have "c' = c" "c \<noteq> 0" "\<exists>out. pump_buy_amount_out m c = Ok out"
      unfolding run by (auto split: if_splits option.splits simp: result_iff)
    with c' boundary_candidate_OkD [of m target c] False less
    show "target \<noteq> 0 \<and> target < pump_base_reserve m \<and> unat c = gross_boundary m (unat target) \<and> c \<noteq> 0 \<and>
      (\<exists>out. pump_buy_amount_out m c = Ok out)" by simp
  next
    assume r: "target \<noteq> 0 \<and> target < pump_base_reserve m \<and> unat c = gross_boundary m (unat target) \<and>
      c \<noteq> 0 \<and> (\<exists>out. pump_buy_amount_out m c = Ok out)"
    then have "gross_boundary m (unat target) < 2 ^ 64" using unat_u64_bound [of c] by simp
    from boundary_candidate_fits [OF less this] r have "boundary_candidate m target = Ok c"
      by (auto simp: word_unat_eq_iff)
    with r below show "pump_input_at_or_below_target_out m target = Ok c"
      unfolding run by auto
  qed
qed (auto simp: pump_input_at_or_below_target_out_def)

section \<open>The least input that reaches a target, by search\<close>

text \<open>The search with which the tests of \<^verbatim>\<open>dynamic_amount.rs\<close> look for the transition: doubling until
  the target is reached, then halving.  The doubled amount is a power of two, so it overflows (and
  the \<open>unwrap\<close> panics) in the 64th round at the latest.\<close>

definition reaches :: "market_state \<Rightarrow> u64 \<Rightarrow> u64 \<Rightarrow> ('e, bool) result" where
  "reaches m target amount =
    map_ok (\<lambda>output. case output of Some out \<Rightarrow> target \<le> out | None \<Rightarrow> False)
      (ok (pump_buy_amount_out m amount))"

primrec double_until :: "nat \<Rightarrow> market_state \<Rightarrow> u64 \<Rightarrow> u64 \<Rightarrow> ('e, u64) result" where
  "double_until 0 m target high = Panic"
| "double_until (Suc rounds) m target high =
    and_then (reaches m target high) (\<lambda>reached.
    if reached then Ok high
    else and_then (or_panic (checked_mul high 2)) (double_until rounds m target))"

function halve_until :: "market_state \<Rightarrow> u64 \<Rightarrow> u64 \<Rightarrow> u64 \<Rightarrow> ('e, u64) result" where
  "halve_until m target low high =
    (if low < high then
       and_then (sub_or_panic high low) (\<lambda>gap.
       and_then (add_or_panic low (gap div 2)) (\<lambda>midpoint.
       and_then (reaches m target midpoint) (\<lambda>reached.
       if reached then halve_until m target low midpoint
       else and_then (add_or_panic midpoint 1) (\<lambda>low. halve_until m target low high))))
     else Ok low)"
  by pat_completeness auto

lemma lower_midpoint:
  assumes "low < high" "sub_or_panic high low = Ok gap" "add_or_panic low (gap div 2) = Ok (midpoint :: u64)"
  shows "unat low \<le> unat midpoint" "unat midpoint < unat high"
proof -
  have "unat midpoint = unat low + unat gap div 2"
    using add_or_panic_Ok [OF assms(3)] by (simp add: unat_div)
  moreover have "unat low < unat high" using assms(1) by (simp add: word_less_nat_alt)
  moreover have "unat gap = unat high - unat low" using sub_or_panic_Ok [OF assms(2)] by simp
  ultimately show "unat low \<le> unat midpoint" "unat midpoint < unat high" by linarith+
qed

termination halve_until
proof (relation "measure (\<lambda>(_, _, low, high). unat high - unat low)", goal_cases)
  case (2 m target low high gap midpoint reached)
  then show ?case using lower_midpoint [OF 2(1-3)] by simp
next
  case (3 m target low high gap midpoint reached low')
  then show ?case using lower_midpoint [OF 3(1-3)] add_or_panic_Ok [OF 3(6)] by simp
qed simp

declare halve_until.simps [simp del]

definition exact_pump_input_for_target_out :: "market_state \<Rightarrow> u64 \<Rightarrow> ('e, u64) result" where
  "exact_pump_input_for_target_out m target =
    and_then (double_until 64 m target 1) (halve_until m target 1)"

definition target_reached :: "market_state \<Rightarrow> u64 \<Rightarrow> u64 \<Rightarrow> bool" where
  "target_reached m target a \<longleftrightarrow> (\<exists>out. pump_buy_amount_out m a = Ok out \<and> target \<le> out)"

lemma reaches_eq: "reaches m target a = Ok (target_reached m target a)"
  using pump_buy_amount_out_no_panic [of m a]
  by (cases "pump_buy_amount_out m a") (auto simp: reaches_def target_reached_def)

lemma unat_power_of_2: "k < 64 \<Longrightarrow> unat ((2 :: u64) ^ k) = 2 ^ k"
  using unat_of_nat_small [of "2 ^ k", where 'a = 64] power_strict_increasing [of k 64 "2 :: nat"]
  by simp

lemma double_until_reaches:
  assumes "j \<le> 63" "target_reached m target (2 ^ j)" "k \<le> j"
  shows "\<exists>h. (double_until (64 - k) m target (2 ^ k) :: ('e, u64) result) = Ok h \<and> target_reached m target h \<and> h \<noteq> 0"
  using assms(3)
proof (induction "j - k" arbitrary: k)
  case 0
  then have "k = j" "64 - k = Suc (63 - j)" using assms(1) by linarith+
  moreover have "unat ((2 :: u64) ^ j) \<noteq> 0" using assms(1) by (simp add: unat_power_of_2)
  ultimately show ?case using assms(2) by (auto simp: reaches_eq)
next
  case (Suc n)
  then have k: "k < j" "64 - k = Suc (64 - Suc k)" using assms(1) by linarith+
  have "unat ((2 :: u64) ^ k) * 2 = 2 ^ Suc k" using k(1) assms(1) by (simp add: unat_power_of_2)
  moreover have "(2 :: nat) ^ Suc k < 2 ^ 64" using k(1) assms(1) by (intro power_strict_increasing) auto
  ultimately have "checked_mul ((2 :: u64) ^ k) 2 = Some (2 ^ Suc k)"
    using checked_mul_fits [of "(2 :: u64) ^ k" 2] by (auto simp: checked_mul_def)
  with Suc.hyps(1) [of "Suc k"] Suc.hyps(2) k Suc.prems unat_power_of_2 [of k] assms(1)
  show ?case by (cases "target_reached m target (2 ^ k)") (auto simp: reaches_eq or_panic_def)
qed

lemma halve_until_spec:
  assumes "low \<le> high" "target_reached m target high" "lo \<le> low" "low = lo \<or> \<not> target_reached m target (low - 1)"
  shows "\<exists>e. (halve_until m target low high :: ('e, u64) result) = Ok e \<and> lo \<le> e \<and> target_reached m target e \<and>
    (e = lo \<or> \<not> target_reached m target (e - 1))"
  using assms
proof (induction "unat high - unat low" arbitrary: low high rule: less_induct)
  case less
  show ?case
  proof (cases "low < high")
    case True
    let ?gap = "high - low"
    let ?mid = "low + ?gap div 2"
    have gap: "(sub_or_panic high low :: ('e, u64) result) = Ok ?gap" using True by (intro sub_or_panic_le) simp
    have "unat ?gap = unat high - unat low" using True by (intro unat_sub_small) simp
    then have "unat low + unat (?gap div 2) < 2 ^ LENGTH(64)"
      using True unat_u64_bound [of high] unfolding word_less_nat_alt by (simp add: unat_div)
    then have mid: "(add_or_panic low (?gap div 2) :: ('e, u64) result) = Ok ?mid"
      by (simp add: add_or_panic_def or_panic_def checked_add_def)
    note between = lower_midpoint [OF True gap mid]
    have "unat ?mid + 1 < 2 ^ LENGTH(64)" using between(2) unat_u64_bound [of high] by simp
    then have one: "(add_or_panic ?mid 1 :: ('e, u64) result) = Ok (?mid + 1)" "unat (?mid + 1) = unat ?mid + 1"
      using checked_add_fits [of ?mid 1] unat_add_small [of ?mid 1]
      by (auto simp: add_or_panic_def or_panic_def checked_add_def)
    have step: "(halve_until m target low high :: ('e, u64) result) =
      (if target_reached m target ?mid then halve_until m target low ?mid
       else halve_until m target (?mid + 1) high)"
      using True gap mid one(1)
      by (subst halve_until.simps) (simp add: reaches_eq)
    show ?thesis
    proof (cases "target_reached m target ?mid")
      case True
      with less.hyps [of ?mid low] less.prems between show ?thesis
        unfolding step by (simp add: word_le_nat_alt)
    next
      case False
      have "unat high - unat (?mid + 1) < unat high - unat low" using between one(2) by simp
      from less.hyps [OF this] False less.prems between one(2) show ?thesis
        unfolding step by (simp add: word_le_nat_alt)
    qed
  next
    case False
    have stop: "halve_until m target k k = Ok k" for k by (subst halve_until.simps) simp
    from False less.prems show ?thesis by (simp add: stop)
  qed
qed

lemma exact_search_spec:
  assumes "j \<le> 63" "target_reached m target (2 ^ j)"
  shows "\<exists>e. (exact_pump_input_for_target_out m target :: ('e, u64) result) = Ok e \<and>
    target_reached m target e \<and> (e = 1 \<or> \<not> target_reached m target (e - 1))"
proof -
  obtain h where h: "(double_until 64 m target 1 :: ('e, u64) result) = Ok h" "target_reached m target h" "h \<noteq> 0"
    using double_until_reaches [OF assms, of 0] by auto
  have "1 \<le> h" using h(3) by (simp add: word_le_nat_alt unat_gt_0 Suc_le_eq)
  from halve_until_spec [OF this h(2), of 1] h(1) show ?thesis
    by (auto simp: exact_pump_input_for_target_out_def)
qed

section \<open>The boundary is tight\<close>

lemma boundary_tight:
  assumes "pump_input_at_or_below_target_out m target = Ok c"
  shows "a \<le> c \<Longrightarrow> \<not> target_reached m target a"
    and "total_bps m \<le> 13333 \<Longrightarrow> unat c + 8 \<le> unat a \<Longrightarrow> target_reached m target a"
proof -
  note c = assms [unfolded pump_boundary_iff]
  then have less: "unat target < unat (pump_base_reserve m)" by (simp add: word_less_nat_alt)
  obtain r where "market_buy m c = Ok r" using c pump_buy_amount_out_OkD by blast
  then have quote: "pump_quote_reserve m \<noteq> 0" using pump_buy_OkD(3) by (simp add: market_buy_def)
  show "a \<le> c \<Longrightarrow> \<not> target_reached m target a"
    using below_boundary [OF less, of a] c by (auto simp: target_reached_def word_le_nat_alt)
  show "total_bps m \<le> 13333 \<Longrightarrow> unat c + 8 \<le> unat a \<Longrightarrow> target_reached m target a"
    using above_boundary [OF less quote, of a] c by (auto simp: target_reached_def word_le_nat_alt)
qed

lemma exact_search_near_boundary:
  assumes "pump_input_at_or_below_target_out m target = Ok c"
    and "total_bps m \<le> 13333" "unat c + 8 \<le> 2 ^ 63"
  shows "\<exists>e. (exact_pump_input_for_target_out m target :: ('e, u64) result) = Ok e \<and>
    unat c < unat e \<and> unat e \<le> unat c + 8"
proof -
  note tight = boundary_tight [OF assms(1)]
  have "target_reached m target (2 ^ 63)"
    using tight(2) [OF assms(2), of "2 ^ 63"] assms(3) by simp
  from exact_search_spec [OF _ this] obtain e where
    e: "(exact_pump_input_for_target_out m target :: ('e, u64) result) = Ok e" "target_reached m target e"
      "e = 1 \<or> \<not> target_reached m target (e - 1)" by auto
  have "c < e" using tight(1) [of e] e(2) by (meson not_le)
  moreover have "unat e \<le> unat c + 8"
  proof (rule ccontr)
    assume "\<not> unat e \<le> unat c + 8"
    then have "e \<noteq> 1" "unat c + 8 \<le> unat (e - 1)"
      using unat_sub_small [of 1 e] by (auto simp: word_le_nat_alt)
    with tight(2) [OF assms(2)] e(3) show False by blast
  qed
  ultimately show ?thesis using e(1) by (auto simp: word_less_nat_alt)
qed

section \<open>Properties\<close>

lemmas [eval_defs] =
  market_effective_quote_def pump_total_fee_bps_def u128_div_ceil_def market_buy_def
  pump_buy_amount_out_def pump_input_at_or_below_target_out_def PUMP_FEE_DENOMINATOR_def

text \<open>The market of the unit tests of \<^verbatim>\<open>dynamic_amount.rs\<close>.\<close>

definition test_market :: market_state where
  "test_market =
    \<lparr>pump_base_reserve = 1000000000000, pump_quote_reserve = 10000000000,
     pump_virtual_quote_reserve = 1000000000,
     market_pump_fees = \<lparr>lp_fee_bps = 20, protocol_fee_bps = 5, creator_fee_bps = 5\<rparr>,
     market_pair =
       \<lparr>static_parameters = \<lparr>base_factor = 200, filter_period = 30, decay_period = 600,
          reduction_factor = 5000, variable_fee_control = 0, max_volatility_accumulator = 0,
          protocol_share = 0, base_fee_power_factor = 0, function_type = 1, collect_fee_mode = 0\<rparr>,
        variable_parameters = \<lparr>volatility_accumulator = 0, volatility_reference = 0,
          index_reference = 0, last_update_timestamp = 0\<rparr>,
        active_id = 0, bin_step = 10, bitmap = replicate 16 0, rewards_are_empty = True\<rparr>,
     market_target_is_x = True\<rparr>"

text \<open>C25. The input that the dynamic search derives from an output boundary of the curve is on the safe
  side of it and tight, on every market: no input up to it buys the boundary, although the buy quote
  is not monotone, and when the fees add up to at most 133.33 percent every input eight units above
  it can be quoted and buys at least the boundary.\<close>

theorem pump_boundary_tight:
  assumes "pump_input_at_or_below_target_out m target = Ok c"
  shows "(\<forall>a out. a \<le> c \<longrightarrow> pump_buy_amount_out m a = Ok out \<longrightarrow> out < target) \<and>
    (unat (lp_fee_bps (market_pump_fees m)) + unat (protocol_fee_bps (market_pump_fees m))
       + unat (creator_fee_bps (market_pump_fees m)) \<le> 13333 \<longrightarrow>
     (\<forall>a. unat c + 8 \<le> unat a \<longrightarrow> (\<exists>out. pump_buy_amount_out m a = Ok out \<and> target \<le> out)))"
  using boundary_tight [OF assms] by (auto simp: target_reached_def not_le)

theorem pump_boundary_tight_witness:
  "pump_input_at_or_below_target_out test_market 5000000 = Ok 55166 \<and>
   (\<exists>out. pump_buy_amount_out test_market 55160 = Ok out \<and> out < 5000000) \<and>
   (\<exists>out. pump_buy_amount_out test_market 55174 = Ok out \<and> 5000000 \<le> out)"
proof -
  have c: "pump_input_at_or_below_target_out test_market 5000000 = Ok 55166"
    by (simp add: test_market_def eval_defs cong: eval_cong)
  note tight = pump_boundary_tight [OF this]
  have "\<exists>out. pump_buy_amount_out test_market 55160 = Ok out"
    by (simp add: test_market_def eval_defs cong: eval_cong)
  then obtain out where out: "pump_buy_amount_out test_market 55160 = Ok out" by blast
  have "(55160 :: u64) \<le> 55166" by simp
  with conjunct1 [OF tight] out have "out < 5000000" by blast
  moreover have "\<exists>out. pump_buy_amount_out test_market 55174 = Ok out \<and> 5000000 \<le> out"
    using conjunct2 [OF tight] by (simp add: test_market_def)
  ultimately show ?thesis using c out by blast
qed

end
