(* ===== verification/Panic_Freedom.thy ===== *)
theory Panic_Freedom
  imports Program_Entry Quote_Probe Interior_Test Pump_Boundary
begin

text \<open>
  No instruction panics unless a program it calls does: every index of a fixed array, every plain
  addition, subtraction, shift and division of the sources is shown to be in range on any accounts,
  bytes and amounts.
\<close>

section \<open>Reading the accounts\<close>

lemma mode_readers_no_panic:
  "fee_on_input pair d \<noteq> Panic" "supports_limit_orders pair \<noteq> Panic"
  "parse_bin_for_id data i index \<noteq> Panic" "array_initialized pair ext index \<noteq> Panic"
proof -
  have "parse_bin data base k \<noteq> Panic" for base k
    by (auto simp: parse_bin_def reader_cases result_iff split: if_splits)
  then show "parse_bin_for_id data i index \<noteq> Panic"
    by (auto simp: parse_bin_for_id_def result_iff bin_offset_no_panic)
  show "array_initialized pair ext index \<noteq> Panic"
    by (auto simp: array_initialized_def extension_bitmap_no_panic split: option.split)
qed (auto simp: fee_on_input_def supports_limit_orders_def Let_def split: if_splits)

lemma read_inputs_no_panic: "read_inputs env st r \<noteq> Panic"
  by (auto simp: read_inputs_def Let_def result_iff probe_no_panics checks_no_panic)

lemma mint_checks_no_panic:
  "validate_extensions es \<noteq> Panic" "all_writable as \<noteq> Panic" "writable a \<noteq> Panic"
proof -
  show "writable a \<noteq> Panic" for a by (simp add: writable_def result_iff)
  then show "all_writable as \<noteq> Panic" by (induction as) (auto simp: result_iff)
  show "validate_extensions es \<noteq> Panic" by (induction es) (auto simp: result_iff)
qed

lemma handler_checks_no_panic:
  "validate_args a p \<noteq> Panic" "validate_dynamic_args args \<noteq> Panic" "execute_route_constraints env r s \<noteq> Panic"
  "validate_route_mints env r s \<noteq> Panic" "validate_quote_accounts env st r arrays \<noteq> Panic"
  "ordered_bin_arrays st arrays indices \<noteq> Panic"
proof -
  show "validate_args a p \<noteq> Panic" "validate_dynamic_args args \<noteq> Panic" "execute_route_constraints env r s \<noteq> Panic"
    by (auto simp: validate_args_def validate_dynamic_args_def execute_route_constraints_def result_iff
        mint_checks_no_panic)
  show "validate_route_mints env r s \<noteq> Panic"
    by (auto simp: validate_route_mints_def validate_route_token_programs_def validate_supported_target_mint_def
        validate_user_token_fields_def Let_def result_iff mint_checks_no_panic checks_no_panic split: if_splits)
  show "validate_quote_accounts env st r arrays \<noteq> Panic"
    by (auto simp: validate_quote_accounts_def result_iff pump_parts_no_panic validate_no_panic split: if_splits)
  show "ordered_bin_arrays st arrays indices \<noteq> Panic"
    unfolding ordered_bin_arrays_def by (intro collect_no_panic) (simp add: result_iff)
qed

section \<open>The quote over raw accounts\<close>

lemma mark_used_index_Ok:
  assumes "len \<le> 2" "length indices = 2"
  shows "mark_used_index index indices len \<noteq> Panic"
    "mark_used_index index indices len = Ok (indices', len') \<Longrightarrow> len' \<le> 2 \<and> length indices' = 2"
  using assms
  by (auto simp: mark_used_index_def result_iff nth_or_panic_def MAX_QUOTE_BIN_ARRAYS_PER_DIRECTION_def
      split: if_splits)

lemma account_loop_no_panic:
  "aw_len w \<le> 2 \<Longrightarrow> length (aw_indices w) = 2 \<Longrightarrow> account_loop st pair arrays ext d i l n w \<noteq> Panic"
proof (induction n arbitrary: w)
  case (Suc n)
  have spend: "account_spend pair d i w b indices len \<noteq> Panic" for b indices len
    by (auto simp: account_spend_def Let_def result_iff partial_no_panic)
  have "account_step st pair arrays ext d i l w \<noteq> Panic"
    using mark_used_index_Ok(1) [OF Suc.prems] spend
    by (auto simp: account_step_def Let_def result_iff mode_readers_no_panic split: if_splits prod.splits)
  moreover have "aw_len v \<le> 2 \<and> length (aw_indices v) = 2" if "account_step st pair arrays ext d i l w = Ok v" for v
    using that Suc.prems mark_used_index_Ok(2) [OF Suc.prems]
    by (auto simp: account_step_def account_spend_def Let_def result_iff split: if_splits prod.splits)
  ultimately show ?case using Suc.IH by (auto simp: result_iff)
qed simp

lemma account_quote_no_panic: "quote_dlmm_from_accounts st a pair arrays ext d t \<noteq> Panic"
  by (auto simp: quote_dlmm_from_accounts_def Let_def result_iff mode_readers_no_panic account_loop_no_panic)

lemma direction_quotes_no_panic:
  "forward_quote st p arrays ext a t \<noteq> Panic" "reverse_quote st p arrays ext a t \<noteq> Panic"
  by (auto simp: forward_quote_def reverse_quote_def result_iff pump_buy_quote_def pump_sell_quote_def
      pump_quotes_no_panic account_quote_no_panic split: option.splits)

lemma select_direction_no_panic: "select_direction env st r arrays a profit t \<noteq> Panic"
  by (auto simp: select_direction_def Let_def result_iff read_inputs_no_panic direction_quotes_no_panic
      pump_parts_no_panic choose_direction_no_panic split: if_splits prod.splits)

section \<open>Curves\<close>

lemma note_index_Ok:
  assumes "len \<le> 2" "length indices = 2"
  shows "note_index index indices len \<noteq> Panic"
    "note_index index indices len = Ok (Some (indices', len')) \<Longrightarrow> len' \<le> 2 \<and> length indices' = 2"
  using assms
  by (auto simp: note_index_def result_iff nth_or_panic_def MAX_QUOTE_BIN_ARRAYS_PER_DIRECTION_def
      split: if_splits)

lemma capacity_no_panic: "dlmm_bin_quote_capacity b d i f \<noteq> Panic"
  by (auto simp: dlmm_bin_quote_capacity_def result_iff partial_no_panic)

lemma push_bin_no_panic: "push_bin pair d i limit w b \<noteq> Panic"
  using capacity_no_panic
  by (auto simp: push_bin_def curve_push_def Let_def result_iff dlmm_total_fee_rate_no_panic
      split: result.splits quote_error.splits)

lemma within_capacity_no_panic: "dlmm_bin_output_within_capacity a ci co p d i r \<noteq> Panic"
  by (auto simp: dlmm_bin_output_within_capacity_def excluded_fee_amount_def result_iff arith_iff
      split: if_splits prod.splits)

text \<open>The walk that builds a curve keeps its arrays in bounds, and so do its segments.\<close>

definition noted :: "dlmm_segment \<Rightarrow> bool" where
  "noted s \<longleftrightarrow> segment_used_len s \<le> length (segment_used_indices s)"

definition walk_bounded :: "curve_walk \<Rightarrow> bool" where
  "walk_bounded w \<longleftrightarrow> cw_len w \<le> 2 \<and> length (cw_indices w) = 2 \<and> curve_ok (cw_curve w) \<and>
    list_all noted (in_use (cw_curve w))"

lemma curve_step_no_panic: "walk_bounded w \<Longrightarrow> curve_step st pair arrays ext d i l limit w \<noteq> Panic"
  using note_index_Ok(1) [of "cw_len w" "cw_indices w"]
  by (auto simp: curve_step_def walk_bounded_def Let_def result_iff mode_readers_no_panic push_bin_no_panic
      split: option.splits if_splits prod.splits)

lemma curve_step_bounded:
  assumes "walk_bounded w" "curve_step st pair arrays ext d i l limit w = Ok f"
  shows "walk_bounded (flow_walk f)"
proof -
  have small: "cw_len w \<le> 2" "length (cw_indices w) = 2" and ok: "curve_ok (cw_curve w)"
    and rest: "list_all noted (in_use (cw_curve w))"
    using assms(1) by (simp_all add: walk_bounded_def)
  have passed: "len \<le> 2 \<and> length indices = 2"
    if "bin_found st pair arrays ext l (cw_id w) (cw_indices w) (cw_len w) b indices len" for b indices len
    using that note_index_Ok(2) [OF small] by (auto simp: bin_found_def)
  from assms(2) ok show ?thesis
  proof (cases rule: curve_step_cases)
    case (empty b indices len r)
    with passed [OF empty(1)] ok rest show ?thesis by (simp add: walk_bounded_def bin_passed_def)
  next
    case (segment b indices len r rate q curve)
    with passed [OF segment(1)] rest show ?thesis
      by (simp add: walk_bounded_def bin_passed_def Let_def noted_def segment_at_def)
  qed (use small ok rest in \<open>simp_all add: walk_bounded_def\<close>)
qed

lemma curve_loop_bounded:
  "walk_bounded w \<Longrightarrow> curve_loop st pair arrays ext d i l limit n w \<noteq> Panic \<and>
    (curve_loop st pair arrays ext d i l limit n w = Ok (w', reason) \<longrightarrow> walk_bounded w')"
proof (induction n arbitrary: w)
  case (Suc n)
  show ?case
  proof (cases "curve_step st pair arrays ext d i l limit w")
    case (Ok f)
    with curve_step_bounded [OF Suc.prems Ok] Suc.IH show ?thesis by (cases f) auto
  qed (use curve_step_no_panic [OF Suc.prems] in auto)
qed auto

lemma walk_bounded_start:
  "walk_bounded \<lparr>cw_id = n, cw_in = 0, cw_out = 0, cw_indices = [0, 0], cw_len = 0,
    cw_variable = v, cw_visited = 0, cw_curve = curve_clear curve_new\<rparr>"
  by (simp add: walk_bounded_def curve_clear_ok curve_new_ok)

lemma build_curve_no_panic: "build_curve curve_new st pair arrays ext d t limit \<noteq> Panic"
proof -
  note loop = curve_loop_bounded [OF walk_bounded_start]
  show ?thesis
    using loop by (auto simp: build_curve_def Let_def result_iff mode_readers_no_panic walk_bounded_def
        as_slice_in_use MAX_QUOTE_VISITED_BINS_PER_DIRECTION_def split: prod.splits)
qed

text \<open>What is known of a built curve.\<close>

definition built :: "dlmm_curve \<Rightarrow> bool" where
  "built c \<longleftrightarrow> curve_ok c \<and> chain 0 0 (in_use c) \<and> list_all noted (in_use c)"

lemma build_curve_built:
  assumes "build_curve curve_new st pair arrays ext d t limit = Ok c"
  shows "built c"
proof -
  obtain i l where il: "fee_on_input pair d = Ok i" "supports_limit_orders pair = Ok l"
    using build_curve_switches [OF assms] by blast
  from build_curve_Ok [OF assms curve_new_ok(1) il] obtain w reason where
    loop: "curve_loop st pair arrays ext d i l limit 16
       \<lparr>cw_id = active_id pair, cw_in = 0, cw_out = 0, cw_indices = [0, 0], cw_len = 0,
        cw_variable = update_reference (active_id pair) (variable_parameters pair) (static_parameters pair) t,
        cw_visited = 0, cw_curve = curve_clear curve_new\<rparr> = Ok (w, reason)"
    and c: "curve_ok c" "in_use c = in_use (cw_curve w)" "chain 0 0 (in_use c)" by metis
  from curve_loop_bounded [OF walk_bounded_start] loop have "walk_bounded w" by blast
  with c show ?thesis by (simp add: built_def walk_bounded_def)
qed

lemma curve_quote_no_panic: "built c \<Longrightarrow> curve_quote_at c a \<noteq> Panic"
proof -
  assume c: "built c"
  show ?thesis
  proof (cases "a = 0")
    case False
    with c curve_quote_first [of c a] show ?thesis
      by (auto simp: built_def quote_in_def segment_quote_def result_iff within_capacity_no_panic)
  qed (simp add: curve_quote_at_def)
qed

lemma curve_quote_noted:
  assumes "built c" "curve_quote_at c a = Ok q"
  shows "cq_used_len q \<le> length (cq_used_indices q)"
proof -
  have "a \<noteq> 0" using assms(2) by (auto simp: curve_quote_at_def)
  with assms curve_quote_first [of c a] have "quote_in (in_use c) a = Ok q" by (simp add: built_def)
  then obtain s where s: "find (\<lambda>s. a \<le> input_end s) (in_use c) = Some s"
    "cq_used_len q = segment_used_len s" "cq_used_indices q = segment_used_indices s"
    by (auto simp: quote_in_def segment_quote_def result_iff)
  have "s \<in> set (in_use c)" using s(1) by (auto simp: find_Some_iff)
  with s(2,3) assms(1) show ?thesis by (auto simp: built_def noted_def list_all_iff)
qed

section \<open>Candidates\<close>

lemma den_nonzero: "PUMP_FEE_DENOMINATOR \<noteq> 0"
  by (simp add: PUMP_FEE_DENOMINATOR_def)

lemma forward_amount_no_panic: "sqrt_floor x = Ok rt \<Longrightarrow> forward_amount e fee a b x \<noteq> Panic"
  using den_nonzero by (auto simp: forward_amount_def result_iff div_or_panic_def)

lemma capacities_Ok:
  assumes "input_start s < input_end s" "output_start s < output_end s"
  shows "\<exists>ic oc. (input_capacity s :: u64 maybe) = Ok ic \<and> (output_capacity s :: u64 maybe) = Ok oc \<and> oc \<noteq> 0"
  using assms by (auto simp: input_capacity_def output_capacity_def sub_or_panic_def checked_sub_def or_panic_def
      split: if_splits)

lemma ratio_no_panic: "length ns \<le> 100 \<Longrightarrow> length ds \<le> 100 \<Longrightarrow> normalized_product_ratio ns ds \<noteq> Panic"
  using product_ratio_range [of ns ds] by (auto split: if_splits)

lemma forward_interior_no_panic:
  assumes "input_start s < input_end s" "output_start s < output_end s"
  shows "forward_interior_candidate m s a b \<noteq> Panic"
proof -
  obtain f where f: "pump_total_fee_bps m = Ok f" "unat f < 2 ^ 18" using total_fee_bps_spec by blast
  obtain e where e: "market_effective_quote m = Ok e" "unat e < 2 ^ 65" using effective_quote_spec by blast
  obtain ff where ff: "checked_add PUMP_FEE_DENOMINATOR (ucast f) = Some ff" "unat ff = 10000 + unat f"
    using checked_add_fits [of PUMP_FEE_DENOMINATOR "ucast f"] f(2)
    by (auto simp: unat_ucast_u128 PUMP_FEE_DENOMINATOR_def)
  obtain ic oc where caps: "(input_capacity s :: u64 maybe) = Ok ic" "(output_capacity s :: u64 maybe) = Ok oc"
    using capacities_Ok [OF assms] by blast
  let ?ratio = "normalized_product_ratio
    [ucast oc, ucast (pump_base_reserve m), PUMP_FEE_DENOMINATOR, e] [ucast ic, ff]"
  have "forward_amount e f a b x \<noteq> Panic" if "?ratio = Ok x" for x
  proof -
    have "int (bits e) \<le> 65" "int (bits ff) \<le> 64"
      using bits_bound [of e 65] bits_bound [of ff 64] e(2) ff(2) f(2) by simp_all
    with ratio_root [OF that] bits_u64 [of oc] bits_u64 [of ic] bits_u64 [of "pump_base_reserve m"]
    obtain rt where "sqrt_floor x = Ok rt" by (auto simp: bits_10000)
    then show ?thesis by (rule forward_amount_no_panic)
  qed
  then show ?thesis
    using ratio_no_panic [of "[ucast oc, ucast (pump_base_reserve m), PUMP_FEE_DENOMINATOR, e]" "[ucast ic, ff]"]
    by (cases ?ratio) (simp_all add: forward_test_sound forward_untested_def f(1) e(1) ff(1) caps)
qed

lemma widened_zero: "(ucast (x :: u64) :: u128) = 0 \<longleftrightarrow> x = 0"
  by (metis unat_eq_zero unat_ucast_u128)

lemma reverse_amount_no_panic:
  assumes "input_start s < input_end s" "output_start s < output_end s" "sqrt_floor x = Ok rt"
  shows "reverse_amount base s x \<noteq> Panic"
  using capacities_Ok [OF assms(1,2)] assms(3)
  by (auto simp: reverse_amount_def result_iff div_or_panic_def widened_zero)

lemma reverse_interior_no_panic:
  assumes "input_start s < input_end s" "output_start s < output_end s"
  shows "reverse_interior_candidate m s \<noteq> Panic"
proof -
  obtain f where f: "pump_total_fee_bps m = Ok f" using total_fee_bps_spec by blast
  obtain e where e: "market_effective_quote m = Ok e" "unat e < 2 ^ 65" using effective_quote_spec by blast
  obtain ic oc where caps: "(input_capacity s :: u64 maybe) = Ok ic" "(output_capacity s :: u64 maybe) = Ok oc"
    using capacities_Ok [OF assms] by blast
  show ?thesis
  proof (cases "PUMP_FEE_DENOMINATOR \<le> ucast f")
    case False
    then have sub: "checked_sub PUMP_FEE_DENOMINATOR (ucast f) = Some (PUMP_FEE_DENOMINATOR - ucast f)"
      by (simp add: checked_sub_def)
    have "unat (PUMP_FEE_DENOMINATOR - ucast f) \<le> unat PUMP_FEE_DENOMINATOR"
      using False by (simp add: unat_sub_small)
    then have left: "int (bits (PUMP_FEE_DENOMINATOR - ucast f)) \<le> 14"
      using bits_bound [of "PUMP_FEE_DENOMINATOR - ucast f" 14] by (simp add: PUMP_FEE_DENOMINATOR_def)
    let ?ratio = "normalized_product_ratio
      [ucast oc, e, ucast (pump_base_reserve m), PUMP_FEE_DENOMINATOR - ucast f] [ucast ic, PUMP_FEE_DENOMINATOR]"
    have "reverse_amount (pump_base_reserve m) s x \<noteq> Panic" if "?ratio = Ok x" for x
    proof -
      have "int (bits e) \<le> 65" using bits_bound [of e 65] e(2) by simp
      with ratio_root [OF that] bits_u64 [of oc] bits_u64 [of ic] bits_u64 [of "pump_base_reserve m"] left
      obtain rt where "sqrt_floor x = Ok rt" by (auto simp: bits_10000)
      then show ?thesis by (rule reverse_amount_no_panic [OF assms])
    qed
    then show ?thesis
      using False ratio_no_panic [of "[ucast oc, e, ucast (pump_base_reserve m), PUMP_FEE_DENOMINATOR - ucast f]"
          "[ucast ic, PUMP_FEE_DENOMINATOR]"]
      by (cases ?ratio) (simp_all add: reverse_test_sound reverse_untested_def f e(1) caps sub)
  qed (simp add: reverse_test_sound reverse_untested_def f)
qed

lemma pump_boundary_no_panic: "pump_input_at_or_below_target_out m target \<noteq> Panic"
proof -
  have "u128_div_ceil a b \<noteq> Panic" for a b by (auto simp: u128_div_ceil_def result_iff)
  moreover obtain f where "pump_total_fee_bps m = Ok f" using total_fee_bps_spec by blast
  moreover obtain e where "market_effective_quote m = Ok e" using effective_quote_spec by blast
  ultimately show ?thesis
    using den_nonzero pump_buy_amount_out_no_panic
    by (auto simp: pump_input_at_or_below_target_out_def result_iff div_or_panic_def split: option.splits if_splits)
qed

section \<open>The searches\<close>

lemma evaluate_no_panic:
  assumes "built c"
  shows "evaluate_forward m c a \<noteq> Panic" "evaluate_reverse m c a \<noteq> Panic"
  using assms market_buy_no_panic [of m]
  by (auto simp: evaluate_forward_def evaluate_reverse_def result_iff curve_quote_no_panic market_sell_def
      pump_quotes_no_panic)

lemma evaluate_loop_no_panic:
  "(\<And>a. evaluate a \<noteq> Panic) \<Longrightarrow> evaluate_loop ctx evaluate candidates ev \<noteq> Panic"
  by (induction candidates arbitrary: ev) (auto simp: result_iff)

lemma over_segments_no_panic:
  "(\<And>segment s. segment \<in> set segs \<Longrightarrow> f segment s \<noteq> Panic) \<Longrightarrow> over_segments f segs s \<noteq> Panic"
  by (induction segs arbitrary: s) (auto simp: result_iff)

lemma segment_search_no_panic:
  assumes "built c" "segment \<in> set (in_use c)"
  shows "forward_segment m lo hi segment s \<noteq> Panic" "reverse_segment m lo hi segment s \<noteq> Panic"
proof -
  have "input_start segment < input_end segment" "output_start segment < output_end segment"
    using chain_segment [of 0 0 "in_use c" segment] assms by (auto simp: built_def)
  note interior = forward_interior_no_panic [OF this] reverse_interior_no_panic [OF this]
  then show "forward_segment m lo hi segment s \<noteq> Panic" "reverse_segment m lo hi segment s \<noteq> Panic"
    using pump_boundary_no_panic
    by (auto simp: forward_segment_def reverse_segment_def Let_def result_iff split: option.splits if_splits)
qed

lemma search_no_panic:
  assumes "built c"
  shows "search_forward m c lo hi profit \<noteq> (Panic :: ('e, direction_search) result)"
    "search_reverse m c lo hi profit \<noteq> (Panic :: ('e, direction_search) result)"
    "largest_forward_complete_amount m c hi \<noteq> (Panic :: ('e, u64) result)"
    "largest_complete_input c \<noteq> (Panic :: ('e, u64) result)"
proof -
  have ok: "curve_ok c" using assms by (simp add: built_def)
  note evaluate = evaluate_no_panic [OF assms]
  have loop: "evaluate_search c lo profit largest evaluate s \<noteq> Panic"
    if "\<And>a. evaluate a \<noteq> Panic" for largest evaluate s
    using evaluate_loop_no_panic [of evaluate] that
    by (auto simp: evaluate_search_def evaluate_candidates_def result_iff)
  have over: "over_segments (forward_segment m lo largest) (in_use c) s \<noteq> Panic"
    "over_segments (reverse_segment m lo largest) (in_use c) s \<noteq> Panic" for largest s
    by (intro over_segments_no_panic segment_search_no_panic [OF assms], assumption)+
  show "largest_forward_complete_amount m c hi \<noteq> (Panic :: ('e, u64) result)"
    "largest_complete_input c \<noteq> (Panic :: ('e, u64) result)"
    using largest_forward_spec [where 'e = 'e, OF ok evaluate(1), of m hi] by (auto simp: largest_input [OF ok])
  show "search_forward m c lo hi profit \<noteq> (Panic :: ('e, direction_search) result)"
    using largest_forward_spec [where 'e = 'e, OF ok evaluate(1), of m hi]
    by (auto simp: search_forward_def result_iff as_slice_in_use [OF ok] over loop [OF evaluate(1)])
  show "search_reverse m c lo hi profit \<noteq> (Panic :: ('e, direction_search) result)"
    by (auto simp: search_reverse_def result_iff as_slice_in_use [OF ok] largest_input [OF ok] Let_def over
        loop [OF evaluate(2)])
qed

section \<open>The instructions\<close>

lemma directions_no_panic:
  "probe_forward_direction st arrays ext d t m bounds \<noteq> Panic"
  "probe_reverse_direction st arrays ext d t m bounds \<noteq> Panic"
  "search_forward_direction st arrays ext d t m bounds \<noteq> Panic"
  "search_reverse_direction st arrays ext d t m bounds \<noteq> Panic"
proof -
  have limit: "forward_input_limit m a \<noteq> Panic" for a
    using pump_buy_amount_out_no_panic by (auto simp: forward_input_limit_def result_iff)
  have probe: "probe_minimum c bounds largest q \<noteq> Panic" if "q \<noteq> Panic" for c largest q
    using that by (auto simp: probe_minimum_def Let_def result_iff split: option.splits)
  note curve = build_curve_no_panic search_no_panic [OF build_curve_built] evaluate_no_panic [OF build_curve_built]
  show "probe_forward_direction st arrays ext d t m bounds \<noteq> Panic"
    "probe_reverse_direction st arrays ext d t m bounds \<noteq> Panic"
    "search_forward_direction st arrays ext d t m bounds \<noteq> Panic"
    "search_reverse_direction st arrays ext d t m bounds \<noteq> Panic"
    by (auto simp: probe_forward_direction_def probe_reverse_direction_def search_forward_direction_def
        search_reverse_direction_def result_iff limit probe curve)
qed

lemma select_dynamic_no_panic: "select_dynamic env st r arrays lo hi profit t \<noteq> Panic"
  by (auto simp: select_dynamic_def parse_market_reads Let_def result_iff read_inputs_no_panic
      directions_no_panic pump_parts_no_panic split: prod.splits dynamic_decision.splits if_splits)

text \<open>The slice of the selected arrays is in range.\<close>

lemma selected_noted:
  assumes "select_dynamic env st r arrays lo hi profit t = Ok s" "profit \<noteq> 0" "lo \<le> hi"
  shows "choice_used_len (selected_choice s) \<le> length (choice_used_indices (selected_choice s))"
proof -
  let ?ch = "selected_choice s"
  from select_dynamic_choice [OF assms] obtain m arrs ext d t limit c q where
    c: "build_curve curve_new st (market_pair m) arrs ext d t limit = Ok c" and
    q: "evaluate_direction (selected_direction s) m c (choice_amount_in ?ch) = Ok q" and
    ch: "?ch = choice_of (choice_amount_in ?ch) q"
    unfolding quoted_choice_def by blast
  have "choice_used_indices ?ch = cq_used_indices q" "choice_used_len ?ch = cq_used_len q"
    by (subst ch, simp add: choice_of_def)+
  with q curve_quote_noted [OF build_curve_built [OF c]] show ?thesis
    by (cases "selected_direction s")
      (auto simp: evaluate_direction_def evaluate_forward_def evaluate_reverse_def result_iff)
qed

lemma execute_direction_no_panic:
  assumes "\<And>i infos st. env_invoke env i infos st \<noteq> Panic"
  shows "execute_direction env r arrays amount profit d s \<noteq> Panic"
  using route_never_panics [OF assms] by (cases d) (simp_all add: execute_direction_def)

lemma handlers_no_panic:
  assumes "\<And>i infos st. env_invoke env i infos st \<noteq> Panic"
  shows "pump_to_meteora_handler env r remaining args s \<noteq> Panic"
    "meteora_to_pump_handler env r remaining args s \<noteq> Panic"
    "best_direction_handler env r remaining args s \<noteq> Panic"
    "dynamic_amount_handler env r remaining dynamic_args s \<noteq> Panic"
proof -
  note route = route_never_panics [OF assms] execute_direction_no_panic [OF assms]
  show "pump_to_meteora_handler env r remaining args s \<noteq> Panic"
    "meteora_to_pump_handler env r remaining args s \<noteq> Panic"
    by (auto simp: pump_to_meteora_handler_def meteora_to_pump_handler_def result_iff handler_checks_no_panic route)
  show "best_direction_handler env r remaining args s \<noteq> Panic"
    by (auto simp: best_direction_handler_def Let_def result_iff handler_checks_no_panic
        select_direction_no_panic route split: prod.splits)
  show "dynamic_amount_handler env r remaining dynamic_args s \<noteq> Panic"
    by (auto simp: dynamic_amount_handler_def Let_def result_iff handler_checks_no_panic
        select_dynamic_no_panic validate_dynamic_args_def route dest!: selected_noted split: if_splits)
qed

section \<open>Property\<close>



end
