(* ===== verification/Test_Harness.thy ===== *)
theory Test_Harness
  imports Prelude
begin

text \<open>
  The vocabulary of the theories \<^verbatim>\<open>Quote_Tests\<close>, \<^verbatim>\<open>Program_Tests\<close> and \<^verbatim>\<open>Dynamic_Tests\<close>, which translate
  the \<^verbatim>\<open>#[test]\<close> functions of the sources.  A test is the proposition that it passes: every \<open>assert\<close>
  is a conjunct, and an \<open>unwrap\<close> makes the test fail on an error and on a panic.
\<close>

fun unwraps :: "('e, 'a) result \<Rightarrow> ('a \<Rightarrow> bool) \<Rightarrow> bool" where
  "unwraps (Ok x) P = P x"
| "unwraps (Err e) P = False"
| "unwraps Panic P = False"

fun unwraps_err :: "('e, 'a) result \<Rightarrow> ('e \<Rightarrow> bool) \<Rightarrow> bool" where
  "unwraps_err (Err e) P = P e"
| "unwraps_err (Ok x) P = False"
| "unwraps_err Panic P = False"

fun is_ok :: "('e, 'a) result \<Rightarrow> bool" where
  "is_ok (Ok x) = True"
| "is_ok (Err e) = False"
| "is_ok Panic = False"

fun is_err :: "('e, 'a) result \<Rightarrow> bool" where
  "is_err (Err e) = True"
| "is_err (Ok x) = False"
| "is_err Panic = False"

lemma unwraps_iff [result_iff]: "unwraps r P \<longleftrightarrow> (\<exists>x. r = Ok x \<and> P x)"
  by (cases r) auto

lemma unwraps_weak_cong: "r = r' \<Longrightarrow> unwraps r P = unwraps r' P"
  by simp

lemma unwraps_err_weak_cong: "r = r' \<Longrightarrow> unwraps_err r P = unwraps_err r' P"
  by simp

lemma list_all_weak_cong: "xs = ys \<Longrightarrow> list_all P xs = list_all P ys"
  by simp

text \<open>Evaluate the computation before what is asserted of its result, and a list before its loop.\<close>

lemmas test_cong = eval_cong unwraps_weak_cong unwraps_err_weak_cong list_all_weak_cong

text \<open>Eight bytes of a buffer that is given by its updates.\<close>

lemma take_8_drop:
  assumes "i + 8 \<le> length xs"
  shows "take 8 (drop i xs) = [xs ! i, xs ! (i + 1), xs ! (i + 2), xs ! (i + 3), xs ! (i + 4),
    xs ! (i + 5), xs ! (i + 6), xs ! (i + 7)]"
  using assms by (intro nth_equalityI) (auto simp: less_Suc_eq eval_nat_numeral add.commute)

end
