(* ===== verification/Quote_Tests.thy ===== *)
theory Quote_Tests
  imports Dlmm_Curve Quote_Probe Test_Harness
begin

text \<open>
  The unit tests of \<^verbatim>\<open>quote/math.rs\<close>, \<^verbatim>\<open>quote/accounts.rs\<close> and of the amount probe.  Each definition is one
  \<^verbatim>\<open>#[test]\<close> function of the source, and the lemma after it shows that the model passes it.  The
  vectors of the first ones are outputs of the SDKs of Pump and Meteora.
\<close>

section \<open>Pump and DLMM vectors\<close>

definition test_pump_quote_vector :: bool where
  "test_pump_quote_vector \<longleftrightarrow>
    unwraps (pump_buy_exact_quote_in 5000000 800000000000 20000000000 1000000000 20 5 5) (\<lambda>quote.
      quote_amount_out quote = 189861292 \<and> quote_fee quote = 14957)"

lemma pump_quote_vector: test_pump_quote_vector
  by (simp add: test_pump_quote_vector_def eval_defs cong: test_cong)

text \<open>A bin without limit orders and the parameters without a variable fee, the struct literals that
  the tests repeat.\<close>

abbreviation test_bin :: "u128 \<Rightarrow> u64 \<Rightarrow> u64 \<Rightarrow> bin" where
  "test_bin price x y \<equiv> \<lparr>price_q64 = price, amount_x = x, amount_y = y, open_order_amount = 0,
    processed_order_remaining_amount = 0, limit_order_ask_side = False\<rparr>"

abbreviation test_fee :: "u16 \<Rightarrow> dlmm_fee_parameters" where
  "test_fee factor \<equiv> \<lparr>fee_bin_step = 10, fee_base_factor = factor, fee_base_fee_power_factor = 0,
    fee_variable_fee_control = 0, fee_volatility_accumulator = 0\<rparr>"

definition test_dlmm_crosses_two_bins :: bool where
  "test_dlmm_crosses_two_bins \<longleftrightarrow>
    unwraps (dlmm_quote_exact_in 5000000
      [test_bin (push_bit 64 1) 0 2000000, test_bin (push_bit 64 1 * 99 div 100) 0 10000000]
      True True (test_fee 200)) (\<lambda>quote.
      quote_amount_in quote = 5000000 \<and> quote_amount_out quote = 4969900 \<and> quote_fee quote = 101)"

lemma dlmm_crosses_two_bins: test_dlmm_crosses_two_bins
  by (simp add: test_dlmm_crosses_two_bins_def eval_defs cong: test_cong)

definition test_dlmm_reverse_with_output_fee :: bool where
  "test_dlmm_reverse_with_output_fee \<longleftrightarrow>
    unwraps (dlmm_quote_exact_in 3000000 [test_bin (push_bit 64 1 * 105 div 100) 10000000 0]
      False False (test_fee 250)) (\<lambda>quote.
      quote_amount_out quote = 2857070 \<and> quote_fee quote = 72)"

lemma dlmm_reverse_with_output_fee: test_dlmm_reverse_with_output_fee
  by (simp add: test_dlmm_reverse_with_output_fee_def eval_defs cong: test_cong)

definition test_dlmm_dynamic_fee_vector :: bool where
  "test_dlmm_dynamic_fee_vector \<longleftrightarrow>
    (let parameters = \<lparr>fee_bin_step = 10, fee_base_factor = 200, fee_base_fee_power_factor = 0,
       fee_variable_fee_control = 100, fee_volatility_accumulator = 1000\<rparr> in
     unwraps (dlmm_total_fee_rate parameters) (\<lambda>rate. rate = 20001) \<and>
     unwraps (dlmm_quote_exact_in 5000000 [test_bin (push_bit 64 1 * 101 div 100) 0 10000000]
       True True parameters) (\<lambda>quote.
       quote_amount_out quote = 5049897 \<and> quote_fee quote = 101))"

lemma dlmm_dynamic_fee_vector: test_dlmm_dynamic_fee_vector
  by (simp add: test_dlmm_dynamic_fee_vector_def eval_defs cong: test_cong)

definition test_dlmm_limit_order_liquidity_vector :: bool where
  "test_dlmm_limit_order_liquidity_vector \<longleftrightarrow>
    unwraps (dlmm_quote_exact_in 250
      [\<lparr>price_q64 = push_bit 64 1, amount_x = 0, amount_y = 100, open_order_amount = 100,
        processed_order_remaining_amount = 100, limit_order_ask_side = False\<rparr>]
      True True (test_fee 200)) (\<lambda>quote.
      quote_amount_out quote = 249 \<and> quote_fee quote = 1)"

lemma dlmm_limit_order_liquidity_vector: test_dlmm_limit_order_liquidity_vector
  by (simp add: test_dlmm_limit_order_liquidity_vector_def eval_defs cong: test_cong)

definition test_reports_one_bin_gross_capacity :: bool where
  "test_reports_one_bin_gross_capacity \<longleftrightarrow>
    (let b = test_bin (push_bit 64 1) 0 1000; parameters = test_fee 200 in
     unwraps (dlmm_bin_quote_capacity b True True parameters) (\<lambda>capacity.
       quote_amount_out capacity = 1000 \<and> 1000 \<le> quote_amount_in capacity \<and>
       unwraps (dlmm_quote_exact_in (quote_amount_in capacity) [b] True True parameters)
         (\<lambda>quote. quote = capacity) \<and>
       unwraps (dlmm_total_fee_rate parameters) (\<lambda>fee_rate.
         list_all (\<lambda>amount.
           unwraps (dlmm_quote_exact_in_partial amount [b] True True parameters) (\<lambda>expected.
           unwraps (dlmm_bin_output_within_capacity amount (quote_amount_in capacity)
             (quote_amount_out capacity) (price_q64 b) True True fee_rate)
             (\<lambda>amount_out. amount_out = quote_amount_out expected)))
         [1, quote_amount_in capacity div 2, quote_amount_in capacity])))"

lemma reports_one_bin_gross_capacity: test_reports_one_bin_gross_capacity
  by (simp add: test_reports_one_bin_gross_capacity_def max_u64 eval_defs cong: test_cong)

definition test_compact_bin_segment_matches_output_fee :: bool where
  "test_compact_bin_segment_matches_output_fee \<longleftrightarrow>
    (let b = test_bin (push_bit 64 1 * 103 div 100) 10000 0; parameters = test_fee 200 in
     unwraps (dlmm_bin_quote_capacity b False False parameters) (\<lambda>capacity.
       let amount = quote_amount_in capacity div 2 in
       unwraps (dlmm_quote_exact_in_partial amount [b] False False parameters) (\<lambda>expected.
       unwraps (dlmm_total_fee_rate parameters) (\<lambda>fee_rate.
       unwraps (dlmm_bin_output_within_capacity amount (quote_amount_in capacity)
         (quote_amount_out capacity) (price_q64 b) False False fee_rate)
         (\<lambda>amount_out. amount_out = quote_amount_out expected)))))"

lemma compact_bin_segment_matches_output_fee: test_compact_bin_segment_matches_output_fee
  by (simp add: test_compact_bin_segment_matches_output_fee_def max_u64 eval_defs cong: test_cong)

section \<open>The bitmap extension\<close>

definition test_reads_bitmap_extension_boundaries :: bool where
  "test_reads_bitmap_extension_boundaries \<longleftrightarrow>
    (let data = (replicate (8 + 32 + 2 * 12 * 8 * 8) 0)[40 := 1, 40 + 12 * 8 * 8 := 1] in
     unwraps (extension_bitmap_contains data 512) (\<lambda>bit. bit) \<and>
     unwraps (extension_bitmap_contains data (- 513)) (\<lambda>bit. bit) \<and>
     unwraps (extension_bitmap_contains data 513) (\<lambda>bit. \<not> bit) \<and>
     unwraps (extension_bitmap_contains data (- 514)) (\<lambda>bit. \<not> bit) \<and>
     unwraps (extension_bitmap_contains data 511) (\<lambda>bit. \<not> bit))"

lemma reads_bitmap_extension_boundaries: test_reads_bitmap_extension_boundaries
  by (simp add: test_reads_bitmap_extension_boundaries_def take_8_drop eval_defs cong: test_cong)

section \<open>The amount probe\<close>

definition test_chooses_absolute_profit :: bool where
  "test_chooses_absolute_profit \<longleftrightarrow>
    (let rows =
       [\<lparr>row_input = 100, row_forward = Ok 120, row_reverse = Err InsufficientLiquidity\<rparr>,
        \<lparr>row_input = 1000, row_forward = Ok 1100, row_reverse = Ok 1150\<rparr>,
        \<lparr>row_input = 10000, row_forward = Err InsufficientLiquidity, row_reverse = Ok 9900\<rparr>] in
     choose_row rows 1
       = (Ok (Some \<lparr>pc_input = 1000, pc_output = 1150, pc_reverse = True\<rparr>) :: (unit, _) result) \<and>
     choose_row rows 151 = (Ok None :: (unit, _) result))"

lemma chooses_absolute_profit: test_chooses_absolute_profit
  by (simp add: test_chooses_absolute_profit_def choose_row_def consider_row_def eval_defs
      cong: test_cong)

definition test_no_profit_and_overflow :: bool where
  "test_no_profit_and_overflow \<longleftrightarrow>
    choose_row [\<lparr>row_input = - 1, row_forward = Ok 0, row_reverse = Ok (- 1)\<rparr>] 1
      = (Ok None :: (unit, _) result)"

lemma no_profit_and_overflow: test_no_profit_and_overflow
  by (simp add: test_no_profit_and_overflow_def choose_row_def consider_row_def eval_defs
      cong: test_cong)

end
