(* ===== verification/Program_Tests.thy ===== *)
theory Program_Tests
  imports Best_Direction Test_Harness
begin

text \<open>
  The unit tests of \<^verbatim>\<open>utils/\<close>, \<^verbatim>\<open>events.rs\<close>, \<^verbatim>\<open>adapters/meteora_dlmm.rs\<close>,
  \<^verbatim>\<open>instructions/post_trade_checks.rs\<close> and \<^verbatim>\<open>instructions/best_direction.rs\<close>, each with the lemma
  that the model passes it.  The keys of \<^verbatim>\<open>Pubkey::new_unique()\<close> are arguments of the tests: 32 bytes,
  and different from each other where a test needs them to be.
\<close>

section \<open>Account prefixes\<close>

definition put_bytes :: "u8 list \<Rightarrow> usize \<Rightarrow> u8 list \<Rightarrow> u8 list" where
  "put_bytes data offset xs = take offset data @ xs @ drop (offset + length xs) data"

text \<open>\<open>data[offset..offset + 32].copy_from_slice(key)\<close> panics out of range and on a key of another
  length.\<close>

definition put_pubkey :: "u8 list \<Rightarrow> usize \<Rightarrow> pubkey \<Rightarrow> (unit, u8 list) result" where
  "put_pubkey data offset pk =
    (if offset + 32 \<le> length data \<and> length pk = 32 then Ok (put_bytes data offset pk) else Panic)"

lemma length_put_bytes: "offset + length xs \<le> length data \<Longrightarrow> length (put_bytes data offset xs) = length data"
  by (simp add: put_bytes_def)

lemma slice_put_bytes:
  assumes "offset + length xs \<le> length data"
  shows "n = length xs \<Longrightarrow> slice (put_bytes data offset xs) offset n = Some xs"
    and "o' + n \<le> offset \<or> offset + length xs \<le> o' \<Longrightarrow>
      slice (put_bytes data offset xs) o' n = slice data o' n"
    and "i < offset \<or> offset + length xs \<le> i \<Longrightarrow> i < length data \<Longrightarrow>
      put_bytes data offset xs ! i = data ! i"
proof -
  have len: "length (put_bytes data offset xs) = length data" using assms by (rule length_put_bytes)
  show "n = length xs \<Longrightarrow> slice (put_bytes data offset xs) offset n = Some xs"
    using assms by (simp add: slice_def put_bytes_def)
  show nth: "i < offset \<or> offset + length xs \<le> i \<Longrightarrow> i < length data \<Longrightarrow>
      put_bytes data offset xs ! i = data ! i" for i
    using assms by (auto simp: put_bytes_def nth_append min_def)
  assume apart: "o' + n \<le> offset \<or> offset + length xs \<le> o'"
  have "take n (drop o' (put_bytes data offset xs)) = take n (drop o' data)" if "o' + n \<le> length data"
    using that apart len by (intro nth_equalityI) (auto simp: intro!: nth)
  then show "slice (put_bytes data offset xs) o' n = slice data o' n"
    by (simp add: slice_def len)
qed

lemma put_pubkey_Ok:
  assumes "offset + 32 \<le> length data" "length pk = 32"
  shows "\<exists>d. put_pubkey data offset pk = Ok d \<and> length d = length data \<and> slice d offset 32 = Some pk \<and>
    (\<forall>o' n. o' + n \<le> offset \<or> offset + 32 \<le> o' \<longrightarrow> slice d o' n = slice data o' n)"
  using assms length_put_bytes [of offset pk data] slice_put_bytes [of offset pk data]
  by (auto simp: put_pubkey_def)

definition test_parses_pump_pool_prefix :: "pubkey list \<Rightarrow> bool" where
  "test_parses_pump_pool_prefix keys \<longleftrightarrow>
    (let data = put_bytes (replicate 243 0) 0 PUMP_POOL_DISCRIMINATOR in
     unwraps (put_pubkey data 43 (keys ! 0)) (\<lambda>data.
     unwraps (put_pubkey data 75 (keys ! 1)) (\<lambda>data.
     unwraps (put_pubkey data 139 (keys ! 2)) (\<lambda>data.
     unwraps (put_pubkey data 171 (keys ! 3)) (\<lambda>data.
     unwraps (put_pubkey data 211 (keys ! 4)) (\<lambda>data.
     unwraps (parse_pump_pool_prefix data) (\<lambda>parsed.
       prefix_base_mint parsed = keys ! 0 \<and> prefix_quote_mint parsed = keys ! 1 \<and>
       prefix_base_vault parsed = keys ! 2 \<and> prefix_quote_vault parsed = keys ! 3 \<and>
       prefix_coin_creator parsed = keys ! 4 \<and> \<not> prefix_is_cashback_coin parsed)))))))"

lemma parses_pump_pool_prefix:
  assumes "length keys = 5" "\<forall>pk \<in> set keys. length pk = 32"
  shows "test_parses_pump_pool_prefix keys"
proof -
  have pk: "length (keys ! i) = 32" if "i < 5" for i using assms that by simp
  let ?d0 = "put_bytes (replicate 243 0) 0 PUMP_POOL_DISCRIMINATOR"
  have d0: "length ?d0 = 243" "slice ?d0 0 8 = Some PUMP_POOL_DISCRIMINATOR"
    using slice_put_bytes(1) [of 0 PUMP_POOL_DISCRIMINATOR "replicate 243 0" 8]
    by (simp_all add: length_put_bytes PUMP_POOL_DISCRIMINATOR_def)
  obtain d1 where d1: "put_pubkey ?d0 43 (keys ! 0) = Ok d1" "length d1 = 243"
      "slice d1 43 32 = Some (keys ! 0)" "slice d1 0 8 = slice ?d0 0 8"
    using put_pubkey_Ok [of 43 ?d0 "keys ! 0"] d0(1) pk by auto
  obtain d2 where d2: "put_pubkey d1 75 (keys ! 1) = Ok d2" "length d2 = 243"
      "slice d2 75 32 = Some (keys ! 1)" "\<forall>o' n. o' + n \<le> 75 \<longrightarrow> slice d2 o' n = slice d1 o' n"
    using put_pubkey_Ok [of 75 d1 "keys ! 1"] d1(2) pk by auto
  obtain d3 where d3: "put_pubkey d2 139 (keys ! 2) = Ok d3" "length d3 = 243"
      "slice d3 139 32 = Some (keys ! 2)" "\<forall>o' n. o' + n \<le> 139 \<longrightarrow> slice d3 o' n = slice d2 o' n"
    using put_pubkey_Ok [of 139 d2 "keys ! 2"] d2(2) pk by auto
  obtain d4 where d4: "put_pubkey d3 171 (keys ! 3) = Ok d4" "length d4 = 243"
      "slice d4 171 32 = Some (keys ! 3)" "\<forall>o' n. o' + n \<le> 171 \<longrightarrow> slice d4 o' n = slice d3 o' n"
    using put_pubkey_Ok [of 171 d3 "keys ! 3"] d3(2) pk by auto
  obtain d5 where d5: "put_pubkey d4 211 (keys ! 4) = Ok d5" "length d5 = 243"
      "slice d5 211 32 = Some (keys ! 4)" "\<forall>o' n. o' + n \<le> 211 \<longrightarrow> slice d5 o' n = slice d4 o' n"
    using put_pubkey_Ok [of 211 d4 "keys ! 4"] d4(2) pk by auto
  show ?thesis
    by (simp add: test_parses_pump_pool_prefix_def d0 d1 d2 d3 d4 d5 parse_pump_pool_prefix_def
        check_discriminator_def read_pubkey_def require_def Let_def del: One_nat_def)
qed

definition test_parses_cashback_flag :: bool where
  "test_parses_cashback_flag \<longleftrightarrow>
    (let data = put_bytes (replicate 245 0) 0 PUMP_POOL_DISCRIMINATOR in
     unwraps (parse_pump_pool_prefix (data[244 := 1])) prefix_is_cashback_coin \<and>
     is_err (parse_pump_pool_prefix (data[244 := 2])))"

lemma parses_cashback_flag: test_parses_cashback_flag
  by (simp add: test_parses_cashback_flag_def put_bytes_def PUMP_POOL_DISCRIMINATOR_def
      parse_pump_pool_prefix_def check_discriminator_def read_pubkey_def slice_def require_def nth_list_update Let_def)

definition test_rejects_bad_discriminator :: bool where
  "test_rejects_bad_discriminator \<longleftrightarrow>
    is_err (parse_pump_pool_prefix []) \<and> is_err (parse_meteora_pair (replicate 216 0))"

lemma rejects_bad_discriminator: test_rejects_bad_discriminator
proof -
  have "hd (replicate 8 0) \<noteq> hd METEORA_LB_PAIR_DISCRIMINATOR"
    unfolding METEORA_LB_PAIR_DISCRIMINATOR_def by simp
  then have "replicate 8 0 \<noteq> METEORA_LB_PAIR_DISCRIMINATOR" by metis
  then show ?thesis
    by (simp add: test_rejects_bad_discriminator_def parse_pump_pool_prefix_def parse_meteora_pair_def
        check_discriminator_def slice_def require_def)
qed

definition test_validates_bin_array_membership :: "pubkey \<Rightarrow> pubkey \<Rightarrow> bool" where
  "test_validates_bin_array_membership pair other \<longleftrightarrow>
    unwraps (put_pubkey (put_bytes (replicate 56 0) 0 METEORA_BIN_ARRAY_DISCRIMINATOR) 24 pair) (\<lambda>data.
      is_ok (validate_bin_array_data data pair) \<and> is_err (validate_bin_array_data data other))"

lemma validates_bin_array_membership:
  assumes "length pair = 32" "other \<noteq> pair"
  shows "test_validates_bin_array_membership pair other"
proof -
  let ?d = "put_bytes (replicate 56 0) 0 METEORA_BIN_ARRAY_DISCRIMINATOR"
  have d: "length ?d = 56" "slice ?d 0 8 = Some METEORA_BIN_ARRAY_DISCRIMINATOR"
    using slice_put_bytes(1) [of 0 METEORA_BIN_ARRAY_DISCRIMINATOR "replicate 56 0" 8]
    by (simp_all add: length_put_bytes METEORA_BIN_ARRAY_DISCRIMINATOR_def)
  then obtain e where "put_pubkey ?d 24 pair = Ok e" "length e = 56" "slice e 24 32 = Some pair"
      "slice e 0 8 = slice ?d 0 8"
    using put_pubkey_Ok [of 24 ?d pair] assms(1) by auto
  with d assms show ?thesis
    by (simp add: test_validates_bin_array_membership_def validate_bin_array_data_def read_pubkey_def
        require_def)
qed

definition test_validates_remaining_account_group_size :: bool where
  "test_validates_remaining_account_group_size \<longleftrightarrow>
    is_err (validate_bin_array_count 0) \<and> is_ok (validate_bin_array_count 1) \<and>
    is_err (validate_bin_array_count (MAX_METEORA_BIN_ARRAYS + 1))"

lemma validates_remaining_account_group_size: test_validates_remaining_account_group_size
  by (simp add: test_validates_remaining_account_group_size_def validate_bin_array_count_def
      MAX_METEORA_BIN_ARRAYS_def require_def)

definition test_validates_user_token_mint_and_owner :: "pubkey \<Rightarrow> pubkey \<Rightarrow> pubkey \<Rightarrow> pubkey \<Rightarrow> bool" where
  "test_validates_user_token_mint_and_owner owner mint other1 other2 \<longleftrightarrow>
    is_ok (validate_user_token_fields owner mint owner mint) \<and>
    is_err (validate_user_token_fields other1 mint owner mint) \<and>
    is_err (validate_user_token_fields owner other2 owner mint)"

lemma validates_user_token_mint_and_owner:
  "distinct [owner, mint, other1, other2] \<Longrightarrow>
    test_validates_user_token_mint_and_owner owner mint other1 other2"
  by (auto simp: test_validates_user_token_mint_and_owner_def validate_user_token_fields_def
      require_def)

section \<open>Balances and token programs\<close>

definition test_returns_positive_delta :: bool where
  "test_returns_positive_delta \<longleftrightarrow> unwraps (checked_increase 10 17) (\<lambda>delta. delta = 7)"

definition test_rejects_equal_or_lower_balance :: bool where
  "test_rejects_equal_or_lower_balance \<longleftrightarrow>
    is_err (checked_increase 10 10) \<and> is_err (checked_increase 10 9)"

definition test_handles_u64_boundary :: bool where
  "test_handles_u64_boundary \<longleftrightarrow> unwraps (checked_increase (- 1 - 1) (- 1)) (\<lambda>delta. delta = 1)"

lemma balance_tests:
  test_returns_positive_delta test_rejects_equal_or_lower_balance test_handles_u64_boundary
  by (simp_all add: test_returns_positive_delta_def test_rejects_equal_or_lower_balance_def
      test_handles_u64_boundary_def checked_increase_def checked_sub_def require_def)

definition test_recognizes_only_the_two_supported_token_programs :: "env \<Rightarrow> pubkey \<Rightarrow> bool" where
  "test_recognizes_only_the_two_supported_token_programs env other \<longleftrightarrow>
    is_supported_token_program env (env_token_program env) \<and>
    is_supported_token_program env (env_token_2022_program env) \<and>
    \<not> is_supported_token_program env other"

lemma recognizes_only_the_two_supported_token_programs:
  "other \<noteq> env_token_program env \<Longrightarrow> other \<noteq> env_token_2022_program env \<Longrightarrow>
    test_recognizes_only_the_two_supported_token_programs env other"
  by (simp add: test_recognizes_only_the_two_supported_token_programs_def is_supported_token_program_def)

text \<open>The four other extensions of the test are arguments, since the model names an extension that is
  not on the list by its number.\<close>

definition test_extension_allowlist_is_narrow :: "nat list \<Rightarrow> bool" where
  "test_extension_allowlist_is_narrow others \<longleftrightarrow>
    list_all (\<lambda>extension. extension = MetadataPointer \<or> extension = TokenMetadata)
      [MetadataPointer, TokenMetadata] \<and>
    list_all (\<lambda>extension. \<not> (extension = MetadataPointer \<or> extension = TokenMetadata))
      (map OtherExtension others)"

lemma extension_allowlist_is_narrow: "test_extension_allowlist_is_narrow others"
  by (simp add: test_extension_allowlist_is_narrow_def list_all_iff)

section \<open>Events and the Meteora payload\<close>

definition test_route_directions_are_distinct :: bool where
  "test_route_directions_are_distinct \<longleftrightarrow> PumpToMeteora \<noteq> MeteoraToPump"

lemma route_directions_are_distinct: test_route_directions_are_distinct
  by (simp add: test_route_directions_are_distinct_def)

definition test_legacy_swap2_encoding_is_stable :: bool where
  "test_legacy_swap2_encoding_is_stable \<longleftrightarrow>
    word_to_le (2 :: u32) @ [0, 0, 1, 0] = [2, 0, 0, 0, 0, 0, 1, 0]"

lemma legacy_swap2_encoding_is_stable: test_legacy_swap2_encoding_is_stable
proof -
  have four: "(4 :: nat) = Suc (Suc (Suc (Suc 0)))" by simp
  have "le_bytes 4 2 = [2, 0, 0, 0]" unfolding four by simp
  then show ?thesis by (simp add: test_legacy_swap2_encoding_is_stable_def word_to_le_def)
qed

section \<open>The checks around a route\<close>

definition test_validates_dynamic_inputs :: bool where
  "test_validates_dynamic_inputs \<longleftrightarrow>
    is_ok (validate_args 10000000 10000) \<and> is_err (validate_args 0 10000) \<and>
    is_err (validate_args 10000000 0)"

definition test_derives_second_leg_output :: bool where
  "test_derives_second_leg_output \<longleftrightarrow>
    unwraps (required_second_leg_out 20000000 10000000 10000) (\<lambda>required. required = 10010000)"

definition test_enforces_profit_and_target_restoration :: bool where
  "test_enforces_profit_and_target_restoration \<longleftrightarrow>
    is_ok (enforce 10000 10100 100 50 50) \<and> is_err (enforce 10000 10099 100 50 50) \<and>
    is_err (enforce 10000 10100 100 50 51)"

lemma post_trade_tests:
  test_validates_dynamic_inputs test_derives_second_leg_output
  test_enforces_profit_and_target_restoration
  by (simp_all add: test_validates_dynamic_inputs_def test_derives_second_leg_output_def
      test_enforces_profit_and_target_restoration_def validate_args_def required_second_leg_out_def
      enforce_def eval_defs)

section \<open>Choosing a direction\<close>

definition test_chooses_larger_route_and_breaks_ties_forward :: bool where
  "test_chooses_larger_route_and_breaks_ties_forward \<longleftrightarrow>
    unwraps (choose_direction (Some 1020) (Some 1010) 1001) (\<lambda>direction. direction = PumpToMeteora) \<and>
    unwraps (choose_direction (Some 1010) (Some 1020) 1001) (\<lambda>direction. direction = MeteoraToPump) \<and>
    unwraps (choose_direction (Some 1010) (Some 1010) 1001) (\<lambda>direction. direction = PumpToMeteora)"

definition test_rejects_when_neither_meets_profit_floor :: bool where
  "test_rejects_when_neither_meets_profit_floor \<longleftrightarrow>
    is_err (choose_direction (Some 1000) (Some 1001) 1002)"

definition test_selects_forward_when_only_forward_complete :: bool where
  "test_selects_forward_when_only_forward_complete \<longleftrightarrow>
    unwraps (choose_direction (Some 1010) None 1001) (\<lambda>direction. direction = PumpToMeteora)"

definition test_selects_reverse_when_only_reverse_complete :: bool where
  "test_selects_reverse_when_only_reverse_complete \<longleftrightarrow>
    unwraps (choose_direction None (Some 1010) 1001) (\<lambda>direction. direction = MeteoraToPump)"

text \<open>The last two tests look for the message of the error, which its variant determines.\<close>

definition test_rejects_as_incomplete_only_when_both_are :: bool where
  "test_rejects_as_incomplete_only_when_both_are \<longleftrightarrow>
    unwraps_err (choose_direction None None 1001) (\<lambda>error. error = Arb BestDirectionQuoteIncomplete)"

definition test_complete_but_unprofitable_route_is_not_selected :: bool where
  "test_complete_but_unprofitable_route_is_not_selected \<longleftrightarrow>
    unwraps_err (choose_direction (Some 1000) None 1001) (\<lambda>error. error = Arb NoProfitableDirection)"

lemma chooses_larger_route_and_breaks_ties_forward: test_chooses_larger_route_and_breaks_ties_forward
  by (simp add: test_chooses_larger_route_and_breaks_ties_forward_def choose_direction_def require_def Let_def cong: test_cong)

lemma rejects_when_neither_meets_profit_floor: test_rejects_when_neither_meets_profit_floor
  by (simp add: test_rejects_when_neither_meets_profit_floor_def choose_direction_def require_def Let_def cong: test_cong)

lemma selects_forward_when_only_forward_complete: test_selects_forward_when_only_forward_complete
  by (simp add: test_selects_forward_when_only_forward_complete_def choose_direction_def require_def Let_def cong: test_cong)

lemma selects_reverse_when_only_reverse_complete: test_selects_reverse_when_only_reverse_complete
  by (simp add: test_selects_reverse_when_only_reverse_complete_def choose_direction_def require_def Let_def cong: test_cong)

lemma rejects_as_incomplete_only_when_both_are: test_rejects_as_incomplete_only_when_both_are
  by (simp add: test_rejects_as_incomplete_only_when_both_are_def choose_direction_def require_def Let_def cong: test_cong)

lemma complete_but_unprofitable_route_is_not_selected: test_complete_but_unprofitable_route_is_not_selected
  by (simp add: test_complete_but_unprofitable_route_is_not_selected_def choose_direction_def require_def Let_def cong: test_cong)

end
