(* ===== verification/Dynamic_Tests.thy ===== *)
theory Dynamic_Tests
  imports Pump_Boundary Dynamic_Amount Test_Harness
begin

text \<open>
  The unit tests of \<^verbatim>\<open>instructions/dynamic_amount.rs\<close>, each with the lemma that the model passes it.  The
  two tests of the Pump boundary search up to 80 amounts for each of 40 boundaries; they hold by
  \<open>exact_search_near_boundary\<close>, which needs only that each boundary has an input.
\<close>

section \<open>The helpers of the tests\<close>

definition test_segment :: "u64 \<Rightarrow> u64 \<Rightarrow> u64 \<Rightarrow> u64 \<Rightarrow> dlmm_segment" where
  "test_segment start_in end_in start_out end_out =
    \<lparr>input_start = start_in, input_end = end_in, output_start = start_out, output_end = end_out,
     segment_price_q64 = push_bit 64 1, segment_fee_rate = 0, segment_swap_for_y = True,
     segment_fee_on_input = True, segment_used_indices = [0, 0], segment_used_len = 1\<rparr>"

definition test_context :: "u64 \<Rightarrow> u64 \<Rightarrow> u64 \<Rightarrow> evaluation_context" where
  "test_context min_amount min_profit largest =
    \<lparr>ctx_min_amount = min_amount, ctx_min_profit = min_profit, ctx_largest_complete = largest,
     ctx_visited_bins = 1, ctx_boundary_candidates = 0, ctx_interior_candidates = 0,
     ctx_stop = InputLimitReached\<rparr>"

definition test_search :: "bool \<Rightarrow> direction_choice option \<Rightarrow> direction_search" where
  "test_search seen choice =
    \<lparr>best = choice, complete_seen = seen, minimum_quote_complete = seen,
     minimum_amount_out = (if seen then 6 else 0), largest_complete = (if seen then 5 else 4),
     boundary_candidates = 0, interior_candidates = 0, search_visited_bins = 1,
     search_stop = (if seen then InputLimitReached else MissingBinArray)\<rparr>"

definition profitable_choice :: "u64 \<Rightarrow> direction_choice" where
  "profitable_choice profit =
    \<lparr>choice_amount_in = 5, choice_amount_out = 5 + profit, choice_profit = profit,
     choice_used_indices = [0, 0], choice_used_len = 1\<rparr>"

lemmas test_defs =
  test_segment_def test_context_def test_search_def profitable_choice_def

section \<open>Arguments and decisions\<close>

definition test_validates_dynamic_range :: bool where
  "test_validates_dynamic_range \<longleftrightarrow>
    is_ok (validate_dynamic_args \<lparr>min_wsol_amount_in = 5, max_wsol_amount_in = 25,
      dynamic_min_profit_lamports = 1\<rparr>) \<and>
    list_all (\<lambda>args. is_err (validate_dynamic_args args))
      [\<lparr>min_wsol_amount_in = 0, max_wsol_amount_in = 25, dynamic_min_profit_lamports = 1\<rparr>,
       \<lparr>min_wsol_amount_in = 26, max_wsol_amount_in = 25, dynamic_min_profit_lamports = 1\<rparr>,
       \<lparr>min_wsol_amount_in = 5, max_wsol_amount_in = 25, dynamic_min_profit_lamports = 0\<rparr>]"

lemma validates_dynamic_range: test_validates_dynamic_range
  by (simp add: test_validates_dynamic_range_def validate_dynamic_args_def require_def)

definition test_no_choice_is_no_profit :: bool where
  "test_no_choice_is_no_profit \<longleftrightarrow>
    decide_dynamic_search (test_search True None) (test_search True None) = NoProfit \<and>
    decide_dynamic_search (test_search False None) (test_search True None) = QuoteIncomplete \<and>
    decide_dynamic_search (test_search True None) (test_search False None) = QuoteIncomplete \<and>
    decide_dynamic_search ((test_search True None) \<lparr>minimum_quote_complete := False\<rparr>)
      (test_search True None) = QuoteIncomplete"

lemma no_choice_is_no_profit: test_no_choice_is_no_profit
  by (simp add: test_no_choice_is_no_profit_def decide_dynamic_search_def test_defs)

definition test_full_search_expands_positive_spread :: bool where
  "test_full_search_expands_positive_spread \<longleftrightarrow>
    (let positive = test_search True None; flat = (test_search True None) \<lparr>minimum_amount_out := 5\<rparr>;
         incomplete = test_search False None in
     directions_to_expand positive flat 5 25 = (True, False) \<and>
     directions_to_expand flat positive 5 25 = (False, True) \<and>
     directions_to_expand incomplete positive 5 25 = (False, True) \<and>
     directions_to_expand positive positive 5 5 = (False, False))"

lemma full_search_expands_positive_spread: test_full_search_expands_positive_spread
  by (simp add: test_full_search_expands_positive_spread_def directions_to_expand_def test_defs)

definition test_profitable_direction_survives :: bool where
  "test_profitable_direction_survives \<longleftrightarrow>
    (let choice = profitable_choice 2 in
     decide_dynamic_search (test_search True (Some choice)) (test_search False None)
       = Selected PumpToMeteora choice \<and>
     decide_dynamic_search (test_search False None) (test_search True (Some choice))
       = Selected MeteoraToPump choice)"

lemma profitable_direction_survives: test_profitable_direction_survives
  by (simp add: test_profitable_direction_survives_def decide_dynamic_search_def test_defs)

section \<open>Normalised numbers\<close>

lemma bit_length_code:
  "bit_length 0 = 0" "bit_length (Suc 0) = 1"
  "bit_length (numeral (Num.Bit0 n)) = Suc (bit_length (numeral n))"
  "bit_length (numeral (Num.Bit1 n)) = Suc (bit_length (numeral n))"
proof -
  note unfold = bit_length.simps
  show zero: "bit_length 0 = 0" by (subst unfold) simp
  then show "bit_length (Suc 0) = 1" by (subst unfold) simp
  show "bit_length (numeral (Num.Bit0 n)) = Suc (bit_length (numeral n))" by (subst unfold) simp
  show "bit_length (numeral (Num.Bit1 n)) = Suc (bit_length (numeral n))" by (subst unfold) simp
qed

lemmas number_defs =
  from_u128_def multiply_def divide_by_def leading_zeros_def bit_length_code normalized_product_ratio_def
  integer_sqrt_def newton_sqrt.simps ceil_nat_def sqrt_floor_def checked_shl_def shr_or_panic_def
  normalized_square_def compare_to_def INTERIOR_ROOT_PREFILTER_MARGIN_def
  sqrt_interval_definitely_excludes_def

definition sqrt_product_ratio :: "u128 list \<Rightarrow> u128 list \<Rightarrow> u128 maybe" where
  "sqrt_product_ratio numerators denominators =
    and_then (normalized_product_ratio numerators denominators) sqrt_floor"

definition abs_diff :: "u128 \<Rightarrow> u128 \<Rightarrow> u128" where
  "abs_diff a b = (if a < b then b - a else a - b)"

definition test_normalized_square_root :: bool where
  "test_normalized_square_root \<longleftrightarrow>
    unwraps (sqrt_product_ratio [1000000000000, 10000000000, 1000000000] [1000000]) (\<lambda>root.
    unwraps (integer_sqrt 10000000000000000000000000) (\<lambda>expected. abs_diff root expected \<le> 2))"

definition test_interior_root_prefilter :: bool where
  "test_interior_root_prefilter \<longleftrightarrow>
    unwraps (normalized_product_ratio [10000] [1]) (\<lambda>squared.
      unwraps (sqrt_interval_definitely_excludes squared 99 101) (\<lambda>excluded. \<not> excluded) \<and>
      unwraps (sqrt_interval_definitely_excludes squared 100 100) (\<lambda>excluded. \<not> excluded) \<and>
      unwraps (sqrt_interval_definitely_excludes squared 200 300) (\<lambda>excluded. excluded) \<and>
      unwraps (sqrt_interval_definitely_excludes squared 1 50) (\<lambda>excluded. excluded))"

lemma normalized_square_root: test_normalized_square_root
  by (simp add: test_normalized_square_root_def sqrt_product_ratio_def abs_diff_def number_defs eval_defs
      cong: test_cong)

lemma interior_root_prefilter: test_interior_root_prefilter
  by (simp add: test_interior_root_prefilter_def number_defs eval_defs cong: test_cong)

section \<open>Evaluating candidates\<close>

definition test_candidate_selection :: bool where
  "test_candidate_selection \<longleftrightarrow>
    (let ctx = (test_context 5 1 20) \<lparr>ctx_boundary_candidates := 2, ctx_interior_candidates := 1\<rparr>;
         evaluate = (\<lambda>amount.
           and_then (if amount = 5 then Ok 7 else if amount = 10 then Ok 15
             else if amount = 20 then Ok 25 else Panic) (\<lambda>amount_out.
           Ok \<lparr>cq_amount_out = amount_out, cq_used_indices = [0, 0], cq_used_len = 1\<rparr>)) in
     unwraps (evaluate_candidates [5, 10, 20] ctx evaluate :: (unit, _) result) (\<lambda>search.
       case best search of Some choice \<Rightarrow> choice_amount_in choice = 10 | None \<Rightarrow> False))"

lemma candidate_selection: test_candidate_selection
  by (simp add: test_candidate_selection_def evaluate_candidates_def consider_quote_def
      better_choice_def checked_sub_def test_defs)

definition test_incomplete_larger_candidate :: bool where
  "test_incomplete_larger_candidate \<longleftrightarrow>
    (let ctx = (test_context 5 1 10) \<lparr>ctx_boundary_candidates := 1, ctx_stop := MissingBinArray\<rparr>;
         evaluate = (\<lambda>amount. if 10 < amount then Err InsufficientLiquidity
           else and_then (add_or_panic amount 2) (\<lambda>amount_out.
             Ok \<lparr>cq_amount_out = amount_out, cq_used_indices = [0, 0], cq_used_len = 1\<rparr>)) in
     unwraps (evaluate_candidates [5, 10, 20] ctx evaluate :: (unit, _) result) (\<lambda>search.
       complete_seen search \<and>
       (case best search of Some choice \<Rightarrow> choice_amount_in choice = 5 | None \<Rightarrow> False)))"

lemma incomplete_larger_candidate: test_incomplete_larger_candidate
  by (simp add: test_incomplete_larger_candidate_def evaluate_candidates_def consider_quote_def
      better_choice_def test_defs eval_defs)

definition test_never_selects_below_minimum :: bool where
  "test_never_selects_below_minimum \<longleftrightarrow>
    (let evaluate = (\<lambda>amount. and_then (add_or_panic amount 2) (\<lambda>amount_out.
           Ok \<lparr>cq_amount_out = amount_out, cq_used_indices = [0, 0], cq_used_len = 1\<rparr>)) in
     unwraps (evaluate_candidates [4, 5, 10] (test_context 5 1 10) evaluate :: (unit, _) result)
       (\<lambda>search. complete_seen search \<and>
         (case best search of Some choice \<Rightarrow> choice_amount_in choice = 5 | None \<Rightarrow> False)))"

lemma never_selects_below_minimum: test_never_selects_below_minimum
  by (simp add: test_never_selects_below_minimum_def evaluate_candidates_def consider_quote_def
      better_choice_def test_defs eval_defs)

section \<open>Curves\<close>

definition test_minimum_probe_is_exact :: bool where
  "test_minimum_probe_is_exact \<longleftrightarrow>
    unwraps (curve_push curve_new (test_segment 0 10 0 20)) (\<lambda>curve.
    let curve = curve \<lparr>curve_visited_bins := 1, curve_stop := InputLimitReached\<rparr>;
        bounds = \<lparr>bounds_min_amount = 5, bounds_max_amount = 5, bounds_min_profit = 1\<rparr> in
    unwraps (probe_minimum curve bounds 5
      (Ok \<lparr>cq_amount_out = 7, cq_used_indices = [0, 0], cq_used_len = 1\<rparr>)) (\<lambda>search.
      minimum_quote_complete search \<and> boundary_candidates search = 0 \<and>
      interior_candidates search = 0 \<and>
      (case best search of Some choice \<Rightarrow> choice_amount_in choice = 5 | None \<Rightarrow> False)))"

lemma minimum_probe_is_exact: test_minimum_probe_is_exact
  by (simp add: test_minimum_probe_is_exact_def probe_minimum_def test_defs eval_defs cong: test_cong)

text \<open>Curves built by \<open>push\<close>, as the list of their segments.\<close>

lemma push_segment:
  assumes "curve_ok curve" "length (in_use curve) < 16"
  shows "\<exists>pushed. curve_push curve s = Ok pushed \<and> curve_ok pushed \<and> in_use pushed = in_use curve @ [s]"
proof -
  have "curve_len curve < length (segments curve)" using assms by (simp add: curve_ok_def in_use_def)
  then obtain pushed where "curve_push curve s = Ok pushed" by (simp add: curve_push_def require_def)
  with curve_push_Ok [OF assms(1)] show ?thesis by blast
qed

lemma curve_updates [simp]:
  "in_use (c \<lparr>curve_visited_bins := v\<rparr>) = in_use c" "curve_ok (c \<lparr>curve_visited_bins := v\<rparr>) = curve_ok c"
  "in_use (c \<lparr>curve_stop := r\<rparr>) = in_use c" "curve_ok (c \<lparr>curve_stop := r\<rparr>) = curve_ok c"
  by (simp_all add: in_use_def curve_ok_def)

lemma as_slice_updates [simp]:
  "as_slice (c \<lparr>curve_visited_bins := v\<rparr>) = as_slice c" "as_slice (c \<lparr>curve_stop := r\<rparr>) = as_slice c"
  by (simp_all add: as_slice_def)

lemma segments_pushed:
  "\<exists>c. curve_push curve_new s = Ok c \<and> curve_ok c \<and> in_use c = [s]"
  using push_segment [OF curve_new_ok(1), of s] by (simp add: curve_new_ok(2))

definition test_curve_quotes_inside_a_segment :: bool where
  "test_curve_quotes_inside_a_segment \<longleftrightarrow>
    unwraps (curve_push curve_new (test_segment 0 1000 0 1000)) (\<lambda>curve.
    unwraps (curve_push curve (test_segment 1000 2000 1000 2000)) (\<lambda>curve.
    unwraps (curve_push curve (test_segment 2000 3000 2000 3000)) (\<lambda>curve.
    let curve = curve \<lparr>curve_visited_bins := 1\<rparr> in
    unwraps (curve_quote_at curve 250) (\<lambda>quote. cq_amount_out quote = 250) \<and>
    unwraps (curve_quote_at curve 1000) (\<lambda>quote. cq_amount_out quote = 1000) \<and>
    unwraps (curve_quote_at curve 1001) (\<lambda>quote. cq_amount_out quote = 1001) \<and>
    unwraps (curve_quote_at curve 2999) (\<lambda>quote. cq_amount_out quote = 2999) \<and>
    is_err (curve_quote_at curve 3001))))"

lemma three_segments_searched:
  defines "ss \<equiv> [test_segment 0 1000 0 1000, test_segment 1000 2000 1000 2000, test_segment 2000 3000 2000 3000]"
  shows "search_segment ss 250 0 (length ss) = Ok 0" "search_segment ss 1000 0 (length ss) = Ok 0"
    "search_segment ss 1001 0 (length ss) = Ok 1" "search_segment ss 2999 0 (length ss) = Ok 2"
    "search_segment ss 3001 0 (length ss) = Ok 3"
  by (simp_all add: ss_def search_segment.simps test_segment_def eval_defs cong: test_cong)

lemma curve_quotes_inside_a_segment: test_curve_quotes_inside_a_segment
proof -
  let ?s1 = "test_segment 0 1000 0 1000" and ?s2 = "test_segment 1000 2000 1000 2000" and
    ?s3 = "test_segment 2000 3000 2000 3000"
  obtain c1 where c1: "curve_push curve_new ?s1 = Ok c1" "curve_ok c1" "in_use c1 = [?s1]"
    using segments_pushed by blast
  obtain c2 where c2: "curve_push c1 ?s2 = Ok c2" "curve_ok c2" "in_use c2 = [?s1, ?s2]"
    using push_segment [OF c1(2), of ?s2] c1(3) by auto
  obtain c3 where c3: "curve_push c2 ?s3 = Ok c3" "curve_ok c3" "in_use c3 = [?s1, ?s2, ?s3]"
    using push_segment [OF c2(2), of ?s3] c2(3) by auto
  show ?thesis
    unfolding test_curve_quotes_inside_a_segment_def c1(1) c2(1) c3(1) unwraps.simps Let_def
      curve_quote_at_def as_slice_updates as_slice_in_use [OF c3(2)] c3(3) and_then.simps
      three_segments_searched
    by (simp add: test_segment_def eval_defs cong: test_cong)
qed

section \<open>Coverage of the reverse search\<close>

definition test_reverse_coverage_below_minimum :: bool where
  "test_reverse_coverage_below_minimum \<longleftrightarrow>
    unwraps (curve_push curve_new (test_segment 0 4 0 8)) (\<lambda>curve.
    let curve = curve \<lparr>curve_visited_bins := 1, curve_stop := MissingBinArray\<rparr> in
    unwraps (search_reverse test_market curve 5 25 1 :: (unit, _) result) (\<lambda>search.
      \<not> complete_seen search \<and> \<not> minimum_quote_complete search \<and> best search = None \<and>
      largest_complete search = 4 \<and> search_stop search = MissingBinArray))"

lemma reverse_coverage_below_minimum: test_reverse_coverage_below_minimum
  by (simp add: test_reverse_coverage_below_minimum_def search_reverse_def incomplete_direction_def
      test_defs first_written MAX_QUOTE_VISITED_BINS_PER_DIRECTION_def eval_defs cong: test_cong)

definition test_reverse_coverage_equal_to_minimum :: bool where
  "test_reverse_coverage_equal_to_minimum \<longleftrightarrow>
    unwraps (curve_push curve_new (test_segment 0 5 0 10)) (\<lambda>curve.
    let curve = curve \<lparr>curve_visited_bins := 1, curve_stop := MissingBinArray\<rparr> in
    unwraps (search_reverse test_market curve 5 25 1 :: (unit, _) result) (\<lambda>search.
      complete_seen search \<and> minimum_quote_complete search \<and> largest_complete search = 5))"

lemma test_segment_ends [simp]:
  "input_start (test_segment a b c d) = a" "input_end (test_segment a b c d) = b"
  "output_start (test_segment a b c d) = c" "output_end (test_segment a b c d) = d"
  by (simp_all add: test_segment_def)

lemma reverse_interior:
  "reverse_interior_candidate test_market (test_segment 0 5 0 10) = Err ()"
  by (simp add: reverse_interior_candidate_def number_defs test_market_def test_segment_def eval_defs
      cong: test_cong)

lemma pushed_once:
  "amount \<noteq> 0 \<Longrightarrow> candidate_slice (push_unique amount candidates_new) = [amount]"
  "push_unique amount (push_unique amount candidates_new) = push_unique amount candidates_new"
proof -
  show one: "candidate_slice (push_unique amount candidates_new) = [amount]" if "amount \<noteq> 0" for amount
    using that by (simp add: candidate_slice_def push_unique_def candidates_new_def MAX_DYNAMIC_CANDIDATES_def
      MAX_QUOTE_VISITED_BINS_PER_DIRECTION_def first_written)
  show "push_unique amount (push_unique amount candidates_new) = push_unique amount candidates_new"
    using one [of amount]
    by (cases "amount = 0") (simp_all add: push_unique_def [of _ "push_unique _ _"] push_unique_def [of 0])
qed

lemma reverse_five:
  assumes "curve_ok c" "in_use c = [test_segment 0 5 0 10]"
  shows "evaluate_reverse test_market c 5 = Ok \<lparr>cq_amount_out = 0, cq_used_indices = [0, 0], cq_used_len = 1\<rparr>"
  unfolding evaluate_reverse_def curve_quote_at_def as_slice_in_use [OF assms(1)] assms(2)
  by (simp add: search_segment.simps test_segment_def market_sell_def test_market_def eval_defs cong: test_cong)

lemma reverse_coverage_equal_to_minimum: test_reverse_coverage_equal_to_minimum
proof -
  obtain c where c: "curve_push curve_new (test_segment 0 5 0 10) = Ok c" "curve_ok c"
      "in_use c = [test_segment 0 5 0 10]"
    using segments_pushed by blast
  let ?c = "c \<lparr>curve_visited_bins := 1, curve_stop := MissingBinArray\<rparr>"
  have ok: "curve_ok ?c" "in_use ?c = [test_segment 0 5 0 10]" using c(2,3) by simp_all
  note slice = as_slice_in_use [OF ok(1)]
  show ?thesis
    unfolding test_reverse_coverage_equal_to_minimum_def c(1) unwraps.simps Let_def search_reverse_def
      largest_complete_input_def slice ok(2)
    by (simp add: reverse_segment_def add_boundary_def start_search_def pushed_once
        reverse_interior add_interior_def evaluate_search_def evaluate_candidates_def
        reverse_five [OF ok] consider_quote_def checked_sub_def Let_def)
qed

section \<open>The Pump boundary\<close>

definition boundary_close :: "market_state \<Rightarrow> u64 \<Rightarrow> bool" where
  "boundary_close m target \<longleftrightarrow>
    unwraps (pump_input_at_or_below_target_out m target) (\<lambda>conservative.
    unwraps (exact_pump_input_for_target_out m target :: u64 maybe) (\<lambda>exact.
    unwraps (pump_buy_amount_out m conservative) (\<lambda>output. output < target) \<and>
    conservative < exact \<and>
    unwraps (sub_or_panic exact conservative :: u64 maybe) (\<lambda>distance. distance \<le> 8)))"

text \<open>The two searches need not be run: it is enough that the boundary over the naturals is neither too
  small to be quoted nor too large to be doubled.\<close>

lemma boundary_closeI:
  assumes target: "0 < target" "target < pump_base_reserve m" and quote: "pump_quote_reserve m \<noteq> 0"
    and fees: "total_bps m \<le> 13333"
    and fits: "7 \<le> gross_boundary m (unat target)" "gross_boundary m (unat target) \<le> 2 ^ 62"
  shows "boundary_close m target"
proof -
  let ?f = "market_pump_fees m" and ?g = "gross_boundary m (unat target)"
  let ?c = "of_nat ?g :: u64"
  have c: "unat ?c = ?g" using fits(2) by (intro unat_of_nat_small) simp
  have "3 * (10000 + total_bps m) \<le> ?g * 10000" using fits(1) fees by simp
  then have "3 \<le> net_quote ?g (unat (lp_fee_bps ?f)) (unat (protocol_fee_bps ?f)) (unat (creator_fee_bps ?f))"
    by (simp add: net_quote_def less_eq_div_iff_mult_less_eq)
  moreover note fee_excess_le_2 [of ?g "unat (lp_fee_bps ?f)" "unat (protocol_fee_bps ?f)" "unat (creator_fee_bps ?f)"]
  moreover have "?c \<noteq> 0" using c fits(1) by (metis not_numeral_le_zero unat_0)
  ultimately have "\<exists>out. pump_buy_amount_out m ?c = Ok out"
    using c target quote by (auto simp: pump_buy_amount_out_def market_buy_def pump_buy_closed Let_def)
  with c target \<open>?c \<noteq> 0\<close> have boundary: "pump_input_at_or_below_target_out m target = Ok ?c"
    by (auto simp: pump_boundary_iff)
  obtain e where e: "(exact_pump_input_for_target_out m target :: u64 maybe) = Ok e"
      "unat ?c < unat e" "unat e \<le> unat ?c + 8"
    using exact_search_near_boundary [OF boundary fees] c fits(2) by auto
  obtain out where out: "pump_buy_amount_out m ?c = Ok out" using boundary by (auto simp: pump_boundary_iff)
  moreover have "out < target" using boundary_tight(1) [OF boundary, of ?c] out by (auto simp: target_reached_def)
  moreover have "unat (e - ?c) = unat e - unat ?c" using e(2) by (intro unat_sub_small) (simp add: word_le_nat_alt)
  moreover have "?c < e" using e(2) by (simp add: word_less_nat_alt)
  ultimately show ?thesis
    using boundary e unfolding boundary_close_def
    by (simp add: sub_or_panic_le word_le_nat_alt del: of_nat_unat)
qed

lemmas boundary_numbers = test_market_def gross_boundary_def curve_boundary_def ceil_nat_def

definition test_boundary_stays_below_transition :: bool where
  "test_boundary_stays_below_transition \<longleftrightarrow>
    list_all (boundary_close test_market) [1000, 5000000, 100000000, 10000000000]"

lemma boundary_stays_below_transition: test_boundary_stays_below_transition
  unfolding test_boundary_stays_below_transition_def
  by (simp, intro conjI boundary_closeI) (simp_all add: boundary_numbers)

definition variants_close :: "u64 \<Rightarrow> u64 \<Rightarrow> u64 \<Rightarrow> bool" where
  "variants_close base quote virtual_quote \<longleftrightarrow>
    list_all (\<lambda>(lp, protocol, creator).
      let m = test_market \<lparr>pump_base_reserve := base, pump_quote_reserve := quote,
            pump_virtual_quote_reserve := virtual_quote,
            market_pump_fees :=
              \<lparr>lp_fee_bps = lp, protocol_fee_bps = protocol, creator_fee_bps = creator\<rparr>\<rparr> in
      list_all (boundary_close m) [base div 1000000, base div 10000, base div 100, base div 4])
      [(0, 0, 0), (20, 5, 5), (100, 50, 50)]"

definition test_boundary_handles_variants :: bool where
  "test_boundary_handles_variants \<longleftrightarrow>
    list_all (\<lambda>(base, quote, virtual_quote). variants_close base quote virtual_quote)
      [(800000000000, 20000000000, 1000000000), (1000000000000, 10000000000, 0),
       (10000000000000, 500000000000, 50000000000)]"

lemma first_variants: "variants_close 800000000000 20000000000 1000000000"
  unfolding variants_close_def
  by (simp add: Let_def, intro conjI boundary_closeI) (simp_all add: boundary_numbers)

lemma second_variants: "variants_close 1000000000000 10000000000 0"
  unfolding variants_close_def
  by (simp add: Let_def, intro conjI boundary_closeI) (simp_all add: boundary_numbers)

lemma third_variants: "variants_close 10000000000000 500000000000 50000000000"
  unfolding variants_close_def
  by (simp add: Let_def, intro conjI boundary_closeI) (simp_all add: boundary_numbers)

lemma boundary_handles_variants: test_boundary_handles_variants
  by (simp add: test_boundary_handles_variants_def first_variants second_variants third_variants)

section \<open>Coverage of the forward search\<close>

definition test_forward_coverage_cap :: bool where
  "test_forward_coverage_cap \<longleftrightarrow>
    unwraps (curve_push curve_new (test_segment 0 5000000 0 5000000)) (\<lambda>curve.
    let curve = curve \<lparr>curve_visited_bins := 1\<rparr> in
    unwraps (largest_forward_complete_amount test_market curve 1000000 :: (unit, _) result) (\<lambda>largest.
      0 < largest \<and> largest < 1000000 \<and>
      unwraps (pump_buy_amount_out test_market largest) (\<lambda>output. output \<le> 5000000) \<and>
      unwraps (add_or_panic largest 1 :: u64 maybe) (\<lambda>more.
      unwraps (pump_buy_amount_out test_market more) (\<lambda>output. 5000000 < output))))"

definition test_forward_coverage_below_minimum :: bool where
  "test_forward_coverage_below_minimum \<longleftrightarrow>
    unwraps (curve_push curve_new (test_segment 0 5000000 0 5000000)) (\<lambda>curve.
    let curve = curve \<lparr>curve_visited_bins := 1, curve_stop := MissingBinArray\<rparr> in
    unwraps (largest_forward_complete_amount test_market curve 1000000 :: (unit, _) result) (\<lambda>largest.
    unwraps (add_or_panic largest 1 :: u64 maybe) (\<lambda>more.
    unwraps (search_forward test_market curve more 1000000 1 :: (unit, _) result) (\<lambda>search.
      \<not> complete_seen search \<and> \<not> minimum_quote_complete search \<and> best search = None \<and>
      largest_complete search = largest \<and> search_stop search = MissingBinArray))))"

definition test_forward_coverage_equal_to_minimum :: bool where
  "test_forward_coverage_equal_to_minimum \<longleftrightarrow>
    unwraps (curve_push curve_new (test_segment 0 5000000 0 5000000)) (\<lambda>curve.
    let curve = curve \<lparr>curve_visited_bins := 1, curve_stop := MissingBinArray\<rparr> in
    unwraps (largest_forward_complete_amount test_market curve 1000000 :: (unit, _) result) (\<lambda>largest.
    unwraps (search_forward test_market curve largest 1000000 1 :: (unit, _) result) (\<lambda>search.
      complete_seen search \<and> minimum_quote_complete search \<and> largest_complete search = largest)))"

lemma forward_quotes:
  assumes "curve_ok c" "in_use c = [test_segment 0 5000000 0 5000000]"
  shows "evaluate_forward test_market c 1000000 = Err InsufficientLiquidity"
    and "evaluate_forward test_market c 55168
      = Ok \<lparr>cq_amount_out = 4999975, cq_used_indices = [0, 0], cq_used_len = 1\<rparr>"
  unfolding evaluate_forward_def curve_quote_at_def as_slice_in_use [OF assms(1)] assms(2)
  by (simp_all add: search_segment.simps test_segment_def test_market_def eval_defs cong: test_cong)

lemma forward_boundary: "pump_input_at_or_below_target_out test_market 5000000 = Ok 55166"
  by (simp add: test_market_def eval_defs cong: test_cong)

lemma forward_interior:
  "forward_interior_candidate test_market (test_segment 0 5000000 0 5000000) 1 55166 = Err ()"
  by (simp add: forward_interior_candidate_def number_defs test_market_def test_segment_def eval_defs
      cong: test_cong)

lemma largest_within_step:
  "lower < upper \<Longrightarrow> largest_within m capacity lower upper =
     and_then (sub_or_panic upper lower) (\<lambda>gap.
     and_then (add_or_panic lower (of_nat (ceil_nat (unat gap) 2))) (\<lambda>midpoint.
     and_then (buys_within m capacity midpoint) (\<lambda>fits.
     if fits then largest_within m capacity midpoint upper
     else and_then (sub_or_panic midpoint 1) (largest_within m capacity lower))))"
  "\<not> lower < upper \<Longrightarrow> largest_within m capacity lower upper = Ok lower"
  by (subst largest_within.simps, simp)+

text \<open>Twenty rounds of the binary search.\<close>

lemma forward_within: "(largest_within test_market 5000000 0 1000000 :: ('e, u64) result) = Ok 55168"
  by (simp add: largest_within_step buys_within_def ceil_nat_def test_market_def eval_defs cong: test_cong)

lemma forward_largest:
  assumes "curve_ok c" "in_use c = [test_segment 0 5000000 0 5000000]"
  shows "(largest_forward_complete_amount test_market c 1000000 :: ('e, u64) result) = Ok 55168"
  using assms(2)
  by (simp add: largest_forward_complete_amount_def forward_quotes [OF assms] largest_complete_input_def
      as_slice_in_use [OF assms(1)] forward_within)

lemma forward_curve:
  obtains c where "curve_push curve_new (test_segment 0 5000000 0 5000000) = Ok c" "curve_ok c"
    "in_use c = [test_segment 0 5000000 0 5000000]"
  using segments_pushed by blast

lemma forward_coverage_cap: test_forward_coverage_cap
proof -
  obtain c where c: "curve_push curve_new (test_segment 0 5000000 0 5000000) = Ok c" "curve_ok c"
      "in_use c = [test_segment 0 5000000 0 5000000]"
    by (rule forward_curve)
  have "curve_ok (c \<lparr>curve_visited_bins := 1\<rparr>)"
    "in_use (c \<lparr>curve_visited_bins := 1\<rparr>) = [test_segment 0 5000000 0 5000000]" using c(2,3) by simp_all
  note largest = forward_largest [OF this]
  show ?thesis
    unfolding test_forward_coverage_cap_def c(1) unwraps.simps Let_def largest
    by (simp add: test_market_def eval_defs cong: test_cong)
qed

lemma forward_search_at:
  assumes "curve_ok c" "in_use c = [test_segment 0 5000000 0 5000000]"
  shows "\<exists>d. (search_forward test_market c 55168 1000000 1 :: (unit, _) result) = Ok d \<and>
    complete_seen d \<and> minimum_quote_complete d \<and> largest_complete d = 55168"
  unfolding search_forward_def forward_largest [OF assms] as_slice_in_use [OF assms(1)] assms(2)
  by (simp add: forward_segment_def forward_boundary forward_interior add_boundary_def add_interior_def
      start_search_def pushed_once evaluate_search_def evaluate_candidates_def forward_quotes [OF assms]
      consider_quote_def checked_sub_def Let_def)

lemma forward_coverage_at_minimum:
  test_forward_coverage_below_minimum test_forward_coverage_equal_to_minimum
proof -
  obtain c where c: "curve_push curve_new (test_segment 0 5000000 0 5000000) = Ok c" "curve_ok c"
      "in_use c = [test_segment 0 5000000 0 5000000]"
    by (rule forward_curve)
  let ?c = "c \<lparr>curve_visited_bins := 1, curve_stop := MissingBinArray\<rparr>"
  have ok: "curve_ok ?c" "in_use ?c = [test_segment 0 5000000 0 5000000]" using c(2,3) by simp_all
  note largest = forward_largest [OF ok]
  show test_forward_coverage_below_minimum
    unfolding test_forward_coverage_below_minimum_def c(1) unwraps.simps Let_def largest search_forward_def
    by (simp add: incomplete_direction_def eval_defs cong: test_cong)
  show test_forward_coverage_equal_to_minimum
    unfolding test_forward_coverage_equal_to_minimum_def c(1) unwraps.simps Let_def largest
    using forward_search_at [OF ok] by auto
qed

end
