(* ===== verification/Mainnet_Replay.thy ===== *)
theory Mainnet_Replay
  imports Best_Direction Account_Layout Test_Harness
begin

text \<open>
  The last unit test of \<^verbatim>\<open>quote/accounts.rs\<close>: it replays both directions from accounts recorded on
  mainnet and compares every step with the output of the SDKs of Pump and Meteora.  The test is a
  proposition about the recorded accounts; it holds for all accounts with the recorded values at the
  offsets that the parsers read for these quotes, whatever their other bytes are.
\<close>

section \<open>The test\<close>

text \<open>The JSON fixture after its base64 strings and decimal strings are decoded.\<close>

record fixture =
  fx_pump_pool :: "u8 list"
  fx_global_config :: "u8 list"
  fx_fee_config :: "u8 list"
  fx_target_mint :: "u8 list"
  fx_base_vault :: "u8 list"
  fx_quote_vault :: "u8 list"
  fx_meteora_pool :: "u8 list"
  fx_forward_bin_arrays :: "u8 list list"
  fx_reverse_bin_arrays :: "u8 list list"
  fx_input_lamports :: u64
  fx_quote_timestamp_ms :: i64
  fx_pump_buy_target_out :: u64
  fx_forward_dlmm_wsol_out :: u64
  fx_reverse_dlmm_target_out :: u64
  fx_pump_sell_wsol_out :: u64

definition test_replays_mainnet_snapshot :: "fixture \<Rightarrow> bool" where
  "test_replays_mainnet_snapshot fixture \<longleftrightarrow>
    unwraps (parse_pump_pool (fx_pump_pool fixture)) (\<lambda>pool.
    unwraps (token_amount (fx_base_vault fixture)) (\<lambda>base_reserve.
    unwraps (token_amount (fx_quote_vault fixture)) (\<lambda>quote_reserve.
    unwraps (mint_supply (fx_target_mint fixture)) (\<lambda>minted.
    unwraps (parse_pump_fee_config (fx_fee_config fixture)) (\<lambda>config.
    unwraps (parse_pump_global_fees (fx_global_config fixture)) (\<lambda>global.
    unwraps (add_or_panic quote_reserve (pool_virtual_quote_reserves pool) :: u64 maybe) (\<lambda>effective.
    unwraps (select_pump_fees (Some config) global True minted base_reserve effective) (\<lambda>fees.
    unwraps (select_pump_fees_from_data (fx_fee_config fixture) global True minted base_reserve
      effective) (\<lambda>streaming_fees.
    streaming_fees = fees \<and>
    unwraps (pump_buy_exact_quote_in (fx_input_lamports fixture) base_reserve quote_reserve
      (pool_virtual_quote_reserves pool) (lp_fee_bps fees) (protocol_fee_bps fees)
      (creator_fee_bps fees)) (\<lambda>pump_buy.
    quote_amount_out pump_buy = fx_pump_buy_target_out fixture \<and>
    unwraps (parse_lb_pair (fx_meteora_pool fixture)) (\<lambda>pair.
    unwraps (collect parse_bin_array (fx_forward_bin_arrays fixture)) (\<lambda>forward_arrays.
    unwraps (collect parse_bin_array (fx_reverse_bin_arrays fixture)) (\<lambda>reverse_arrays.
    let timestamp = fx_quote_timestamp_ms fixture div 1000 in
    unwraps (quote_dlmm_snapshot (quote_amount_out pump_buy) pair forward_arrays True timestamp)
      (\<lambda>forward. quote_amount_out forward = fx_forward_dlmm_wsol_out fixture) \<and>
    unwraps (quote_dlmm_snapshot (fx_input_lamports fixture) pair reverse_arrays False timestamp)
      (\<lambda>reverse. quote_amount_out reverse = fx_reverse_dlmm_target_out fixture \<and>
    unwraps (pump_sell_base_in (quote_amount_out reverse) base_reserve quote_reserve
      (pool_virtual_quote_reserves pool) (lp_fee_bps fees) (protocol_fee_bps fees)
      (creator_fee_bps fees)) (\<lambda>pump_sell.
    quote_amount_out pump_sell = fx_pump_sell_wsol_out fixture)))))))))))))))"

section \<open>What was recorded\<close>

definition recorded_tiers :: "(u128 \<times> u16 \<times> u16 \<times> u16) list" where
  "recorded_tiers =
    [(0, 2, 93, 30), (420000000000, 20, 5, 95), (1470000000000, 20, 5, 90), (2460000000000, 20, 5, 85),
     (3440000000000, 20, 5, 80), (4420000000000, 20, 5, 75), (9820000000000, 20, 5, 70),
     (14740000000000, 20, 5, 65), (19650000000000, 20, 5, 60), (24560000000000, 20, 5, 55),
     (29470000000000, 20, 5, 50), (34380000000000, 20, 5, 45), (39300000000000, 20, 5, 40),
     (44210000000000, 20, 5, 35), (49120000000000, 20, 5, 30), (54030000000000, 20, 5, 28),
     (58940000000000, 20, 5, 25), (63860000000000, 20, 5, 23), (68770000000000, 20, 5, 20),
     (73681000000000, 20, 5, 18), (78590000000000, 20, 5, 15), (83500000000000, 20, 5, 13),
     (88400000000000, 20, 5, 10), (93330000000000, 20, 5, 8), (98240000000000, 20, 5, 5)]"

definition fees_recorded :: "u8 list \<Rightarrow> usize \<Rightarrow> u16 \<Rightarrow> u16 \<Rightarrow> u16 \<Rightarrow> bool" where
  "fees_recorded data offset lp protocol creator \<longleftrightarrow>
    read_u64 data offset = Ok (ucast lp) \<and> read_u64 data (offset + 8) = Ok (ucast protocol) \<and>
    read_u64 data (offset + 16) = Ok (ucast creator)"

fun tiers_at :: "u8 list \<Rightarrow> usize \<Rightarrow> (u128 \<times> u16 \<times> u16 \<times> u16) list \<Rightarrow> bool" where
  "tiers_at data offset [] \<longleftrightarrow> True"
| "tiers_at data offset ((threshold, lp, protocol, creator) # tiers) \<longleftrightarrow>
    read_u128 data offset = Ok threshold \<and> fees_recorded data (offset + 16) lp protocol creator \<and>
    tiers_at data (offset + 40) tiers"

definition recorded_pump :: "fixture \<Rightarrow> bool" where
  "recorded_pump f \<longleftrightarrow>
    length (fx_pump_pool f) = 301 \<and>
    map_ok (int_from_le 16) (bytes 16 (fx_pump_pool f) 245) = Ok 17585003269 \<and>
    read_u64 (fx_base_vault f) 64 = Ok 14447716073683 \<and>
    read_u64 (fx_quote_vault f) 64 = Ok 2980793364568 \<and>
    read_u64 (fx_target_mint f) 36 = Ok 960573207104236 \<and>
    read_u64 (fx_global_config f) 40 = Ok 20 \<and> read_u64 (fx_global_config f) 48 = Ok 5 \<and>
    read_u64 (fx_global_config f) 313 = Ok 5 \<and>
    length (fx_fee_config f) = 4073 \<and> fees_recorded (fx_fee_config f) 41 25 5 0 \<and>
    read_u32 (fx_fee_config f) 65 = Ok 25 \<and> tiers_at (fx_fee_config f) 69 recorded_tiers"

definition recorded_bitmap :: "u64 list" where
  "recorded_bitmap = [0, 0, 0, 0, 0, 0, 0, 18428729675200069632, 0, 0, 0, 0, 0, 0, 0, 0]"

definition recorded_pair :: "u8 list \<Rightarrow> bool" where
  "recorded_pair data \<longleftrightarrow>
    length data = 904 \<and>
    read_u16 data 8 = Ok 25000 \<and> read_u16 data 10 = Ok 300 \<and> read_u16 data 12 = Ok 1200 \<and>
    read_u16 data 14 = Ok 5000 \<and> read_u32 data 16 = Ok 7500 \<and> read_u32 data 20 = Ok 150000 \<and>
    read_u16 data 32 = Ok 1000 \<and> get_byte data 34 = Ok 0 \<and> get_byte data 35 = Ok 2 \<and>
    get_byte data 36 = Ok 0 \<and>
    read_u32 data 40 = Ok 3144 \<and> read_u32 data 44 = Ok 3144 \<and> read_i32 data 48 = Ok (- 194) \<and>
    read_i64 data 56 = Ok 1786432213 \<and> read_i32 data 76 = Ok (- 194) \<and> read_u16 data 80 = Ok 80 \<and>
    bytes 32 data 264 = Ok (replicate 32 0) \<and> bytes 32 data 408 = Ok (replicate 32 0) \<and>
    (\<forall>i \<in> {0..<16}. read_u64 data (584 + i * 8) = Ok (recorded_bitmap ! i))"

text \<open>The two bins that the quotes visit: the active one, with a single unit of WSOL, and the one below.\<close>

definition bin_recorded :: "u8 list \<Rightarrow> usize \<Rightarrow> u64 \<Rightarrow> u64 \<Rightarrow> u128 \<Rightarrow> bool" where
  "bin_recorded data offset x y price \<longleftrightarrow>
    read_u64 data offset = Ok x \<and> read_u64 data (offset + 8) = Ok y \<and>
    read_u128 data (offset + 16) = Ok price \<and> read_u64 data (offset + 112) = Ok 0 \<and>
    read_u64 data (offset + 128) = Ok 0 \<and> get_byte data (offset + 140) = Ok 0"

definition recorded_array :: "u8 list \<Rightarrow> bool" where
  "recorded_array data \<longleftrightarrow>
    length data = 10136 \<and> read_i64 data 8 = Ok (- 3) \<and>
    bin_recorded data 2216 0 16247228475 3900461191419250886 \<and>
    bin_recorded data 2360 74313535793 1 3931664880950604893"

definition recorded :: "fixture \<Rightarrow> bool" where
  "recorded f \<longleftrightarrow>
    recorded_pump f \<and> recorded_pair (fx_meteora_pool f) \<and>
    (\<exists>array. recorded_array array \<and> fx_forward_bin_arrays f = [array] \<and> fx_reverse_bin_arrays f = [array]) \<and>
    fx_input_lamports f = 5000000 \<and> fx_quote_timestamp_ms f = 1786432644720 \<and>
    fx_pump_buy_target_out f = 24020434 \<and> fx_forward_dlmm_wsol_out f = 4977080 \<and>
    fx_reverse_dlmm_target_out f = 22989989 \<and> fx_pump_sell_wsol_out f = 4756859"

section \<open>The Pump side\<close>

lemma parse_fees_recorded:
  assumes "fees_recorded data offset lp protocol creator"
  shows "parse_fees data offset = Ok \<lparr>lp_fee_bps = lp, protocol_fee_bps = protocol, creator_fee_bps = creator\<rparr>"
proof -
  have narrow: "try_narrow (ucast x :: u64) = Some (x :: u16)" for x
    using unat_u16_bound [of x]
    by (simp add: try_narrow_def unsigned_ucast_eq take_bit_word_eq_self word_unat_eq_iff
        take_bit_nat_eq_self)
  show ?thesis
    using assms by (simp add: fees_recorded_def parse_fees_def read_bps_def narrow)
qed

definition parsed_tiers :: "(u128 \<times> u16 \<times> u16 \<times> u16) list \<Rightarrow> pump_fee_tier list" where
  "parsed_tiers = map (\<lambda>(threshold, lp, protocol, creator). \<lparr>market_cap_threshold = threshold,
    tier_fees = \<lparr>lp_fee_bps = lp, protocol_fee_bps = protocol, creator_fee_bps = creator\<rparr>\<rparr>)"

lemma parse_tiers_at:
  assumes "tiers_at data offset tiers" "offset + 40 * length tiers < 2 ^ 64"
  shows "parse_tiers (length tiers) data offset = Ok (parsed_tiers tiers)"
  using assms
  by (induction data offset tiers rule: tiers_at.induct)
    (auto simp: parsed_tiers_def checked_usize_def dest!: parse_fees_recorded)

lemma recorded_config:
  assumes "recorded_pump f"
  shows "parse_pump_fee_config (fx_fee_config f) =
    Ok \<lparr>flat_fees = \<lparr>lp_fee_bps = 25, protocol_fee_bps = 5, creator_fee_bps = 0\<rparr>,
      fee_tiers = parsed_tiers recorded_tiers\<rparr>"
proof -
  have "length recorded_tiers = 25" by (simp add: recorded_tiers_def)
  then have "parse_tiers 25 (fx_fee_config f) 69 = Ok (parsed_tiers recorded_tiers)"
    using parse_tiers_at [of "fx_fee_config f" 69 recorded_tiers] assms by (simp add: recorded_pump_def)
  with assms parse_fees_recorded [of "fx_fee_config f" 41 25 5 0] show ?thesis
    by (simp add: recorded_pump_def parse_pump_fee_config_def DISCRIMINATOR_LEN_def)
qed

lemma recorded_fees:
  "select_pump_fees (Some \<lparr>flat_fees = flat, fee_tiers = parsed_tiers recorded_tiers\<rparr>) global True
      960573207104236 14447716073683 2998378367837 =
    Ok \<lparr>lp_fee_bps = 20, protocol_fee_bps = 5, creator_fee_bps = 5\<rparr>"
  by (simp add: select_pump_fees_def market_cap_def parsed_tiers_def recorded_tiers_def eval_defs
      cong: test_cong del: select_tier_def)

section \<open>The pair and the bins\<close>

definition pair_recorded :: lb_pair_state where
  "pair_recorded =
    \<lparr>static_parameters = \<lparr>base_factor = 25000, filter_period = 300, decay_period = 1200,
       reduction_factor = 5000, variable_fee_control = 7500, max_volatility_accumulator = 150000,
       protocol_share = 1000, base_fee_power_factor = 0, function_type = 2, collect_fee_mode = 0\<rparr>,
     variable_parameters = \<lparr>volatility_accumulator = 3144, volatility_reference = 3144,
       index_reference = - 194, last_update_timestamp = 1786432213\<rparr>,
     active_id = - 194, bin_step = 80, bitmap = recorded_bitmap, rewards_are_empty = True\<rparr>"

lemma length_recorded_bitmap: "length recorded_bitmap = 16"
  by (simp add: recorded_bitmap_def)

lemma parse_recorded_pair:
  assumes "recorded_pair data"
  shows "parse_lb_pair data = Ok pair_recorded"
proof -
  have "collect (\<lambda>i. read_u64 data (584 + i * 8)) [0..<16] = Ok (map ((!) recorded_bitmap) [0..<16])"
    by (rule collect_Ok_map) (use assms in \<open>simp add: recorded_pair_def\<close>)
  moreover have "map ((!) recorded_bitmap) [0..<16] = recorded_bitmap"
    using map_nth [of recorded_bitmap] by (simp only: length_recorded_bitmap)
  ultimately show ?thesis
    using assms
    by (simp add: recorded_pair_def parse_lb_pair_def parse_static_parameters_def
        parse_variable_parameters_def PAIR_BASE_def pair_recorded_def Let_def
        del: upt_rec_numeral)
qed

definition recorded_bin :: "u64 \<Rightarrow> u64 \<Rightarrow> u128 \<Rightarrow> bin" where
  "recorded_bin x y price = \<lparr>price_q64 = price, amount_x = x, amount_y = y, open_order_amount = 0,
    processed_order_remaining_amount = 0, limit_order_ask_side = False\<rparr>"

lemma bin_at_recorded:
  "bin_recorded data offset x y price \<Longrightarrow> bin_at data offset = recorded_bin x y price"
  by (auto simp: bin_recorded_def bin_at_def recorded_bin_def reader_cases split: if_splits)

lemma parse_recorded_array:
  assumes "recorded_array data"
  shows "\<exists>arr. parse_bin_array data = Ok arr \<and> array_index arr = - 3 \<and>
    find_bin arr (- 194) = Ok (recorded_bin 74313535793 1 3931664880950604893) \<and>
    find_bin arr (- 195) = Ok (recorded_bin 0 16247228475 3900461191419250886)"
proof -
  obtain arr where arr: "parse_bin_array data = Ok arr" "array_index arr = - 3"
    using assms by (auto simp: recorded_array_def parse_bin_array_eq reader_cases split: if_splits)
  have "in_i32 (- 194)" "bin_array_index (- 194) = - 3" "in_i32 (- 195)" "bin_array_index (- 195) = - 3"
    by (simp_all add: in_i32_def bin_array_index_def)
  then show ?thesis
    using assms arr find_bin_parsed [OF _ arr(1), of "- 194"] find_bin_parsed [OF _ arr(1), of "- 195"]
    by (simp add: recorded_array_def bin_at_recorded)
qed

section \<open>The replay\<close>

lemma recorded_forward:
  assumes "array_index arr = - 3" "find_bin arr (- 194) = Ok (recorded_bin 74313535793 1 3931664880950604893)"
    "find_bin arr (- 195) = Ok (recorded_bin 0 16247228475 3900461191419250886)"
  shows "map_ok quote_amount_out (quote_dlmm_snapshot 24020434 pair_recorded [arr] True 1786432644) = Ok 4977080"
  by (simp add: assms recorded_bin_def pair_recorded_def recorded_bitmap_def eval_defs cong: test_cong
      del: find_bin_def)

lemma recorded_reverse:
  assumes "array_index arr = - 3" "find_bin arr (- 194) = Ok (recorded_bin 74313535793 1 3931664880950604893)"
    "find_bin arr (- 195) = Ok (recorded_bin 0 16247228475 3900461191419250886)"
  shows "map_ok quote_amount_out (quote_dlmm_snapshot 5000000 pair_recorded [arr] False 1786432644) = Ok 22989989"
  by (simp add: assms recorded_bin_def pair_recorded_def recorded_bitmap_def eval_defs cong: test_cong
      del: find_bin_def)

lemma recorded_buy:
  "map_ok quote_amount_out (pump_buy_exact_quote_in 5000000 14447716073683 2980793364568 17585003269 20 5 5) =
    Ok 24020434"
  by (simp add: eval_defs cong: test_cong)

lemma recorded_sell:
  "map_ok quote_amount_out (pump_sell_base_in 22989989 14447716073683 2980793364568 17585003269 20 5 5) =
    Ok 4756859"
  by (simp add: eval_defs cong: test_cong)

lemma recorded_pool:
  assumes "recorded_pump f"
  shows "\<exists>pool. parse_pump_pool (fx_pump_pool f) = Ok pool \<and> pool_virtual_quote_reserves pool = 17585003269"
proof -
  have "\<exists>b. bytes 32 (fx_pump_pool f) offset = Ok b" if "offset \<le> 211" for offset
    using assms that by (simp add: recorded_pump_def bytes_def)
  from this [of 11] this [of 43] this [of 211] show ?thesis
    using assms by (auto simp: recorded_pump_def parse_pump_pool_def i128_to_u64_def)
qed

lemma recorded_accounts:
  assumes "recorded_pump f"
  shows "token_amount (fx_base_vault f) = Ok 14447716073683" "token_amount (fx_quote_vault f) = Ok 2980793364568"
    "mint_supply (fx_target_mint f) = Ok 960573207104236"
    "\<exists>global. parse_pump_global_fees (fx_global_config f) = Ok global"
  using assms
  by (simp_all add: recorded_pump_def token_amount_def mint_supply_def parse_pump_global_fees_def
      read_bps_def try_narrow_def)

theorem replays_mainnet_snapshot:
  assumes "recorded f"
  shows "test_replays_mainnet_snapshot f"
proof -
  from assms have pump: "recorded_pump f" and pair: "recorded_pair (fx_meteora_pool f)"
    by (simp_all add: recorded_def)
  from assms obtain array where array: "recorded_array array" "fx_forward_bin_arrays f = [array]"
      "fx_reverse_bin_arrays f = [array]"
    by (auto simp: recorded_def)
  from parse_recorded_array [OF array(1)] obtain arr where arr: "parse_bin_array array = Ok arr"
      and found: "array_index arr = - 3" "find_bin arr (- 194) = Ok (recorded_bin 74313535793 1 3931664880950604893)"
      "find_bin arr (- 195) = Ok (recorded_bin 0 16247228475 3900461191419250886)"
    by blast
  from recorded_forward [OF found] obtain forward where forward:
      "quote_dlmm_snapshot 24020434 pair_recorded [arr] True 1786432644 = Ok forward"
      "quote_amount_out forward = 4977080"
    by (auto simp: result_iff)
  from recorded_reverse [OF found] obtain backward where backward:
      "quote_dlmm_snapshot 5000000 pair_recorded [arr] False 1786432644 = Ok backward"
      "quote_amount_out backward = 22989989"
    by (auto simp: result_iff)
  from recorded_buy recorded_sell obtain buy sell where
      buy: "pump_buy_exact_quote_in 5000000 14447716073683 2980793364568 17585003269 20 5 5 = Ok buy"
        "quote_amount_out buy = 24020434" and
      sell: "pump_sell_base_in 22989989 14447716073683 2980793364568 17585003269 20 5 5 = Ok sell"
        "quote_amount_out sell = 4756859"
    by (auto simp: result_iff)
  from recorded_pool [OF pump] recorded_accounts [OF pump] obtain pool global where accounts:
      "parse_pump_pool (fx_pump_pool f) = Ok pool" "pool_virtual_quote_reserves pool = 17585003269"
      "token_amount (fx_base_vault f) = Ok 14447716073683" "token_amount (fx_quote_vault f) = Ok 2980793364568"
      "mint_supply (fx_target_mint f) = Ok 960573207104236"
      "parse_pump_global_fees (fx_global_config f) = Ok global"
    by blast
  show ?thesis
    using assms
    by (simp add: recorded_def test_replays_mainnet_snapshot_def accounts recorded_config [OF pump]
        add_or_panic_def checked_add_def or_panic_def recorded_fees select_from_data_agrees [OF recorded_config [OF pump]] buy sell
        parse_recorded_pair [OF pair] array arr forward backward)
qed

section \<open>Accounts with the recorded values exist\<close>

text \<open>The hypothesis \<open>recorded\<close> can hold: accounts with the recorded values and zeros elsewhere.\<close>

text \<open>A buffer with the given fields, each at its offset, and zeros between them.\<close>

fun render :: "usize \<Rightarrow> usize \<Rightarrow> (usize \<times> u8 list) list \<Rightarrow> u8 list" where
  "render pos len [] = replicate (len - pos) 0"
| "render pos len ((offset, bs) # fs) =
    replicate (offset - pos) 0 @ bs @ render (offset + length bs) len fs"

fun in_order :: "usize \<Rightarrow> usize \<Rightarrow> (usize \<times> u8 list) list \<Rightarrow> bool" where
  "in_order pos len [] \<longleftrightarrow> pos \<le> len"
| "in_order pos len ((offset, bs) # fs) \<longleftrightarrow> pos \<le> offset \<and> in_order (offset + length bs) len fs"

lemma length_render: "in_order pos len fs \<Longrightarrow> pos \<le> len \<and> length (render pos len fs) = len - pos"
  by (induction pos len fs rule: render.induct) auto

lemma render_shows:
  assumes "in_order pos len fs" "length pre = pos"
  shows "list_all (shows_field (pre @ render pos len fs)) fs"
  using assms
proof (induction pos len fs arbitrary: pre rule: render.induct)
  case (2 pos len offset bs fs)
  have "list_all (shows_field ((pre @ replicate (offset - pos) 0 @ bs) @ render (offset + length bs) len fs)) fs"
    using "2.prems" by (intro "2.IH") auto
  moreover have "length (render (offset + length bs) len fs) = len - (offset + length bs)"
      "offset + length bs \<le> len"
    using "2.prems"(1) length_render [of "offset + length bs" len fs] by simp_all
  ultimately show ?case
    using "2.prems" by (simp add: shows_field_def)
qed simp

definition account_of :: "usize \<Rightarrow> (usize \<times> u8 list) list \<Rightarrow> u8 list" where
  "account_of len fs = render 0 len fs"

lemma account_of:
  assumes "in_order 0 len fs"
  shows "length (account_of len fs) = len" "list_all (shows_field (account_of len fs)) fs"
  using length_render [OF assms] render_shows [OF assms, of "[]"] by (simp_all add: account_of_def)

lemmas read_shown = word_shown [THEN iffD2]
lemmas get_shown = byte_shown [THEN iffD2]

lemma read_shown_int:
  "shows_field data (offset, int_to_le 4 v) \<Longrightarrow> - (2 ^ 31) \<le> v \<Longrightarrow> v < 2 ^ 31 \<Longrightarrow> read_i32 data offset = Ok v"
  "shows_field data (offset, int_to_le 8 v) \<Longrightarrow> - (2 ^ 63) \<le> v \<Longrightarrow> v < 2 ^ 63 \<Longrightarrow> read_i64 data offset = Ok v"
  "shows_field data (offset, int_to_le 16 v) \<Longrightarrow> - (2 ^ 127) \<le> v \<Longrightarrow> v < 2 ^ 127 \<Longrightarrow>
    map_ok (int_from_le 16) (bytes 16 data offset) = Ok v"
  by (simp_all add: int_shown in_i32_def in_i64_def shows_field_def length_int_to_le i128_field.read_Ok_iff)

fun tier_rows :: "usize \<Rightarrow> (u128 \<times> u16 \<times> u16 \<times> u16) list \<Rightarrow> (usize \<times> u8 list) list" where
  "tier_rows offset [] = []"
| "tier_rows offset ((threshold, lp, protocol, creator) # tiers) =
    (offset, word_to_le threshold) # (offset + 16, word_to_le (ucast lp :: u64)) #
    (offset + 24, word_to_le (ucast protocol :: u64)) #
    (offset + 32, word_to_le (ucast creator :: u64)) # tier_rows (offset + 40) tiers"

lemma tier_rows_shown:
  "list_all (shows_field data) (tier_rows offset tiers) \<Longrightarrow> tiers_at data offset tiers"
  by (induction offset tiers rule: tier_rows.induct)
    (auto simp: fees_recorded_def add.assoc intro: read_shown)

lemma tier_rows_in_order:
  "in_order offset len (tier_rows offset tiers) \<longleftrightarrow> offset + 40 * length tiers \<le> len"
  by (induction offset tiers rule: tier_rows.induct) (auto simp: length_word_to_le add.commute [of 40])

definition bin_row :: "usize \<Rightarrow> u64 \<Rightarrow> u64 \<Rightarrow> u128 \<Rightarrow> (usize \<times> u8 list) list" where
  "bin_row offset x y price =
    [(offset, word_to_le x), (offset + 8, word_to_le y), (offset + 16, word_to_le price),
     (offset + 112, word_to_le (0 :: u64)), (offset + 128, word_to_le (0 :: u64)), (offset + 140, [0])]"

lemma bin_row_shown:
  "list_all (shows_field data) (bin_row offset x y price) \<Longrightarrow> bin_recorded data offset x y price"
  by (simp add: bin_row_def bin_recorded_def read_shown get_shown)

definition replica_array :: "u8 list" where
  "replica_array = account_of 10136 ((8, int_to_le 8 (- 3)) #
    bin_row 2216 0 16247228475 3900461191419250886 @ bin_row 2360 74313535793 1 3931664880950604893)"

lemma replica_array: "recorded_array replica_array"
proof -
  let ?rows = "(8, int_to_le 8 (- 3)) # bin_row 2216 0 16247228475 3900461191419250886 @
    bin_row 2360 74313535793 1 3931664880950604893"
  have "in_order 0 10136 ?rows"
    by (simp add: bin_row_def length_word_to_le length_int_to_le)
  from account_of [OF this] show ?thesis
    by (simp add: recorded_array_def replica_array_def bin_row_shown read_shown_int)
qed

definition pair_rows :: "(usize \<times> u8 list) list" where
  "pair_rows =
    [(8, word_to_le (25000 :: u16)), (10, word_to_le (300 :: u16)), (12, word_to_le (1200 :: u16)),
     (14, word_to_le (5000 :: u16)), (16, word_to_le (7500 :: u32)), (20, word_to_le (150000 :: u32)),
     (32, word_to_le (1000 :: u16)), (34, [0]), (35, [2]), (36, [0]),
     (40, word_to_le (3144 :: u32)), (44, word_to_le (3144 :: u32)), (48, int_to_le 4 (- 194)),
     (56, int_to_le 8 1786432213), (76, int_to_le 4 (- 194)), (80, word_to_le (80 :: u16)),
     (264, replicate 32 0), (408, replicate 32 0)] @
    map (\<lambda>i. (584 + i * 8, word_to_le (recorded_bitmap ! i))) [0..<16]"

definition replica_pair :: "u8 list" where
  "replica_pair = account_of 904 pair_rows"

lemma replica_pair: "recorded_pair replica_pair"
proof -
  have "in_order 0 904 pair_rows"
    by (simp add: pair_rows_def length_word_to_le length_int_to_le upt_conv_Cons)
  from account_of [OF this] have "length replica_pair = 904" "list_all (shows_field replica_pair) pair_rows"
    by (simp_all add: replica_pair_def)
  moreover from this(2) have "bytes 32 replica_pair 264 = Ok (replicate 32 0)"
      "bytes 32 replica_pair 408 = Ok (replicate 32 0)"
    by (simp_all add: pair_rows_def shows_field_def bytes_def del: upt_rec_numeral)
  moreover from calculation(2) have "read_u64 replica_pair (584 + i * 8) = Ok (recorded_bitmap ! i)" if "i < 16" for i
    using that by (intro read_shown) (auto simp: pair_rows_def list_all_iff simp del: upt_rec_numeral)
  ultimately show ?thesis
    by (simp add: recorded_pair_def pair_rows_def read_shown read_shown_int get_shown del: upt_rec_numeral)
qed

definition replica_fixture :: fixture where
  "replica_fixture =
    \<lparr>fx_pump_pool = account_of 301 [(245, int_to_le 16 17585003269)],
     fx_global_config = account_of 400
       [(40, word_to_le (20 :: u64)), (48, word_to_le (5 :: u64)), (313, word_to_le (5 :: u64))],
     fx_fee_config = account_of 4073
       ((41, word_to_le (25 :: u64)) # (49, word_to_le (5 :: u64)) # (57, word_to_le (0 :: u64)) #
        (65, word_to_le (25 :: u32)) # tier_rows 69 recorded_tiers),
     fx_target_mint = account_of 82 [(36, word_to_le (960573207104236 :: u64))],
     fx_base_vault = account_of 165 [(64, word_to_le (14447716073683 :: u64))],
     fx_quote_vault = account_of 165 [(64, word_to_le (2980793364568 :: u64))],
     fx_meteora_pool = replica_pair, fx_forward_bin_arrays = [replica_array],
     fx_reverse_bin_arrays = [replica_array], fx_input_lamports = 5000000,
     fx_quote_timestamp_ms = 1786432644720, fx_pump_buy_target_out = 24020434,
     fx_forward_dlmm_wsol_out = 4977080, fx_reverse_dlmm_target_out = 22989989,
     fx_pump_sell_wsol_out = 4756859\<rparr>"

lemma account_of_shows:
  "in_order 0 len fs \<Longrightarrow> (offset, bs) \<in> set fs \<Longrightarrow> shows_field (account_of len fs) (offset, bs)"
  using account_of(2) [of len fs] by (auto simp: list_all_iff)

lemma replica_fixture: "recorded replica_fixture"
proof -
  let ?fees = "(41, word_to_le (25 :: u64)) # (49, word_to_le (5 :: u64)) # (57, word_to_le (0 :: u64)) #
        (65, word_to_le (25 :: u32)) # tier_rows 69 recorded_tiers"
  have "length recorded_tiers = 25" by (simp add: recorded_tiers_def)
  then have "in_order 0 4073 ?fees" by (simp add: length_word_to_le tier_rows_in_order)
  from account_of [OF this] have fees: "length (account_of 4073 ?fees) = 4073"
      "fees_recorded (account_of 4073 ?fees) 41 25 5 0" "read_u32 (account_of 4073 ?fees) 65 = Ok 25"
      "tiers_at (account_of 4073 ?fees) 69 recorded_tiers"
    by (simp_all add: fees_recorded_def read_shown tier_rows_shown)
  have "recorded_pump replica_fixture"
    by (simp add: recorded_pump_def replica_fixture_def fees account_of account_of_shows read_shown
        read_shown_int length_word_to_le length_int_to_le)
  then show ?thesis
    by (simp add: recorded_def replica_fixture_def replica_pair replica_array)
qed

lemma replica_replays:
  "recorded replica_fixture \<and> test_replays_mainnet_snapshot replica_fixture"
  using replica_fixture replays_mainnet_snapshot [OF replica_fixture] by simp

end
