(* ===== verification/Spec2Isabelle.thy ===== *)
theory Spec2Isabelle
  imports Mock_Dex Quote_Types Session Panic_Freedom Quote_Tests Program_Tests Dynamic_Tests Mainnet_Replay
begin

text \<open>
  Verification development of the Solana arbitrage executor under
  \<^verbatim>\<open>src/programs/sol-arb-executor/\<close>: an on-chain program that buys a target token with wrapped SOL
  (WSOL) on one exchange and sells it on another within one transaction, PumpSwap (a
  constant-product pool) and Meteora DLMM (discrete price bins), and reverts unless the WSOL balance
  grew by a demanded profit.

  \<^bold>\<open>The program.\<close>  Four instructions share one list of accounts (\<^verbatim>\<open>ExecuteRoute\<close>).  Two run a fixed
  direction (\<^verbatim>\<open>pump_to_meteora\<close>, \<^verbatim>\<open>meteora_to_pump\<close>); \<^verbatim>\<open>best_direction\<close> quotes both directions for a
  given amount from the raw account bytes and runs the better one; \<^verbatim>\<open>best_direction_dynamic\<close> also
  searches the amount in a range.  A route is two calls of external programs with the balances
  re-read after each, and a check of profit and target balance at the end.  The quotes use
  \<^verbatim>\<open>quote/math.rs\<close> (integer arithmetic) and \<^verbatim>\<open>quote/accounts.rs\<close> (account layouts).

  \<^bold>\<open>How Rust is read.\<close>  A call has one of three outcomes, the datatype \<open>result\<close> of \<open>Prelude\<close>: \<open>Ok\<close>,
  \<open>Err\<close> and \<open>Panic\<close>; \<open>and_then\<close> is \<open>?\<close>.  Unsigned integers are words of their width, with checked,
  saturating and panicking operations as in the source; signed ones are \<open>int\<close> with the range written
  out at each operation; \<open>usize\<close> is \<open>nat\<close>.  A function that returns \<open>Option\<close> has the error type \<open>unit\<close>.
  A slice index, a division by zero and an overflow of a plain operator are panics.  The mutable locals of
  a loop are a record, and the loop is a recursion over it.  Accounts of equal keys share their
  bytes: the store maps keys to accounts.

  \<^bold>\<open>Theories and code.\<close>
  \<^item> \<open>Prelude\<close>: outcomes, machine integers, and the collections \<open>result_iff\<close>, \<open>arith_iff\<close> and
    \<open>eval_defs\<close> that carry the proofs; \<open>agree\<close> compares two computations up to their error values.
  \<^item> \<open>Quote_Math\<close> (\<^verbatim>\<open>quote/math.rs\<close>), with \<open>Pump_Quote\<close> (closed forms of buy and sell, solvency, how
    far the buy is monotone), \<open>Dlmm_Quote\<close> (fee and price conversions as one locale of adjoint pairs,
    conservation, monotonicity) and \<open>Bin_Capacity\<close> (what the capacity of a bin says about amounts).
  \<^item> \<open>Byte_Codec\<close>, \<open>Pump_Accounts\<close>, \<open>Dlmm_Accounts\<close>, \<open>Snapshot_Quote\<close> (\<^verbatim>\<open>quote/accounts.rs\<close>): byte
    readers as a locale with one interpretation per width, parsers exact on every buffer, fee
    selection from raw bytes against parsed configuration, bin addressing and bitmaps, the
    volatility state, and the bounded walk over parsed bin arrays, accounted for bin by bin.
  \<^item> \<open>Account_Layout\<close>: the DLMM accounts as tables of offsets and encoded fields; the parsers accept
    exactly the buffers that show them.
  \<^item> \<open>Program_State\<close> (\<^verbatim>\<open>constants.rs\<close>, \<^verbatim>\<open>errors.rs\<close>, \<^verbatim>\<open>events.rs\<close>) and \<open>Account_Validation\<close>
    (\<^verbatim>\<open>utils/\<close>).
  \<^item> \<open>Swap_Interface\<close>: the locale of what a route needs of an adapter; \<open>Pump_Adapter\<close> and
    \<open>Meteora_Adapter\<close> (\<^verbatim>\<open>adapters/\<close>) interpret it.
  \<^item> \<open>Route\<close> (\<^verbatim>\<open>instructions/mod.rs\<close>, \<^verbatim>\<open>post_trade_checks.rs\<close>, \<^verbatim>\<open>pump_to_meteora.rs\<close>,
    \<^verbatim>\<open>meteora_to_pump.rs\<close>): what a completed route guarantees whatever the called programs do.
  \<^item> \<open>Best_Direction\<close> (\<^verbatim>\<open>instructions/best_direction.rs\<close>): the quote over raw bytes refines the
    snapshot quote; the choice is optimal; \<open>round_trip\<close> is the quote of one direction.
  \<^item> \<open>Quote_Types\<close>: signed values stay in the range of their Rust types along the walk.
  \<^item> \<open>Interior_Numbers\<close>, \<open>Dlmm_Curve\<close>, \<open>Dynamic_Candidates\<close>, \<open>Interior_Test\<close>, \<open>Direction_Search\<close> and
    \<open>Dynamic_Amount\<close> (\<^verbatim>\<open>instructions/dynamic_amount.rs\<close>): the curve of a pair and its exactness
    against the walk of \<open>Best_Direction\<close>; the normalized numbers related to the reals; the
    candidates tried and the best of them; the two probes, the decision and the handler.
    \<open>Pump_Boundary\<close>: the Pump input of a segment end, on the safe side and tight on every market.
  \<^item> \<open>Program_Entry\<close> (\<^verbatim>\<open>lib.rs\<close>): the four entry points and the guarantee of the whole program;
    \<open>Session\<close>: histories of a trader's two token accounts as a step relation, in which every transaction
    has its own clock, accounts and called programs, and is committed or reverted.
  \<^item> \<open>Panic_Freedom\<close>: no instruction panics unless a program it calls does.
  \<^item> \<open>Quote_Probe\<close> (\<^verbatim>\<open>src/test-programs/quote-probe\<close>): the probe program; the rows of its amount search
    are production quotes and its choice is the best of them; no opcode panics.
  \<^item> \<open>Mock_Dex\<close> (\<^verbatim>\<open>src/test-programs/mock-dex\<close>): the exchange of the tests as the called program of the
    routes; a route on it completes with the threefold input as profit.
  \<^item> \<open>Quote_Tests\<close>, \<open>Program_Tests\<close>, \<open>Dynamic_Tests\<close>, over \<open>Test_Harness\<close>: the \<^verbatim>\<open>#[test]\<close> functions of
    the sources as propositions, each with the lemma that the model passes it.  Most are evaluated in
    the kernel; the forty boundaries of the Pump tests follow from \<open>Pump_Boundary\<close>, without running
    their searches.
  \<^item> \<open>Mainnet_Replay\<close>: the test that replays both routes on accounts recorded on mainnet.  It passes on
    every fixture with the recorded values at the offsets that the parsers read.
  \<^item> \<open>Sample_Accounts\<close>: accounts as bytes and an environment on which the witnesses run every
    instruction.

  \<^bold>\<open>Composition.\<close>  The handlers call the quotes on the bytes of the same store the routes run on.  The
  chain of results is: account bytes, parsed accounts (parsers exact), snapshot quote, quote over raw
  bytes (agrees with it), curve (agrees with the quote over raw bytes), searched choice (evaluated on
  a curve), selected choice (equals the round trip of its direction), executed route (profit
  enforced on the re-read balances, whatever was quoted).  \<open>dynamic_choice_accepted\<close> below joins the two
  searching instructions: what the dynamic one selects, the other one would select or better.

  \<^bold>\<open>Bounds.\<close>  Loops over bins recurse on the number of rounds the source fixes (16 visited bins), loops
  over slices on the list; the two binary searches and the Newton iteration are total with a
  termination proof.  So no fuel is chosen by the model and every definition returns.  (The doubling
  loop of a test helper has 64 rounds: its amount is a power of two and overflows in the 64th.)  The
  candidate array has 66 places and never drops an amount, since a segment adds at most four.

  \<^bold>\<open>Hypotheses.\<close>  What is not code of the repository is an argument: \<open>env\<close> holds program-address
  derivation, the token programs' addresses, the unpacking of Token-2022 mints, the re-reading of
  token accounts, the call of another program, and the clock.  Nothing is assumed of it except
  where a theorem says so (that a called program does not panic; in \<open>Mock_Dex\<close>, what a transfer of the
  token program moves).  The curve is compared with the walk
  on plain bins (\<open>plain_arrays\<close>): a bin whose whole output is worth nothing after fees, or whose
  capacity nearly fills \<open>u64\<close>, is skipped by the curve and spent on by the walk; and, where the fee
  is taken from the input, for pairs whose bins all charge a fee or none does (\<open>uniform_fee\<close>).

  \<^bold>\<open>What the development found.\<close>  The Pump buy is not monotone in its input
  (\<open>pump_buy_not_monotone\<close>), although the search for the largest amount that the curve takes is
  justified by monotonicity: its answer is a local boundary (\<open>forward_limit\<close>).  The inputs it derives
  from segment ends are right all the same (\<open>pump_boundary_tight\<close>).  Probing only the
  smallest amount of the range can hide a profitable larger one (\<open>minimum_probe_hides_profit\<close>).

  \<^bold>\<open>Not modelled.\<close>  Anchor's generated dispatch on discriminators and its implicit checks of account
  types; log lines of the executor (\<open>log_dynamic_failure\<close>, \<open>CurveStopReason::code\<close>); compute
  budget and stack limits; the decoding of the JSON fixture of one test; the TypeScript clients and tests.
\<close>

section \<open>Components together\<close>

lemma read_inputs_pair: "read_inputs env st r = Ok p \<Longrightarrow> in_i32 (active_id (in_pair p))"
proof -
  assume "read_inputs env st r = Ok p"
  then have "parse_lb_pair (info_data st (er_meteora_lb_pair r)) = Ok (in_pair p)"
    by (auto simp: read_inputs_def Let_def result_iff)
  then show ?thesis
    using parse_lb_pair_total [of "info_data st (er_meteora_lb_pair r)"] by (auto split: if_splits)
qed

lemma direction_quotes_total:
  assumes "read_inputs env st r = Ok p" "list_all2 (parsed_as st) arrays arrs"
  shows "\<exists>f. forward_quote st p arrays ext a t = Ok f" "\<exists>v. reverse_quote st p arrays ext a t = Ok v"
proof -
  have dlmm: "quote_dlmm_from_accounts st x (in_pair p) arrays ext d t \<noteq> Panic" for x d
    using quotes_agree [OF read_inputs_pair [OF assms(1)] assms(2), of x ext d t]
      snapshot_no_panic [of x "in_pair p" arrs ext d t]
    by (cases "quote_dlmm_snapshot_with_bitmap x (in_pair p) arrs ext d t") auto
  have "pump_buy_quote p x \<noteq> Panic" "pump_sell_quote p x \<noteq> Panic" for x
    by (simp_all add: pump_buy_quote_def pump_sell_quote_def pump_quotes_no_panic)
  with dlmm have "forward_quote st p arrays ext a t \<noteq> Panic" "reverse_quote st p arrays ext a t \<noteq> Panic"
    by (auto simp: forward_quote_def reverse_quote_def result_iff split: option.splits)
  moreover have "forward_quote st p arrays ext a t \<noteq> Err e" "reverse_quote st p arrays ext a t \<noteq> Err e" for e
    by (auto simp: forward_quote_def reverse_quote_def result_iff split: option.splits)
  ultimately show "\<exists>f. forward_quote st p arrays ext a t = Ok f" "\<exists>v. reverse_quote st p arrays ext a t = Ok v"
    by (meson result.exhaust)+
qed

lemma choose_direction_selects:
  assumes "f = Some x \<or> v = Some x" "required \<le> x"
  shows "\<exists>d. choose_direction f v required = Ok d \<and> (d = PumpToMeteora \<longrightarrow> f \<noteq> None) \<and> (d = MeteoraToPump \<longrightarrow> v \<noteq> None)"
proof (cases "f \<noteq> None \<and> v \<noteq> None")
  case True
  then obtain a b where ab: "f = Some a" "v = Some b" by auto
  with assms have "required \<le> max a b" by (auto simp: le_max_iff_disj)
  with ab show ?thesis by (simp add: choose_direction_cases)
next
  case False
  with assms show ?thesis by (cases f; cases v) (auto simp: choose_direction_cases)
qed

text \<open>A round trip that makes the profit makes the best-direction instruction select a direction.\<close>

lemma profitable_round_trip_selected:
  assumes inputs: "read_inputs env st r = Ok p" "list_all2 (parsed_as st) arrays arrs"
    and trip: "round_trip st r p arrays a t d = Ok (Some (amount_out, used))"
    and ready: "cashback_sell_is_ready st (pump_accounts r) = Ok ready"
    and profit: "unat a + unat profit \<le> unat amount_out"
  shows "\<exists>d' used'. select_direction env st r arrays a profit t = Ok (d', used')"
proof -
  let ?ext = "bitmap_extension_data st r"
  obtain f v where f: "forward_quote st p arrays ?ext a t = Ok f"
    and v: "reverse_quote st p arrays ?ext a t = Ok v"
    using direction_quotes_total [OF inputs] by blast
  have sum: "checked_add a profit = Some (a + profit)" "a + profit \<le> amount_out"
    using profit unat_add_lem [of a profit] unat_lt_exp [of amount_out]
    by (auto simp: checked_add_def word_le_nat_alt simp del: unat_lt_exp)
  let ?v = "if ready then v else None"
  have "map_option adq_amount_out f = Some amount_out \<or> map_option fst ?v = Some amount_out"
    using trip f v ready by (cases d) (auto simp: round_trip_def split: if_splits option.splits)
  from choose_direction_selects [OF this sum(2)] obtain d' where "choose_direction (map_option adq_amount_out f) (map_option fst ?v) (a + profit) = Ok d'"
    "d' = PumpToMeteora \<longrightarrow> f \<noteq> None" "d' = MeteoraToPump \<longrightarrow> ?v \<noteq> None"
    by auto
  then show ?thesis
    using inputs(1) f v ready sum(1)
    by (cases d'; cases ready) (auto simp: select_direction_def)
qed

text \<open>C38. The two searching instructions together, on markets where a curve is exact (\<open>plain_market\<close>) and whose
  bin arrays all parse: whatever amount and direction the dynamic search selects for a positive profit and
  a range that is not empty, the best-direction instruction selects a direction for that amount and
  profit on the same accounts at the same time, and its quote promises at least as much.  There, with a
  range of one amount, the dynamic instruction never promises more than best-direction does.\<close>

theorem dynamic_choice_accepted:
  assumes "select_dynamic env st r arrays lo hi profit t = Ok s" "profit \<noteq> 0" "lo \<le> hi"
    and "read_inputs env st r = Ok p" "plain_market st (in_pair p) arrays" "list_all2 (parsed_as st) arrays arrs"
  shows "let c = selected_choice s in
    \<exists>d used amount_out. select_direction env st r arrays (choice_amount_in c) profit t = Ok (d, used) \<and>
      round_trip st r p arrays (choice_amount_in c) t d = Ok (Some (amount_out, used)) \<and>
      choice_amount_out c \<le> amount_out"
proof -
  let ?c = "selected_choice s"
  from select_dynamic_exact [OF assms(1-5)] obtain k where
    trip: "round_trip st r p arrays (choice_amount_in ?c) t (selected_direction s) =
      Ok (Some (choice_amount_out ?c, take k (choice_used_indices ?c)))"
    and profit: "unat (choice_amount_in ?c) + unat profit \<le> unat (choice_amount_out ?c)"
    by (auto simp: Let_def word_le_nat_alt)
  from assms(1) obtain ready where ready: "cashback_sell_is_ready st (pump_accounts r) = Ok ready"
    by (auto simp: select_dynamic_def Let_def result_iff)
  obtain d used where selected: "select_direction env st r arrays (choice_amount_in ?c) profit t = Ok (d, used)"
    using profitable_round_trip_selected [OF assms(4,6) trip ready profit] by blast
  from select_direction_Ok [OF selected] assms(4) obtain amount_out where
    best: "round_trip st r p arrays (choice_amount_in ?c) t d = Ok (Some (amount_out, used))"
    "\<And>x u. round_trip st r p arrays (choice_amount_in ?c) t (opposite d) = Ok (Some (x, u)) \<Longrightarrow> x \<le> amount_out"
    by auto
  have "choice_amount_out ?c \<le> amount_out"
  proof (cases "selected_direction s = d")
    case True
    with trip best(1) show ?thesis by simp
  next
    case False
    then have "selected_direction s = opposite d" by (cases d; cases "selected_direction s") simp_all
    with best(2) trip show ?thesis by simp
  qed
  with selected best(1) show ?thesis unfolding Let_def by blast
qed

theorem dynamic_choice_accepted_witness:
  "\<exists>s d used amount_out. select_dynamic run_env run_store run_route run_bin_arrays 1000 1000 500 1000 = Ok s \<and>
    select_direction run_env run_store run_route run_bin_arrays (choice_amount_in (selected_choice s)) 500 1000 = Ok (d, used) \<and>
    round_trip run_store run_route run_inputs run_bin_arrays (choice_amount_in (selected_choice s)) 1000 d =
      Ok (Some (amount_out, used)) \<and> 1996 \<le> amount_out"
proof -
  obtain s where s: "select_dynamic run_env run_store run_route run_bin_arrays 1000 1000 500 1000 = Ok s"
    "choice_amount_out (selected_choice s) = 1996"
    using run_select_dynamic by auto
  have plain: "plain_market run_store (in_pair run_inputs) run_bin_arrays" using run_plain_market by simp
  obtain arrs where "list_all2 (parsed_as run_store) run_bin_arrays arrs"
    using whole_arrays_parsed [OF run_whole_arrays] list_all2_mono [where Q = "parsed_as run_store"]
    unfolding parsed_as_def by blast
  from dynamic_choice_accepted [OF s(1) _ _ run_reads plain this] s show ?thesis by (auto simp: Let_def)
qed

end
